(* ===== verification/H12_Prelude.thy ===== *)
theory H12_Prelude
  imports Main "HOL-Library.Word" "HOL-Library.Sublist" "HOL-Library.Code_Target_Nat"
begin

text \<open>
  Shared vocabulary of the development.  It holds the model's basic types (bytes, results,
  polls, I/O errors), the parts of the Rust standard library that the crates under
  \<^verbatim>\<open>src/crates\<close> use on byte slices and strings (searching, splitting, trimming, UTF-8
  validation, integer parsing and printing), and the list lemmas the components share.

  A byte is a \<^typ>\<open>char\<close>, which has exactly eight bits, so that wire text can be written as
  a string literal.  Sizes and lengths (\<^verbatim>\<open>usize\<close>) are natural numbers; the crates are
  built for 64-bit targets only (the TLS provider supports nothing else), and
  \<open>usize_max\<close> is the bound that saturating and parsing operations observe.
\<close>

section \<open>Types\<close>

type_synonym byte = char
type_synonym bytes = "char list"
type_synonym u16 = "16 word"
type_synonym u64 = "64 word"
type_synonym ('e, 'a) result = "'e + 'a"
type_synonym duration = nat

datatype 'a poll = Pending | Ready 'a

datatype io_error_kind =
    UnexpectedEof | InvalidData | InvalidInput | TimedOut | WouldBlock | Interrupted
  | WriteZero | Unsupported | ConnectionRefused | ConnectionReset | OtherIo

datatype io_error = IoError (io_error_kind: io_error_kind) (io_message: string)

named_theorems std_defs \<open>definitions of standard-library operations\<close>
named_theorems source_rules \<open>laws of byte sources\<close>
named_theorems pool_rules \<open>effects of the pool operations on the pool's counters\<close>

section \<open>Integers\<close>

definition usize_max :: nat where
  "usize_max = 18446744073709551615"

definition u64_max :: nat where
  "u64_max = 18446744073709551615"

definition u16_max :: nat where
  "u16_max = 65535"

definition saturating_add :: "nat \<Rightarrow> nat \<Rightarrow> nat" where
  "saturating_add a b = min (a + b) usize_max"

lemma saturating_add_le: "saturating_add a b \<le> a + b"
  by (simp add: saturating_add_def)

lemma saturating_add_exact: "a + b \<le> usize_max \<Longrightarrow> saturating_add a b = a + b"
  by (simp add: saturating_add_def)

lemma saturating_add_exceeds:
  "limit < usize_max \<Longrightarrow> saturating_add a b > limit \<longleftrightarrow> a + b > limit"
  by (auto simp: saturating_add_def)

section \<open>Searching, trimming and splitting byte slices\<close>

text \<open>\<open>windows_position pat xs\<close> is \<^verbatim>\<open>xs.windows(pat.len()).position(|w| w == pat)\<close>.\<close>

fun windows_position :: "'a list \<Rightarrow> 'a list \<Rightarrow> nat option" where
  "windows_position pat [] = (if pat = [] then Some 0 else None)"
| "windows_position pat (x # xs) =
     (if take (length pat) (x # xs) = pat then Some 0
      else map_option Suc (windows_position pat xs))"

lemma windows_position_Some_split:
  "windows_position pat xs = Some i \<Longrightarrow>
     xs = take i xs @ pat @ drop (i + length pat) xs"
proof (induction xs arbitrary: i)
  case Nil
  then show ?case by (auto split: if_splits)
next
  case (Cons x xs)
  show ?case
  proof (cases "take (length pat) (x # xs) = pat")
    case True
    then show ?thesis
      using Cons.prems append_take_drop_id[of "length pat" "x # xs"] by simp
  next
    case False
    then obtain j where "windows_position pat xs = Some j" "i = Suc j"
      using Cons.prems by auto
    then show ?thesis using Cons.IH by simp
  qed
qed

lemma windows_position_bound:
  "windows_position pat xs = Some i \<Longrightarrow> i + length pat \<le> length xs"
proof (induction xs arbitrary: i)
  case (Cons x xs)
  then show ?case
    by (cases "take (length pat) (x # xs) = pat") (auto, metis length_Cons length_take min.bounded_iff nat_le_linear)
qed (auto split: if_splits)

text \<open>The first position does not move when more bytes arrive behind the match.\<close>

lemma windows_position_append:
  "windows_position pat xs = Some i \<Longrightarrow> windows_position pat (xs @ ys) = Some i"
proof (induction xs arbitrary: i)
  case Nil
  then show ?case by (cases ys) (auto split: if_splits)
next
  case (Cons x xs)
  show ?case
  proof (cases "take (length pat) (x # xs) = pat")
    case True
    then have "take (length pat) ((x # xs) @ ys) = pat"
      by (metis append_take_drop_id length_take min.absorb_iff2 min.commute nat_le_linear
            take_all take_append append.right_neutral diff_is_0_eq take0 take_eq_Nil)
    then show ?thesis using True Cons.prems by simp
  next
    case False
    then obtain j where j: "windows_position pat xs = Some j" "i = Suc j"
      using Cons.prems by auto
    then have "length pat \<le> length (x # xs)"
      using windows_position_bound[OF j(1)] by simp
    then have "take (length pat) ((x # xs) @ ys) = take (length pat) (x # xs)"
      by (subst take_append) simp
    then show ?thesis using False j Cons.IH by simp
  qed
qed


lemma windows_position_None_append:
  "windows_position pat xs = None \<Longrightarrow>
   windows_position pat (xs @ ys) = Some i \<Longrightarrow> length xs < i + length pat"
proof (rule ccontr)
  assume none: "windows_position pat xs = None"
    and some: "windows_position pat (xs @ ys) = Some i"
    and "\<not> length xs < i + length pat"
  then have le: "i + length pat \<le> length xs" by simp
  have "take (length pat) (drop i xs) = pat"
    using windows_position_Some_split[OF some] le
    by (smt (verit) add.commute append_eq_append_conv_if append_eq_conv_conj diff_is_0_eq
        drop_append le_add2 le_trans length_append length_take min.absorb2 append_Nil2
        take0 take_append add_leE le_diff_conv2 length_drop)
  moreover have "take (length pat) (drop i xs) \<noteq> pat" if "i + length pat \<le> length xs" for i
    using none that
  proof (induction xs arbitrary: i)
    case Nil
    then show ?case by (auto split: if_splits)
  next
    case (Cons x xs)
    then show ?case by (cases i) (auto split: if_splits)
  qed
  ultimately show False using le by blast
qed

text \<open>
  A buffer that already holds the first occurrence of a delimiter: the stream splits at it
  inside the buffer.
\<close>

lemma windows_position_buffered:
  assumes "windows_position pat buf = Some e" "buf @ p = h @ pat @ rest"
    and "windows_position pat (h @ pat @ rest) = Some (length h)"
  obtains ys where "e = length h" "buf = h @ pat @ ys" "rest = ys @ p"
proof -
  have e: "e = length h"
    using windows_position_append[OF assms(1), of p] assms(2,3) by simp
  have "buf = take e buf @ pat @ drop (e + length pat) buf" "length (take e buf) = length h"
    using windows_position_Some_split[OF assms(1)] windows_position_bound[OF assms(1)] e by auto
  then obtain zs ys where zs: "buf = zs @ pat @ ys" "length zs = length h" by metis
  with assms(2) have "zs @ pat @ ys @ p = h @ pat @ rest" by simp
  with zs have "buf = h @ pat @ ys" "rest = ys @ p" by auto
  with e show thesis using that by blast
qed

text \<open>\<open>split_on p xs\<close> is \<^verbatim>\<open>xs.split(p)\<close>: the pieces between separators, never empty.\<close>

fun split_on :: "('a \<Rightarrow> bool) \<Rightarrow> 'a list \<Rightarrow> 'a list list" where
  "split_on p [] = [[]]"
| "split_on p (x # xs) =
     (if p x then [] # split_on p xs
      else (case split_on p xs of [] \<Rightarrow> [[x]] | y # ys \<Rightarrow> (x # y) # ys))"

fun join_with :: "'a \<Rightarrow> 'a list list \<Rightarrow> 'a list" where
  "join_with c [] = []"
| "join_with c [xs] = xs"
| "join_with c (xs # ys # zs) = xs @ c # join_with c (ys # zs)"

lemma split_on_not_Nil [simp]: "split_on p xs \<noteq> []"
  by (induction xs) (auto split: list.splits)

lemma split_on_pieces: "ys \<in> set (split_on p xs) \<Longrightarrow> y \<in> set ys \<Longrightarrow> \<not> p y"
proof (induction xs arbitrary: ys)
  case (Cons x xs)
  then show ?case
    by (cases "split_on p xs") (fastforce split: if_splits)+
qed simp

lemma split_on_no_sep: "\<forall>x \<in> set xs. \<not> p x \<Longrightarrow> split_on p xs = [xs]"
  by (induction xs) auto

lemma split_on_append_sep:
  "\<forall>x \<in> set xs. \<not> p x \<Longrightarrow> p c \<Longrightarrow> split_on p (xs @ c # ys) = xs # split_on p ys"
  by (induction xs) auto

lemma split_on_join_with:
  "xss \<noteq> [] \<Longrightarrow> \<forall>xs \<in> set xss. c \<notin> set xs \<Longrightarrow> split_on (\<lambda>x. x = c) (join_with c xss) = xss"
proof (induction c xss rule: join_with.induct)
  case (2 c xs)
  then show ?case by (auto intro!: split_on_no_sep)
next
  case (3 c xs ys zs)
  then show ?case by (subst join_with.simps, subst split_on_append_sep) auto
qed simp

lemma join_with_split_on: "join_with c (split_on (\<lambda>x. x = c) xs) = xs"
proof (induction xs)
  case (Cons x xs)
  then show ?case
    by (cases "split_on (\<lambda>x. x = c) xs"; cases "tl (split_on (\<lambda>x. x = c) xs)") auto
qed simp

text \<open>\<open>splitn n p xs\<close> is \<^verbatim>\<open>xs.splitn(n, p)\<close>: the last piece is the unsplit remainder.\<close>

fun splitn :: "nat \<Rightarrow> ('a \<Rightarrow> bool) \<Rightarrow> 'a list \<Rightarrow> 'a list list" where
  "splitn 0 p xs = []"
| "splitn (Suc 0) p xs = [xs]"
| "splitn (Suc (Suc n)) p xs =
     (case dropWhile (\<lambda>x. \<not> p x) xs of
        [] \<Rightarrow> [xs]
      | _ # rest \<Rightarrow> takeWhile (\<lambda>x. \<not> p x) xs # splitn (Suc n) p rest)"

definition strip_prefix :: "'a list \<Rightarrow> 'a list \<Rightarrow> 'a list option" where
  "strip_prefix pre xs =
     (if take (length pre) xs = pre then Some (drop (length pre) xs) else None)"

definition strip_suffix :: "'a list \<Rightarrow> 'a list \<Rightarrow> 'a list option" where
  "strip_suffix suf xs = map_option rev (strip_prefix (rev suf) (rev xs))"

lemma strip_prefix_Some: "strip_prefix pre xs = Some ys \<longleftrightarrow> xs = pre @ ys"
proof
  assume "strip_prefix pre xs = Some ys"
  then show "xs = pre @ ys"
    by (auto simp: strip_prefix_def split: if_splits) (metis append_take_drop_id)
qed (simp add: strip_prefix_def)

lemma strip_suffix_Some: "strip_suffix suf xs = Some ys \<longleftrightarrow> xs = ys @ suf"
proof -
  have "strip_suffix suf xs = Some ys \<longleftrightarrow> strip_prefix (rev suf) (rev xs) = Some (rev ys)"
    by (auto simp: strip_suffix_def)
  also have "\<dots> \<longleftrightarrow> xs = ys @ suf"
    by (metis rev_append rev_rev_ident strip_prefix_Some)
  finally show ?thesis .
qed

text \<open>\<open>position p xs\<close> is \<^verbatim>\<open>xs.iter().position(p)\<close>.\<close>

fun position :: "('a \<Rightarrow> bool) \<Rightarrow> 'a list \<Rightarrow> nat option" where
  "position p [] = None"
| "position p (x # xs) = (if p x then Some 0 else map_option Suc (position p xs))"

lemma position_append_hit:
  "\<forall>x \<in> set xs. \<not> p x \<Longrightarrow> p c \<Longrightarrow> position p (xs @ c # ys) = Some (length xs)"
  by (induction xs) auto

lemma position_None: "position p xs = None \<longleftrightarrow> (\<forall>x \<in> set xs. \<not> p x)"
  by (induction xs) auto

lemma position_Some:
  "position p xs = Some i \<Longrightarrow> i < length xs \<and> p (xs ! i) \<and> (\<forall>j < i. \<not> p (xs ! j))"
proof (induction xs arbitrary: i)
  case (Cons x xs)
  then show ?case
    by (auto split: if_splits simp: less_Suc_eq_0_disj)
qed simp


section \<open>Text: ASCII case, UTF-8, decimal and hexadecimal numbers\<close>

abbreviation byte_val :: "byte \<Rightarrow> nat" where
  "byte_val c \<equiv> of_char c"

definition ascii_lower :: "byte \<Rightarrow> byte" where
  "ascii_lower c = (if 65 \<le> byte_val c \<and> byte_val c \<le> 90 then char_of (byte_val c + 32) else c)"

definition eq_ignore_ascii_case :: "bytes \<Rightarrow> bytes \<Rightarrow> bool" where
  "eq_ignore_ascii_case xs ys \<longleftrightarrow> map ascii_lower xs = map ascii_lower ys"

definition byte_in :: "nat \<Rightarrow> nat \<Rightarrow> byte \<Rightarrow> bool" where
  "byte_in lo hi c \<longleftrightarrow> lo \<le> byte_val c \<and> byte_val c \<le> hi"

definition utf8_tail :: "byte \<Rightarrow> bool" where
  "utf8_tail c \<longleftrightarrow> byte_in 128 191 c"

text \<open>\<open>utf8_valid xs\<close> is \<^verbatim>\<open>std::str::from_utf8(xs).is_ok()\<close>: the well-formed byte sequences
  of the Unicode standard (table 3-7).\<close>

fun utf8_valid :: "bytes \<Rightarrow> bool" where
  "utf8_valid [] = True"
| "utf8_valid [a] = byte_in 0 127 a"
| "utf8_valid [a, b] =
     (if byte_in 0 127 a then byte_in 0 127 b else byte_in 194 223 a \<and> utf8_tail b)"
| "utf8_valid [a, b, c] =
     (if byte_in 0 127 a then utf8_valid [b, c]
      else if byte_in 194 223 a then utf8_tail b \<and> utf8_valid [c]
      else utf8_tail c \<and>
        (byte_in 224 224 a \<and> byte_in 160 191 b \<or> byte_in 225 236 a \<and> utf8_tail b
         \<or> byte_in 237 237 a \<and> byte_in 128 159 b \<or> byte_in 238 239 a \<and> utf8_tail b))"
| "utf8_valid (a # b # c # d # xs) =
     (if byte_in 0 127 a then utf8_valid (b # c # d # xs)
      else if byte_in 194 223 a then utf8_tail b \<and> utf8_valid (c # d # xs)
      else if byte_in 224 239 a then
        utf8_tail c \<and>
        (byte_in 224 224 a \<and> byte_in 160 191 b \<or> byte_in 225 236 a \<and> utf8_tail b
         \<or> byte_in 237 237 a \<and> byte_in 128 159 b \<or> byte_in 238 239 a \<and> utf8_tail b)
        \<and> utf8_valid (d # xs)
      else utf8_tail c \<and> utf8_tail d \<and>
        (byte_in 240 240 a \<and> byte_in 144 191 b \<or> byte_in 241 243 a \<and> utf8_tail b
         \<or> byte_in 244 244 a \<and> byte_in 128 143 b)
        \<and> utf8_valid xs)"

definition ascii :: "bytes \<Rightarrow> bool" where
  "ascii xs \<longleftrightarrow> (\<forall>c \<in> set xs. byte_val c < 128)"

lemma ascii_utf8: "ascii xs \<Longrightarrow> utf8_valid xs"
  by (induction xs rule: utf8_valid.induct) (auto simp: ascii_def byte_in_def)

text \<open>\<open>from_str_radix r max s\<close> is the unsigned \<^verbatim>\<open>from_str_radix\<close> (and, with radix ten,
  \<^verbatim>\<open>str::parse\<close>) of an integer type whose largest value is \<open>max\<close>.  A single leading plus sign
  is accepted, as in the standard library.\<close>

definition to_digit :: "nat \<Rightarrow> byte \<Rightarrow> nat option" where
  "to_digit r c =
     (let n = byte_val c;
          d = (if 48 \<le> n \<and> n \<le> 57 then n - 48
               else if 97 \<le> n \<and> n \<le> 122 then n - 87
               else if 65 \<le> n \<and> n \<le> 90 then n - 55 else 36)
      in if d < r then Some d else None)"

fun parse_digits :: "nat \<Rightarrow> nat \<Rightarrow> nat \<Rightarrow> bytes \<Rightarrow> nat option" where
  "parse_digits r mx acc [] = Some acc"
| "parse_digits r mx acc (c # cs) =
     (case to_digit r c of
        None \<Rightarrow> None
      | Some d \<Rightarrow> if acc * r > mx then None
                  else if acc * r + d > mx then None
                  else parse_digits r mx (acc * r + d) cs)"

definition from_str_radix :: "nat \<Rightarrow> nat \<Rightarrow> bytes \<Rightarrow> nat option" where
  "from_str_radix r mx s =
     (case s of
        [] \<Rightarrow> None
      | c # cs \<Rightarrow>
          if cs = [] \<and> (c = CHR ''+'' \<or> c = CHR ''-'') then None
          else if c = CHR ''+'' then parse_digits r mx 0 cs
          else parse_digits r mx 0 s)"

definition digit_char :: "nat \<Rightarrow> byte" where
  "digit_char d = char_of (if d < 10 then 48 + d else 87 + d)"

fun show_radix :: "nat \<Rightarrow> nat \<Rightarrow> string" where
  "show_radix r n =
     (if r < 2 \<or> n < r then [digit_char n]
      else show_radix r (n div r) @ [digit_char (n mod r)])"

declare show_radix.simps [simp del]

text \<open>
  \<open>debug_text\<close> is the \<^verbatim>\<open>Debug\<close> form of a string, for ASCII and for the other characters it prints as
  they are; \<open>debug_bytes\<close> that of a byte sequence.
\<close>

definition debug_char :: "byte \<Rightarrow> string" where
  "debug_char c =
     (if c = CHR 0x22 \<or> c = CHR 0x5C then [CHR 0x5C, c]
      else if c = CHR 0x00 then CHR 0x5C # ''0''
      else if c = CHR 0x09 then CHR 0x5C # ''t''
      else if c = CHR 0x0A then CHR 0x5C # ''n''
      else if c = CHR 0x0D then CHR 0x5C # ''r''
      else if byte_in 0 31 c \<or> c = CHR 0x7F then CHR 0x5C # ''u{'' @ show_radix 16 (byte_val c) @ ''}''
      else [c])"

definition debug_text :: "string \<Rightarrow> string" where
  "debug_text s = [CHR 0x22] @ concat (map debug_char s) @ [CHR 0x22]"

definition debug_bytes :: "bytes \<Rightarrow> string" where
  "debug_bytes bs = ''['' @ concat (map (\<lambda>(i, c). (if i = 0 then [] else '', '') @ show_radix 10 (byte_val c)) (enumerate 0 bs)) @ '']''"

lemma to_digit_digit_char: "d < r \<Longrightarrow> r \<le> 36 \<Longrightarrow> to_digit r (digit_char d) = Some d"
  by (simp add: to_digit_def digit_char_def)

lemma parse_digits_append:
  "parse_digits r mx acc (xs @ ys) =
     Option.bind (parse_digits r mx acc xs) (\<lambda>a. parse_digits r mx a ys)"
  by (induction xs arbitrary: acc) (auto split: option.splits)

lemma parse_digits_bound: "parse_digits r mx acc xs = Some n \<Longrightarrow> acc \<le> mx \<Longrightarrow> n \<le> mx"
  by (induction xs arbitrary: acc) (auto split: option.splits if_splits)

lemma from_str_radix_bound: "from_str_radix r mx xs = Some n \<Longrightarrow> n \<le> mx"
  using parse_digits_bound[of r mx 0]
  by (auto simp: from_str_radix_def simp del: parse_digits.simps split: list.splits if_splits)

lemma parse_digits_show_radix:
  assumes "2 \<le> r" "r \<le> 36" "n \<le> mx"
  shows "parse_digits r mx 0 (show_radix r n) = Some n"
  using assms(3)
proof (induction n rule: less_induct)
  case (less n)
  show ?case
  proof (cases "n < r")
    case True
    then show ?thesis using assms less.prems
      by (simp add: show_radix.simps[of r n] to_digit_digit_char)
  next
    case False
    have lt: "n div r < n" using False assms(1) by simp
    have "parse_digits r mx 0 (show_radix r (n div r)) = Some (n div r)"
      using less.IH[OF lt] less.prems lt by simp
    moreover have "n div r * r \<le> mx"
      using less.prems div_times_less_eq_dividend[of n r] by linarith
    ultimately show ?thesis using False assms less.prems
      by (simp add: show_radix.simps[of r n] parse_digits_append to_digit_digit_char
            div_mult_mod_eq)
  qed
qed

lemma show_radix_not_Nil [simp]: "show_radix r n \<noteq> []"
  by (simp add: show_radix.simps[of r n])

lemma set_show_radix:
  "2 \<le> r \<Longrightarrow> r \<le> 36 \<Longrightarrow> c \<in> set (show_radix r n) \<Longrightarrow> \<exists>d < r. c = digit_char d"
proof (induction n rule: less_induct)
  case (less n)
  show ?case
  proof (cases "n < r")
    case True
    then show ?thesis using less.prems by (auto simp: show_radix.simps[of r n])
  next
    case False
    then have "n div r < n" using less.prems(1) by simp
    moreover have "n mod r < r" using less.prems(1) by simp
    moreover have "c \<in> set (show_radix r (n div r)) \<or> c = digit_char (n mod r)"
      using less.prems False by (auto simp: show_radix.simps[of r n])
    ultimately show ?thesis using less.IH less.prems(1,2) by blast
  qed
qed

lemma digit_char_val: "d < 36 \<Longrightarrow> byte_val (digit_char d) = (if d < 10 then 48 + d else 87 + d)"
  by (simp add: digit_char_def)

lemma show_radix_chars:
  assumes "2 \<le> r" "r \<le> 36" "c \<in> set (show_radix r n)"
  shows "48 \<le> byte_val c \<and> byte_val c \<le> 57 \<or> 97 \<le> byte_val c \<and> byte_val c \<le> 122"
proof -
  obtain d where "d < r" "c = digit_char d" using set_show_radix[OF assms] by blast
  then show ?thesis using assms(2) by (cases "d < 10") (auto simp: digit_char_val)
qed

lemma from_str_radix_show_radix:
  assumes "2 \<le> r" "r \<le> 36" "n \<le> mx"
  shows "from_str_radix r mx (show_radix r n) = Some n"
proof -
  obtain c cs where cs: "show_radix r n = c # cs" by (cases "show_radix r n") auto
  then have "c \<noteq> CHR ''+''" "c \<noteq> CHR ''-''"
    using show_radix_chars[OF assms(1,2), of c n] by auto
  then show ?thesis
    using parse_digits_show_radix[OF assms] cs by (auto simp: from_str_radix_def)
qed

lemma ascii_show_radix: "2 \<le> r \<Longrightarrow> r \<le> 36 \<Longrightarrow> ascii (show_radix r n)"
  unfolding ascii_def using show_radix_chars by fastforce

text \<open>
  Decimal numerals by their value: what the integer parsers accept is a non-empty sequence of
  digits, after an optional plus sign, whose value fits.
\<close>

definition decimal_digit :: "byte \<Rightarrow> bool" where
  "decimal_digit c \<longleftrightarrow> 48 \<le> byte_val c \<and> byte_val c \<le> 57"

definition decimal_value :: "bytes \<Rightarrow> nat" where
  "decimal_value ds = foldl (\<lambda>n c. 10 * n + (byte_val c - 48)) 0 ds"

lemma to_digit_decimal: "to_digit 10 c = Some d \<longleftrightarrow> decimal_digit c \<and> d = byte_val c - 48"
  by (auto simp: to_digit_def decimal_digit_def Let_def split: if_splits)

lemma decimal_fold_ge: "(n :: nat) \<le> foldl (\<lambda>n c. 10 * n + (byte_val c - 48)) n ds"
proof (induction ds arbitrary: n)
  case (Cons c ds)
  have "n \<le> 10 * n + (byte_val c - 48)" by simp
  also have "\<dots> \<le> foldl (\<lambda>n c. 10 * n + (byte_val c - 48)) (10 * n + (byte_val c - 48)) ds" by (rule Cons.IH)
  finally show ?case by simp
qed simp

lemma parse_digits_decimal:
  assumes "acc \<le> mx"
  shows "parse_digits 10 mx acc ds = Some n \<longleftrightarrow>
    list_all decimal_digit ds \<and> n = foldl (\<lambda>n c. 10 * n + (byte_val c - 48)) acc ds \<and> n \<le> mx"
  using assms
proof (induction ds arbitrary: acc)
  case (Cons c ds)
  let ?acc = "10 * acc + (byte_val c - 48)"
  show ?case
  proof (cases "decimal_digit c")
    case True
    then have digit: "to_digit 10 c = Some (byte_val c - 48)" by (simp add: to_digit_decimal)
    show ?thesis
    proof (cases "?acc \<le> mx")
      case True
      then show ?thesis using digit Cons.IH[OF True] \<open>decimal_digit c\<close> by (auto simp: mult.commute)
    next
      case False
      then show ?thesis using digit decimal_fold_ge[of ?acc ds] by (auto simp: mult.commute)
    qed
  next
    case False
    then have "to_digit 10 c = None" using to_digit_decimal[of c] by (cases "to_digit 10 c") auto
    then show ?thesis using False by simp
  qed
qed auto

lemma from_str_radix_decimal:
  "from_str_radix 10 mx s = Some n \<longleftrightarrow>
     (\<exists>ds. (s = ds \<or> s = CHR ''+'' # ds) \<and> ds \<noteq> [] \<and> list_all decimal_digit ds \<and> n = decimal_value ds \<and> n \<le> mx)"
proof -
  have sign: "\<not> decimal_digit CHR ''+''" "\<not> decimal_digit CHR ''-''" by code_simp+
  show ?thesis
    using sign by (cases s)
      (auto simp: from_str_radix_def parse_digits_decimal decimal_value_def simp del: parse_digits.simps)
qed

lemma decimal_ascii: "list_all decimal_digit ds \<Longrightarrow> ascii ds"
  by (auto simp: ascii_def decimal_digit_def list_all_iff)

end
