(* ===== verification/Http_Api.thy ===== *)
theory Http_Api
  imports H12_Prelude
begin

text \<open>
  The parts of third-party crates that the repository calls, as parameters of the model.
  The source of the \<^verbatim>\<open>http\<close> crate is not part of the repository, so none of its functions is
  given a definition here: a record collects the operations a component calls, and a
  predicate states the documented behaviour the component relies on.  The theorems that need
  such behaviour take the predicate as a hypothesis and are instantiated at a concrete record
  by their witnesses.

  Plain data of the crate is represented by its documented observable form: a method by its
  token, a status code by its number, a header name by its lower-case text, a header value by
  its bytes.
\<close>

type_synonym http_method = string

datatype http_version = HTTP_09 | HTTP_10 | HTTP_11 | HTTP_2 | HTTP_3

type_synonym status_code = u16
type_synonym header_name = string
type_synonym header_value = bytes

text \<open>Operations of \<^verbatim>\<open>http::HeaderMap\<close>.\<close>

record 'h header_ops =
  hm_new :: 'h
  hm_append :: "'h \<Rightarrow> header_name \<Rightarrow> header_value \<Rightarrow> 'h"
  hm_insert :: "'h \<Rightarrow> header_name \<Rightarrow> header_value \<Rightarrow> 'h"
  hm_contains_key :: "'h \<Rightarrow> header_name \<Rightarrow> bool"
  hm_get_all :: "'h \<Rightarrow> header_name \<Rightarrow> header_value list"
  hm_iter :: "'h \<Rightarrow> (header_name \<times> header_value) list"

text \<open>
  The documented behaviour of a header map: it is a multimap; \<^verbatim>\<open>append\<close> adds one value behind
  the values of its name, \<^verbatim>\<open>insert\<close> replaces them, \<^verbatim>\<open>get_all\<close> lists the values of a name in
  insertion order, and iteration yields exactly the stored pairs.
\<close>

definition header_laws :: "'h header_ops \<Rightarrow> bool" where
  "header_laws H \<longleftrightarrow>
     (\<forall>n. hm_get_all H (hm_new H) n = []) \<and>
     (\<forall>h n v m. hm_get_all H (hm_append H h n v) m =
        (if m = n then hm_get_all H h n @ [v] else hm_get_all H h m)) \<and>
     (\<forall>h n v m. hm_get_all H (hm_insert H h n v) m =
        (if m = n then [v] else hm_get_all H h m)) \<and>
     (\<forall>h n. hm_contains_key H h n \<longleftrightarrow> hm_get_all H h n \<noteq> []) \<and>
     (\<forall>h n. map snd (filter (\<lambda>p. fst p = n) (hm_iter H h)) = hm_get_all H h n)"

lemma header_laws_get_all:
  assumes "header_laws H"
  shows "hm_get_all H (hm_new H) n = []"
    and "hm_get_all H (hm_append H h n v) m =
           (if m = n then hm_get_all H h n @ [v] else hm_get_all H h m)"
    and "hm_get_all H (hm_insert H h n v) m =
           (if m = n then [v] else hm_get_all H h m)"
    and "hm_contains_key H h n \<longleftrightarrow> hm_get_all H h n \<noteq> []"
    and "map snd (filter (\<lambda>p. fst p = n) (hm_iter H h)) = hm_get_all H h n"
  using assms unfolding header_laws_def by blast+

text \<open>An association list has that behaviour; witnesses use it.\<close>

definition alist_headers :: "(header_name \<times> header_value) list header_ops" where
  "alist_headers =
     \<lparr>hm_new = [],
      hm_append = (\<lambda>h n v. h @ [(n, v)]),
      hm_insert = (\<lambda>h n v. filter (\<lambda>p. fst p \<noteq> n) h @ [(n, v)]),
      hm_contains_key = (\<lambda>h n. \<exists>p \<in> set h. fst p = n),
      hm_get_all = (\<lambda>h n. map snd (filter (\<lambda>p. fst p = n) h)),
      hm_iter = (\<lambda>h. h)\<rparr>"

lemma filter_other_name:
  "m \<noteq> n \<Longrightarrow> filter (\<lambda>p. fst p \<noteq> n \<and> fst p = m) h = filter (\<lambda>p. fst p = m) h"
  by (induction h) auto

lemma header_laws_alist: "header_laws alist_headers"
  unfolding header_laws_def alist_headers_def
  by (auto simp: filter_other_name filter_empty_conv)

text \<open>Validating constructors of header names, header values and status codes.\<close>

record field_ops =
  header_name_from_bytes :: "bytes \<Rightarrow> header_name option"
  header_value_from_bytes :: "bytes \<Rightarrow> header_value option"
  header_value_from_str :: "string \<Rightarrow> header_value option"
  status_from_u16 :: "u16 \<Rightarrow> status_code option"
  status_is_informational :: "status_code \<Rightarrow> bool"

text \<open>
  The documented behaviour relied upon: a status code is a number from 100 to 999, the
  informational ones are 100 to 199, a header value is stored as the bytes it was built from,
  and every string of visible ASCII characters is a header value.
\<close>

definition visible_ascii :: "string \<Rightarrow> bool" where
  "visible_ascii s \<longleftrightarrow> list_all (\<lambda>c. 32 \<le> byte_val c \<and> byte_val c < 127) s"

definition status_laws :: "field_ops \<Rightarrow> bool" where
  "status_laws F \<longleftrightarrow>
     (\<forall>c. status_from_u16 F c = (if 100 \<le> unat c \<and> unat c < 1000 then Some c else None)) \<and>
     (\<forall>c. status_is_informational F c \<longleftrightarrow> 100 \<le> unat c \<and> unat c < 200)"

definition value_laws :: "field_ops \<Rightarrow> bool" where
  "value_laws F \<longleftrightarrow>
     (\<forall>bs v. header_value_from_bytes F bs = Some v \<longrightarrow> v = bs) \<and>
     (\<forall>s. visible_ascii s \<longrightarrow> header_value_from_str F s = Some s)"

lemma value_laws_from_str: "value_laws F \<Longrightarrow> visible_ascii s \<Longrightarrow> header_value_from_str F s = Some s"
  by (simp add: value_laws_def)

text \<open>A concrete instance for witnesses: token characters and visible field content.\<close>

definition demo_fields :: field_ops where
  "demo_fields =
     \<lparr>header_name_from_bytes =
        (\<lambda>bs. if bs \<noteq> [] \<and> list_all (\<lambda>c. 33 \<le> byte_val c \<and> byte_val c < 127) bs
              then Some (map ascii_lower bs) else None),
      header_value_from_bytes =
        (\<lambda>bs. if list_all (\<lambda>c. 32 \<le> byte_val c \<and> byte_val c \<noteq> 127 \<or> byte_val c = 9) bs
              then Some bs else None),
      header_value_from_str = (\<lambda>s. if visible_ascii s then Some s else None),
      status_from_u16 = (\<lambda>c. if 100 \<le> unat c \<and> unat c < 1000 then Some c else None),
      status_is_informational = (\<lambda>c. 100 \<le> unat c \<and> unat c < 200)\<rparr>"

lemma status_laws_demo: "status_laws demo_fields"
  by (simp add: status_laws_def demo_fields_def)

lemma value_laws_demo: "value_laws demo_fields"
  by (auto simp: value_laws_def demo_fields_def split: if_splits)

section \<open>Requests, responses and URIs\<close>

record ('u, 'h, 'b) request =
  rq_method :: http_method
  rq_uri :: 'u
  rq_version :: http_version
  rq_headers :: 'h
  rq_body :: 'b

record ('h, 'b) response =
  rs_status :: status_code
  rs_version :: http_version
  rs_headers :: 'h
  rs_body :: 'b

text \<open>
  Operations of \<^verbatim>\<open>http::Uri\<close>.  Schemes, authorities and paths are their texts; a port is its text
  and its number.  \<open>uri_from_parts\<close> is \<^verbatim>\<open>Uri::from_parts\<close> on a scheme, an authority and a path
  with query, and answers None for parts that do not form a URI.
\<close>

record 'u uri_ops =
  uri_scheme :: "'u \<Rightarrow> string option"
  uri_authority :: "'u \<Rightarrow> string option"
  uri_path_and_query :: "'u \<Rightarrow> string option"
  authority_host :: "string \<Rightarrow> string"
  authority_port :: "string \<Rightarrow> (string \<times> u16) option"
  uri_from_parts :: "string option \<times> string option \<times> string option \<Rightarrow> 'u option"
  uri_default :: 'u
  uri_display :: "'u \<Rightarrow> string"

definition uri_host :: "'u uri_ops \<Rightarrow> 'u \<Rightarrow> string option" where
  "uri_host U u = map_option (authority_host U) (uri_authority U u)"

definition uri_port :: "'u uri_ops \<Rightarrow> 'u \<Rightarrow> (string \<times> u16) option" where
  "uri_port U u = Option.bind (uri_authority U u) (authority_port U)"

definition authority_text_ok :: "'u uri_ops \<Rightarrow> string \<Rightarrow> bool" where
  "authority_text_ok U a \<longleftrightarrow> visible_ascii (authority_host U a) \<and>
     (\<forall>p. authority_port U a = Some p \<longrightarrow> visible_ascii (fst p))"

text \<open>
  The documented behaviour relied upon.  The parts of a URI built from
  parts with a path, or from an authority alone, are those parts.
  An authority of a URI is a URI of its own (authority form), and with a scheme and the root
  path an absolute URI; a path of a URI is a URI of its own (origin form).  The default URI is
  the root path.  A URI in origin or authority form is printed as its only part.  The texts
  of hosts and ports are visible ASCII.
\<close>

definition uri_laws :: "'u uri_ops \<Rightarrow> bool" where
  "uri_laws U \<longleftrightarrow>
     (\<forall>s a p u. uri_from_parts U (s, a, Some p) = Some u \<longrightarrow>
        uri_scheme U u = s \<and> uri_authority U u = a \<and> uri_path_and_query U u = Some p) \<and>
     (\<forall>a u. uri_from_parts U (None, Some a, None) = Some u \<longrightarrow>
        uri_scheme U u = None \<and> uri_authority U u = Some a \<and> uri_path_and_query U u = None) \<and>
     (\<forall>u a. uri_authority U u = Some a \<longrightarrow>
        uri_from_parts U (None, Some a, None) \<noteq> None \<and> authority_text_ok U a \<and>
        (\<forall>s. s \<in> {''http'', ''https''} \<or> (\<exists>v. uri_scheme U v = Some s) \<longrightarrow>
           uri_from_parts U (Some s, Some a, Some ''/'') \<noteq> None)) \<and>
     (\<forall>u p. uri_path_and_query U u = Some p \<longrightarrow> uri_from_parts U (None, None, Some p) \<noteq> None) \<and>
     uri_from_parts U (None, None, Some ''/'') = Some (uri_default U) \<and>
     (\<forall>u p. uri_scheme U u = None \<longrightarrow> uri_authority U u = None \<longrightarrow>
        uri_path_and_query U u = Some p \<longrightarrow> uri_display U u = p) \<and>
     (\<forall>u a. uri_scheme U u = None \<longrightarrow> uri_authority U u = Some a \<longrightarrow>
        uri_path_and_query U u = None \<longrightarrow> uri_display U u = a)"

lemmas uri_laws_conjuncts = uri_laws_def[THEN iffD1, THEN conjunct1]
  uri_laws_def[THEN iffD1, THEN conjunct2, THEN conjunct1]
  uri_laws_def[THEN iffD1, THEN conjunct2, THEN conjunct2, THEN conjunct1]
  uri_laws_def[THEN iffD1, THEN conjunct2, THEN conjunct2, THEN conjunct2, THEN conjunct1]
  uri_laws_def[THEN iffD1, THEN conjunct2, THEN conjunct2, THEN conjunct2, THEN conjunct2]

lemma uri_laws_parts:
  assumes "uri_laws U" "uri_from_parts U (s, a, Some p) = Some u"
  shows "uri_scheme U u = s" "uri_authority U u = a" "uri_path_and_query U u = Some p"
  using uri_laws_conjuncts(1)[OF assms(1), rule_format, OF assms(2)] by simp_all

lemma uri_laws_authority_form:
  assumes "uri_laws U" "uri_from_parts U (None, Some a, None) = Some u"
  shows "uri_scheme U u = None" "uri_authority U u = Some a" "uri_path_and_query U u = None"
  using uri_laws_conjuncts(2)[OF assms(1), rule_format, OF assms(2)] by simp_all

lemma uri_laws_valid:
  assumes "uri_laws U"
  shows "uri_authority U u = Some a \<Longrightarrow> \<exists>v. uri_from_parts U (None, Some a, None) = Some v"
    and "uri_authority U u = Some a \<Longrightarrow> authority_text_ok U a"
    and "uri_authority U u = Some a \<Longrightarrow> s \<in> {''http'', ''https''} \<Longrightarrow>
           \<exists>v. uri_from_parts U (Some s, Some a, Some ''/'') = Some v"
    and "uri_authority U u = Some a \<Longrightarrow> uri_scheme U w = Some s \<Longrightarrow>
           \<exists>v. uri_from_parts U (Some s, Some a, Some ''/'') = Some v"
    and "uri_path_and_query U u = Some p \<Longrightarrow> \<exists>v. uri_from_parts U (None, None, Some p) = Some v"
    and "uri_from_parts U (None, None, Some ''/'') = Some (uri_default U)"
  using uri_laws_conjuncts(3)[OF assms, rule_format, of u a] uri_laws_conjuncts(4)[OF assms, rule_format, of u p]
    uri_laws_conjuncts(5)[OF assms]
  by auto

lemma uri_laws_display:
  assumes "uri_laws U" "uri_scheme U u = None"
  shows "uri_authority U u = None \<Longrightarrow> uri_path_and_query U u = Some p \<Longrightarrow> uri_display U u = p"
    and "uri_authority U u = Some a \<Longrightarrow> uri_path_and_query U u = None \<Longrightarrow> uri_display U u = a"
  using uri_laws_conjuncts(5)[OF assms(1)] assms(2) by auto

text \<open>A concrete instance for witnesses: a URI is its three parts.\<close>

type_synonym demo_uri = "string option \<times> string option \<times> string option"

fun demo_authority :: "demo_uri \<Rightarrow> string option" where
  "demo_authority (s, Some a, p) = (if visible_ascii a then Some a else None)"
| "demo_authority (s, None, p) = None"

definition demo_uris :: "demo_uri uri_ops" where
  "demo_uris =
     \<lparr>uri_scheme = (\<lambda>(s, a, p). s),
      uri_authority = demo_authority,
      uri_path_and_query = (\<lambda>(s, a, p). p),
      authority_host = takeWhile (\<lambda>c. c \<noteq> CHR '':''),
      authority_port = (\<lambda>a. case dropWhile (\<lambda>c. c \<noteq> CHR '':'') a of
          [] \<Rightarrow> None
        | _ # ds \<Rightarrow> map_option (\<lambda>n. (ds, of_nat n)) (from_str_radix 10 u16_max ds)),
      uri_from_parts = (\<lambda>(s, a, p). case a of
          Some x \<Rightarrow> if visible_ascii x then Some (s, a, p) else None
        | None \<Rightarrow> Some (s, a, p)),
      uri_default = (None, None, Some ''/''),
      uri_display = (\<lambda>(s, a, p).
          (case s of Some x \<Rightarrow> x @ ''://'' | None \<Rightarrow> [])
          @ (case demo_authority (s, a, p) of Some x \<Rightarrow> x | None \<Rightarrow> [])
          @ (case p of Some x \<Rightarrow> x | None \<Rightarrow> []))\<rparr>"

lemma visible_ascii_takeWhile: "visible_ascii a \<Longrightarrow> visible_ascii (takeWhile P a)"
  by (auto simp: visible_ascii_def list_all_iff dest: set_takeWhileD)

lemma visible_ascii_dropWhile: "visible_ascii a \<Longrightarrow> dropWhile P a = c # ds \<Longrightarrow> visible_ascii ds"
  unfolding visible_ascii_def list_all_iff by (metis list.set_intros(2) set_dropWhileD)

lemma demo_authority_text: "visible_ascii a \<Longrightarrow> authority_text_ok demo_uris a"
  by (auto simp: authority_text_ok_def demo_uris_def visible_ascii_takeWhile
      dest: visible_ascii_dropWhile split: list.splits)

lemma uri_laws_demo: "uri_laws demo_uris"
  unfolding uri_laws_def
proof (intro conjI)
  have known: "visible_ascii a" if "demo_authority u = Some a" for u a
    using that by (auto elim!: demo_authority.elims split: if_splits)
  show "\<forall>u a. uri_authority demo_uris u = Some a \<longrightarrow>
      uri_from_parts demo_uris (None, Some a, None) \<noteq> None \<and> authority_text_ok demo_uris a \<and>
      (\<forall>s. s \<in> {''http'', ''https''} \<or> (\<exists>v. uri_scheme demo_uris v = Some s) \<longrightarrow>
         uri_from_parts demo_uris (Some s, Some a, Some ''/'') \<noteq> None)"
    using known demo_authority_text by (simp add: demo_uris_def)
qed (auto simp: demo_uris_def split: option.splits if_splits)

end
