(* ===== verification/Sync_Wire.thy ===== *)
theory Sync_Wire
  imports Http_Api
begin

text \<open>
  The byte-level part of the blocking client: scanning for line ends, trimming optional
  white space, chunk sizes, response heads and the choice of the body framing.  Source:
  \<^verbatim>\<open>src/crates/h12tiny-client-sync/src/lib.rs\<close>, functions \<^verbatim>\<open>parse_response_head\<close> to
  \<^verbatim>\<open>is_timeout\<close>.
\<close>

section \<open>Errors\<close>

datatype error_kind =
    AbsoluteUriRequired | UnsupportedScheme | TlsUnavailable | Connect | TlsError | Alpn
  | UnsupportedVersion | UnsupportedUpgrade | SendRequest | ResponseError | Timeout

datatype error_source =
    NoSource | IoSource io_error | UriSource | InvalidServerName string | UnsupportedAlpn bytes
  | RustlsSource string

record error =
  kind :: error_kind
  source :: error_source

definition error_new :: "error_kind \<Rightarrow> error" where
  "error_new k = \<lparr>kind = k, source = NoSource\<rparr>"

definition error_with_source :: "error_kind \<Rightarrow> error_source \<Rightarrow> error" where
  "error_with_source k s = \<lparr>kind = k, source = s\<rparr>"

definition is_timeout :: "io_error \<Rightarrow> bool" where
  "is_timeout e \<longleftrightarrow> io_error_kind e = TimedOut \<or> io_error_kind e = WouldBlock"

definition error_from_io :: "error_kind \<Rightarrow> io_error \<Rightarrow> error" where
  "error_from_io k e = error_with_source (if is_timeout e then Timeout else k) (IoSource e)"

definition response_error :: "string \<Rightarrow> error" where
  "response_error msg = error_with_source ResponseError (IoSource (IoError InvalidData msg))"

definition error_is_timeout :: "error \<Rightarrow> bool" where
  "error_is_timeout e \<longleftrightarrow> kind e = Timeout"

text \<open>The text of an error and the error it was caused by.\<close>

fun error_kind_display :: "error_kind \<Rightarrow> string" where
  "error_kind_display AbsoluteUriRequired = ''client requests require an absolute URI''"
| "error_kind_display UnsupportedScheme = ''request URI scheme is unsupported''"
| "error_kind_display TlsUnavailable = ''HTTPS requires the `tls` feature''"
| "error_kind_display Connect = ''connection establishment failed''"
| "error_kind_display TlsError = ''TLS negotiation or certificate validation failed''"
| "error_kind_display Alpn = ''TLS ALPN did not select HTTP/1.1''"
| "error_kind_display UnsupportedVersion = ''request HTTP version is unsupported''"
| "error_kind_display UnsupportedUpgrade = ''HTTP/1 protocol upgrades are unsupported''"
| "error_kind_display SendRequest = ''HTTP request dispatch failed''"
| "error_kind_display ResponseError = ''HTTP response framing failed''"
| "error_kind_display Timeout = ''blocking HTTP operation timed out''"

definition error_display :: "error \<Rightarrow> string" where
  "error_display e = error_kind_display (kind e)"

definition error_cause :: "error \<Rightarrow> error_source option" where
  "error_cause e = (if source e = NoSource then None else Some (source e))"

section \<open>Scanning\<close>

abbreviation CR :: byte where "CR \<equiv> CHR 0x0D"
abbreviation LF :: byte where "LF \<equiv> CHR 0x0A"
abbreviation SP :: byte where "SP \<equiv> CHR 0x20"
abbreviation HTAB :: byte where "HTAB \<equiv> CHR 0x09"
abbreviation crlf :: bytes where "crlf \<equiv> [CR, LF]"

definition find_crlf :: "bytes \<Rightarrow> nat option" where
  "find_crlf bs = windows_position crlf bs"

definition find_head_end :: "bytes \<Rightarrow> nat option" where
  "find_head_end bs = windows_position [CR, LF, CR, LF] bs"

definition is_ows :: "byte \<Rightarrow> bool" where
  "is_ows c \<longleftrightarrow> c = SP \<or> c = HTAB"

fun trim_front :: "bytes \<Rightarrow> bytes" where
  "trim_front [] = []"
| "trim_front (c # cs) = (if is_ows c then trim_front cs else c # cs)"

function trim_back :: "bytes \<Rightarrow> bytes" where
  "trim_back bs = (if bs \<noteq> [] \<and> is_ows (last bs) then trim_back (butlast bs) else bs)"
  by pat_completeness auto
termination
  by (relation "measure length") auto

declare trim_back.simps [simp del]

definition trim_ows :: "bytes \<Rightarrow> bytes" where
  "trim_ows bs = trim_back (trim_front bs)"

lemma trim_front_dropWhile: "trim_front bs = dropWhile is_ows bs"
  by (induction bs) auto

lemma trim_back_snoc: "trim_back (bs @ [c]) = (if is_ows c then trim_back bs else bs @ [c])"
  by (simp add: trim_back.simps[of "bs @ [c]"])

lemma trim_back_Nil [simp]: "trim_back [] = []"
  by (simp add: trim_back.simps)

lemma trim_back_dropWhile: "trim_back bs = rev (dropWhile is_ows (rev bs))"
  by (induction bs rule: rev_induct) (auto simp: trim_back_snoc)

lemma trim_back_id: "bs = [] \<or> \<not> is_ows (last bs) \<Longrightarrow> trim_back bs = bs"
  by (auto simp: trim_back.simps[of bs])

lemma trim_ows_id: "bs = [] \<or> \<not> is_ows (hd bs) \<and> \<not> is_ows (last bs) \<Longrightarrow> trim_ows bs = bs"
  unfolding trim_ows_def by (cases bs) (auto intro: trim_back_id)

definition parse_chunk_size :: "bytes \<Rightarrow> (io_error, u64) result" where
  "parse_chunk_size line =
     (let size = trim_ows (hd (split_on (\<lambda>c. c = CHR '';'') line)) in
      if \<not> utf8_valid size then Inl (IoError InvalidData ''HTTP chunk size was not ASCII'')
      else case from_str_radix 16 u64_max size of
        None \<Rightarrow> Inl (IoError InvalidData ''HTTP chunk size was invalid'')
      | Some n \<Rightarrow> Inr (of_nat n))"

definition strip_line_crlf :: "bytes \<Rightarrow> (error, bytes) result" where
  "strip_line_crlf line =
     (let line' = (case strip_suffix [CR] line of Some l \<Rightarrow> l | None \<Rightarrow> line) in
      if CR \<in> set line'
      then Inl (response_error ''HTTP response header was not CRLF terminated'')
      else Inr line')"

lemma strip_line_crlf_Inr:
  "strip_line_crlf line = Inr l \<Longrightarrow> CR \<notin> set l \<and> (line = l \<or> line = l @ [CR])"
  by (auto simp: strip_line_crlf_def Let_def strip_suffix_Some split: option.splits if_splits)

lemma strip_line_crlf_with_CR: "CR \<notin> set l \<Longrightarrow> strip_line_crlf (l @ [CR]) = Inr l"
proof -
  assume "CR \<notin> set l"
  moreover have "strip_suffix [CR] (l @ [CR]) = Some l" by (simp add: strip_suffix_Some)
  ultimately show ?thesis by (simp add: strip_line_crlf_def)
qed

lemma strip_line_crlf_plain:
  assumes "CR \<notin> set l" shows "strip_line_crlf l = Inr l"
proof -
  have "strip_suffix [CR] l = None"
    using assms by (cases "strip_suffix [CR] l") (auto simp: strip_suffix_Some)
  then show ?thesis using assms by (simp add: strip_line_crlf_def)
qed

section \<open>Response heads\<close>

fun parse_header_line ::
  "field_ops \<Rightarrow> bytes \<Rightarrow> (error, header_name \<times> header_value) result" where
  "parse_header_line F line0 =
     (case strip_line_crlf line0 of
        Inl e \<Rightarrow> Inl e
      | Inr line \<Rightarrow>
          if line = [] then Inl (response_error ''unexpected empty line in HTTP response headers'')
          else case position (\<lambda>c. c = CHR '':'') line of
            None \<Rightarrow> Inl (response_error ''malformed HTTP response header'')
          | Some separator \<Rightarrow>
              (case header_name_from_bytes F (take separator line) of
                 None \<Rightarrow> Inl (response_error ''HTTP response header name was invalid'')
               | Some name \<Rightarrow>
                   (case header_value_from_bytes F (trim_ows (drop (separator + 1) line)) of
                      None \<Rightarrow> Inl (response_error ''HTTP response header value was invalid'')
                    | Some v \<Rightarrow> Inr (name, v))))"

fun parse_header_lines ::
  "'h header_ops \<Rightarrow> field_ops \<Rightarrow> 'h \<Rightarrow> bytes list \<Rightarrow> (error, 'h) result" where
  "parse_header_lines H F headers [] = Inr headers"
| "parse_header_lines H F headers (line # lines) =
     (case parse_header_line F line of
        Inl e \<Rightarrow> Inl e
      | Inr (name, v) \<Rightarrow> parse_header_lines H F (hm_append H headers name v) lines)"

definition parse_status_line ::
  "field_ops \<Rightarrow> bytes \<Rightarrow> (error, status_code \<times> http_version) result" where
  "parse_status_line F line0 =
     (case strip_line_crlf line0 of
        Inl e \<Rightarrow> Inl e
      | Inr status_line \<Rightarrow>
          if \<not> utf8_valid status_line
          then Inl (response_error ''HTTP response status line was not ASCII'')
          else
            (let fields = splitn 3 (\<lambda>c. c = SP) status_line;
                 code = (case tl fields of
                    [] \<Rightarrow> Inl (response_error ''HTTP response omitted its status code'')
                  | f # _ \<Rightarrow>
                      (case Option.bind (map_option of_nat (from_str_radix 10 u16_max f))
                              (status_from_u16 F) of
                         None \<Rightarrow> Inl (response_error ''HTTP response supplied an invalid status code'')
                       | Some c \<Rightarrow> Inr c))
             in if hd fields = ''HTTP/1.0'' then map_sum id (\<lambda>c. (c, HTTP_10)) code
                else if hd fields = ''HTTP/1.1'' then map_sum id (\<lambda>c. (c, HTTP_11)) code
                else Inl (response_error ''response did not use HTTP/1.x'')))"

definition parse_response_head ::
  "'h header_ops \<Rightarrow> field_ops \<Rightarrow> bytes \<Rightarrow> (error, status_code \<times> http_version \<times> 'h) result" where
  "parse_response_head H F head =
     (let lines = split_on (\<lambda>c. c = LF) head in
      case parse_status_line F (hd lines) of
        Inl e \<Rightarrow> Inl e
      | Inr (status, version) \<Rightarrow>
          (case parse_header_lines H F (hm_new H) (tl lines) of
             Inl e \<Rightarrow> Inl e
           | Inr headers \<Rightarrow> Inr (status, version, headers)))"

section \<open>Body framing\<close>

datatype body_mode =
    BodyEmpty
  | BodyContentLength u64
  | BodyChunked (chunk_remaining: u64) (chunk_separator_due: bool) (chunk_complete: bool)
  | BodyEof

fun content_length_loop ::
  "u64 option \<Rightarrow> header_value list \<Rightarrow> (error, u64 option) result" where
  "content_length_loop cl [] = Inr cl"
| "content_length_loop cl (v # vs) =
     (if \<not> utf8_valid (trim_ows v) then Inl (response_error ''HTTP Content-Length was not ASCII'')
      else case from_str_radix 10 u64_max (trim_ows v) of
        None \<Rightarrow> Inl (response_error ''HTTP Content-Length was invalid'')
      | Some n \<Rightarrow>
          (case cl of
             Some previous \<Rightarrow>
               if previous \<noteq> of_nat n
               then Inl (response_error ''HTTP response has conflicting Content-Length values'')
               else content_length_loop (Some (of_nat n)) vs
           | None \<Rightarrow> content_length_loop (Some (of_nat n)) vs))"

definition transfer_codings :: "'h header_ops \<Rightarrow> 'h \<Rightarrow> bytes list" where
  "transfer_codings H headers =
     filter (\<lambda>v. v \<noteq> [])
       (map trim_ows
         (concat (map (split_on (\<lambda>c. c = CHR '','')) (hm_get_all H headers ''transfer-encoding''))))"

definition response_body_mode ::
  "'h header_ops \<Rightarrow> field_ops \<Rightarrow> 'h \<Rightarrow> status_code \<Rightarrow> bool \<Rightarrow> (error, body_mode) result" where
  "response_body_mode H F headers status head_request =
     (if head_request \<or> status_is_informational F status \<or> status = 204 \<or> status = 304
      then Inr BodyEmpty
      else
        (let codings = transfer_codings H headers in
         if codings \<noteq> [] then
           if hm_contains_key H headers ''content-length'' \<or> length codings \<noteq> 1
              \<or> \<not> eq_ignore_ascii_case (codings ! 0) ''chunked''
           then Inl (response_error ''HTTP response has unsupported or ambiguous transfer framing'')
           else Inr (BodyChunked 0 False False)
         else
           (case content_length_loop None (hm_get_all H headers ''content-length'') of
              Inl e \<Rightarrow> Inl e
            | Inr (Some n) \<Rightarrow> Inr (BodyContentLength n)
            | Inr None \<Rightarrow> Inr BodyEof)))"

end
