(* ===== verification/Byte_Source.thy ===== *)
theory Byte_Source
  imports H12_Prelude
begin

text \<open>
  The contract of a blocking byte stream, \<^verbatim>\<open>std::io::Read\<close>, as a locale, and the blocking
  client's connection type (\<^verbatim>\<open>Connection\<close> in \<^verbatim>\<open>h12tiny-client-sync\<close>) as an instance of it.

  A source has a ghost function \<open>pending\<close>, the bytes it still has to deliver before the end of
  the stream.  A read hands out a prefix of them no longer than the buffer, an empty prefix
  of a non-empty buffer means the end of the stream, and a failing read loses nothing.
  \<open>healthy\<close> singles out the states from which no read fails.
\<close>

locale byte_source =
  fixes read :: "'s \<Rightarrow> nat \<Rightarrow> (io_error, bytes) result \<times> 's"
    and pending :: "'s \<Rightarrow> bytes"
    and healthy :: "'s \<Rightarrow> bool"
  assumes read_ok: "read s n = (Inr bs, s') \<Longrightarrow> pending s = bs @ pending s' \<and> length bs \<le> n"
    and read_eof: "read s n = (Inr [], s') \<Longrightarrow> 0 < n \<Longrightarrow> pending s = []"
    and read_err: "read s n = (Inl e, s') \<Longrightarrow> pending s' = pending s"
    and read_healthy: "healthy s \<Longrightarrow> \<exists>bs s'. read s n = (Inr bs, s') \<and> healthy s'"
begin

lemma read_length: "read s n = (Inr bs, s') \<Longrightarrow> length (pending s') = length (pending s) - length bs"
  using read_ok by fastforce

lemma read_progress:
  "read s n = (Inr bs, s') \<Longrightarrow> 0 < n \<Longrightarrow> pending s \<noteq> [] \<Longrightarrow>
     bs \<noteq> [] \<and> length (pending s') < length (pending s)"
  using read_ok[of s n bs s'] read_eof[of s n s'] by auto

lemma healthy_readE:
  assumes "healthy s"
  obtains bs s' where "read s n = (Inr bs, s')" "healthy s'" "pending s = bs @ pending s'"
    "length bs \<le> n"
  using read_healthy[OF assms, of n] read_ok by blast

end

section \<open>TCP streams\<close>

text \<open>
  A TCP stream as its user sees it: the segments and failures the socket is going to report
  to its reader, in order, and then the end of the stream; what it is going to do with the
  coming writes, each of which it accepts up to some number of bytes or refuses, after which it
  accepts every write whole; and what the peer has been sent.  A segment is never empty.  The
  socket keeps the two timeouts it was configured with.
\<close>

datatype net_event = Segment byte bytes | NetFail io_error

datatype write_event = Accepts nat | Refuses io_error

record tcp_stream =
  incoming :: "net_event list"
  outgoing :: "write_event list"
  sent :: bytes
  tcp_read_timeout :: "duration option"
  tcp_write_timeout :: "duration option"

definition tcp_read :: "tcp_stream \<Rightarrow> nat \<Rightarrow> (io_error, bytes) result \<times> tcp_stream" where
  "tcp_read s n =
     (if n = 0 then (Inr [], s)
      else case incoming s of
        [] \<Rightarrow> (Inr [], s)
      | NetFail e # es \<Rightarrow> (Inl e, s\<lparr>incoming := es\<rparr>)
      | Segment b bs # es \<Rightarrow>
          (Inr (take n (b # bs)),
           s\<lparr>incoming := (case drop n (b # bs) of [] \<Rightarrow> es | c # cs \<Rightarrow> Segment c cs # es)\<rparr>))"

fun event_bytes :: "net_event \<Rightarrow> bytes" where
  "event_bytes (Segment b bs) = b # bs"
| "event_bytes (NetFail e) = []"

definition tcp_pending :: "tcp_stream \<Rightarrow> bytes" where
  "tcp_pending s = concat (map event_bytes (incoming s))"

fun is_segment :: "net_event \<Rightarrow> bool" where
  "is_segment (Segment b bs) = True"
| "is_segment (NetFail e) = False"

definition tcp_healthy :: "tcp_stream \<Rightarrow> bool" where
  "tcp_healthy s \<longleftrightarrow> list_all is_segment (incoming s)"

text \<open>\<^verbatim>\<open>TcpStream::set_read_timeout\<close> and \<^verbatim>\<open>set_write_timeout\<close> reject a zero duration.\<close>

definition zero_timeout :: io_error where
  "zero_timeout = IoError InvalidInput ''cannot set a 0 duration timeout''"

definition tcp_set_read_timeout :: "tcp_stream \<Rightarrow> duration option \<Rightarrow> (io_error, unit) result \<times> tcp_stream" where
  "tcp_set_read_timeout s t =
     (if t = Some 0 then (Inl zero_timeout, s) else (Inr (), s\<lparr>tcp_read_timeout := t\<rparr>))"

definition tcp_set_write_timeout :: "tcp_stream \<Rightarrow> duration option \<Rightarrow> (io_error, unit) result \<times> tcp_stream" where
  "tcp_set_write_timeout s t =
     (if t = Some 0 then (Inl zero_timeout, s) else (Inr (), s\<lparr>tcp_write_timeout := t\<rparr>))"

interpretation tcp: byte_source tcp_read tcp_pending tcp_healthy
proof
  fix s s' :: tcp_stream and n bs e
  show "tcp_read s n = (Inr bs, s') \<Longrightarrow> tcp_pending s = bs @ tcp_pending s' \<and> length bs \<le> n"
    by (auto simp: tcp_read_def tcp_pending_def split: if_splits list.splits net_event.splits)
      (metis append_Cons append_take_drop_id append_Nil2 append_assoc)+
  show "tcp_read s n = (Inr [], s') \<Longrightarrow> 0 < n \<Longrightarrow> tcp_pending s = []"
    by (auto simp: tcp_read_def tcp_pending_def split: if_splits list.splits net_event.splits)
  show "tcp_read s n = (Inl e, s') \<Longrightarrow> tcp_pending s' = tcp_pending s"
    by (auto simp: tcp_read_def tcp_pending_def split: if_splits list.splits net_event.splits)
  show "tcp_healthy s \<Longrightarrow> \<exists>bs s'. tcp_read s n = (Inr bs, s') \<and> tcp_healthy s'"
    by (auto simp: tcp_read_def tcp_healthy_def split: if_splits list.splits net_event.splits)
qed

end
