(* ===== verification/Sync_Connection.thy ===== *)
theory Sync_Connection
  imports Byte_Source
begin

text \<open>
  The \<^verbatim>\<open>Connection\<close> of the blocking client (\<^verbatim>\<open>src/crates/h12tiny-client-sync/src/lib.rs\<close>): a
  TCP stream, or a TLS session over one.  The TLS session itself is third-party code and a
  parameter: \<open>tls_ops\<close> holds the reads and writes of \<^verbatim>\<open>rustls::StreamOwned\<close>, over an opaque
  session state and the socket it owns.  Whatever contract the TLS stream keeps, the
  connection keeps too (\<open>conn_byte_source\<close>).
\<close>

record 't tls_ops =
  tls_stream_read :: "'t \<times> tcp_stream \<Rightarrow> nat \<Rightarrow> (io_error, bytes) result \<times> ('t \<times> tcp_stream)"
  tls_stream_write :: "'t \<times> tcp_stream \<Rightarrow> bytes \<Rightarrow> (io_error, nat) result \<times> ('t \<times> tcp_stream)"
  tls_stream_flush :: "'t \<times> tcp_stream \<Rightarrow> (io_error, unit) result \<times> ('t \<times> tcp_stream)"

datatype 't connection = Tcp tcp_stream | Tls "'t \<times> tcp_stream"

text \<open>
  \<^verbatim>\<open>TcpStream::write\<close> may accept a part of its argument only, and may fail; \<^verbatim>\<open>flush\<close> does nothing.
\<close>

definition tcp_write :: "tcp_stream \<Rightarrow> bytes \<Rightarrow> (io_error, nat) result \<times> tcp_stream" where
  "tcp_write s bs =
     (if bs = [] then (Inr 0, s)
      else case outgoing s of
        [] \<Rightarrow> (Inr (length bs), s\<lparr>sent := sent s @ bs\<rparr>)
      | Refuses e # es \<Rightarrow> (Inl e, s\<lparr>outgoing := es\<rparr>)
      | Accepts k # es \<Rightarrow> (Inr (min k (length bs)), s\<lparr>outgoing := es, sent := sent s @ take k bs\<rparr>))"

definition tcp_flush :: "tcp_stream \<Rightarrow> (io_error, unit) result \<times> tcp_stream" where
  "tcp_flush s = (Inr (), s)"

definition tcp_set_both ::
  "tcp_stream \<Rightarrow> duration option \<Rightarrow> duration option \<Rightarrow> (io_error, unit) result \<times> tcp_stream" where
  "tcp_set_both s r w =
     (case tcp_set_read_timeout s r of
        (Inl e, s') \<Rightarrow> (Inl e, s')
      | (Inr _, s') \<Rightarrow> tcp_set_write_timeout s' w)"

fun set_timeouts ::
  "'t connection \<Rightarrow> duration option \<Rightarrow> duration option \<Rightarrow> (io_error, unit) result \<times> 't connection" where
  "set_timeouts (Tcp s) r w = apsnd Tcp (tcp_set_both s r w)"
| "set_timeouts (Tls (t, s)) r w = apsnd (\<lambda>s'. Tls (t, s')) (tcp_set_both s r w)"

fun conn_set_read_timeout ::
  "'t connection \<Rightarrow> duration option \<Rightarrow> (io_error, unit) result \<times> 't connection" where
  "conn_set_read_timeout (Tcp s) t = apsnd Tcp (tcp_set_read_timeout s t)"
| "conn_set_read_timeout (Tls (x, s)) t = apsnd (\<lambda>s'. Tls (x, s')) (tcp_set_read_timeout s t)"

fun conn_read ::
  "'t tls_ops \<Rightarrow> 't connection \<Rightarrow> nat \<Rightarrow> (io_error, bytes) result \<times> 't connection" where
  "conn_read T (Tcp s) n = apsnd Tcp (tcp_read s n)"
| "conn_read T (Tls s) n = apsnd Tls (tls_stream_read T s n)"

fun conn_write ::
  "'t tls_ops \<Rightarrow> 't connection \<Rightarrow> bytes \<Rightarrow> (io_error, nat) result \<times> 't connection" where
  "conn_write T (Tcp s) bs = apsnd Tcp (tcp_write s bs)"
| "conn_write T (Tls s) bs = apsnd Tls (tls_stream_write T s bs)"

fun conn_flush :: "'t tls_ops \<Rightarrow> 't connection \<Rightarrow> (io_error, unit) result \<times> 't connection" where
  "conn_flush T (Tcp s) = apsnd Tcp (tcp_flush s)"
| "conn_flush T (Tls s) = apsnd Tls (tls_stream_flush T s)"

fun conn_pending :: "('t \<times> tcp_stream \<Rightarrow> bytes) \<Rightarrow> 't connection \<Rightarrow> bytes" where
  "conn_pending tp (Tcp s) = tcp_pending s"
| "conn_pending tp (Tls s) = tp s"

fun conn_healthy :: "('t \<times> tcp_stream \<Rightarrow> bool) \<Rightarrow> 't connection \<Rightarrow> bool" where
  "conn_healthy th (Tcp s) = tcp_healthy s"
| "conn_healthy th (Tls s) = th s"

lemma apsnd_eq_pair: "apsnd f p = (a, b) \<longleftrightarrow> (\<exists>c. p = (a, c) \<and> b = f c)"
  by (cases p) auto

lemma conn_byte_source:
  fixes T :: "'t tls_ops"
  assumes "byte_source (tls_stream_read T) tp th"
  shows "byte_source (conn_read T) (conn_pending tp) (conn_healthy th)"
proof
  fix s s' :: "'t connection" and n bs e
  note tls_ok = byte_source.read_ok[OF assms] and tls_eof = byte_source.read_eof[OF assms]
    and tls_err = byte_source.read_err[OF assms] and tls_healthy = byte_source.read_healthy[OF assms]
  show "conn_read T s n = (Inr bs, s') \<Longrightarrow>
          conn_pending tp s = bs @ conn_pending tp s' \<and> length bs \<le> n"
    by (cases s) (auto simp: apsnd_eq_pair dest: tcp.read_ok tls_ok)
  show "conn_read T s n = (Inr [], s') \<Longrightarrow> 0 < n \<Longrightarrow> conn_pending tp s = []"
    by (cases s) (auto simp: apsnd_eq_pair dest: tcp.read_eof tls_eof)
  show "conn_read T s n = (Inl e, s') \<Longrightarrow> conn_pending tp s' = conn_pending tp s"
    by (cases s) (auto simp: apsnd_eq_pair dest: tcp.read_err tls_err)
  show "conn_healthy th s \<Longrightarrow> \<exists>bs s'. conn_read T s n = (Inr bs, s') \<and> conn_healthy th s'"
  proof (cases s)
    case (Tcp x)
    assume "conn_healthy th s"
    then show ?thesis using Tcp tcp.read_healthy[of x n] by auto
  next
    case (Tls x)
    assume "conn_healthy th s"
    then show ?thesis using Tls tls_healthy[of x n] by auto
  qed
qed

text \<open>A TLS stand-in that passes bytes through unchanged, for witnesses.\<close>

definition plain_tls :: "unit tls_ops" where
  "plain_tls =
     \<lparr>tls_stream_read = (\<lambda>(t, s) n. apsnd (Pair t) (tcp_read s n)),
      tls_stream_write = (\<lambda>(t, s) bs. apsnd (Pair t) (tcp_write s bs)),
      tls_stream_flush = (\<lambda>(t, s). (Inr (), (t, s)))\<rparr>"

lemma plain_tls_byte_source:
  "byte_source (tls_stream_read plain_tls) (tcp_pending \<circ> snd) (tcp_healthy \<circ> snd)"
proof
  fix s s' :: "unit \<times> tcp_stream" and n bs e
  show "tls_stream_read plain_tls s n = (Inr bs, s') \<Longrightarrow>
          (tcp_pending \<circ> snd) s = bs @ (tcp_pending \<circ> snd) s' \<and> length bs \<le> n"
    by (cases s) (auto simp: plain_tls_def apsnd_eq_pair dest: tcp.read_ok)
  show "tls_stream_read plain_tls s n = (Inr [], s') \<Longrightarrow> 0 < n \<Longrightarrow> (tcp_pending \<circ> snd) s = []"
    by (cases s) (auto simp: plain_tls_def apsnd_eq_pair dest: tcp.read_eof)
  show "tls_stream_read plain_tls s n = (Inl e, s') \<Longrightarrow>
          (tcp_pending \<circ> snd) s' = (tcp_pending \<circ> snd) s"
    by (cases s) (auto simp: plain_tls_def apsnd_eq_pair dest: tcp.read_err)
  show "(tcp_healthy \<circ> snd) s \<Longrightarrow>
          \<exists>bs s'. tls_stream_read plain_tls s n = (Inr bs, s') \<and> (tcp_healthy \<circ> snd) s'"
    using tcp.read_healthy[of "snd s" n] by (cases s) (auto simp: plain_tls_def)
qed

section \<open>The contract of a byte sink\<close>

text \<open>
  \<^verbatim>\<open>std::io::Write\<close> as a locale: \<open>written\<close> is what the peer is going to receive, a write appends
  a prefix of its argument, and a failing write appends nothing.  \<open>willing\<close> singles out the
  states from which no write fails or stalls.
\<close>

locale byte_sink =
  fixes put :: "'s \<Rightarrow> bytes \<Rightarrow> (io_error, nat) result \<times> 's"
    and written :: "'s \<Rightarrow> bytes"
    and willing :: "'s \<Rightarrow> bool"
  assumes write_ok: "put s bs = (Inr n, s') \<Longrightarrow> n \<le> length bs \<and> written s' = written s @ take n bs"
    and write_err: "put s bs = (Inl e, s') \<Longrightarrow> written s' = written s"
    and write_willing: "willing s \<Longrightarrow> bs \<noteq> [] \<Longrightarrow> \<exists>n s'. put s bs = (Inr n, s') \<and> 0 < n \<and> willing s'"

fun accepts_some :: "write_event \<Rightarrow> bool" where
  "accepts_some (Accepts k) \<longleftrightarrow> 0 < k"
| "accepts_some (Refuses e) \<longleftrightarrow> False"

definition tcp_willing :: "tcp_stream \<Rightarrow> bool" where
  "tcp_willing s \<longleftrightarrow> list_all accepts_some (outgoing s)"

lemmas tcp_write_split = if_splits list.splits write_event.splits

interpretation tcpw: byte_sink tcp_write sent tcp_willing
proof
  fix s s' :: tcp_stream and n bs e
  show "tcp_write s bs = (Inr n, s') \<Longrightarrow> n \<le> length bs \<and> sent s' = sent s @ take n bs"
    by (auto simp: tcp_write_def min_def split: tcp_write_split)
  show "tcp_write s bs = (Inl e, s') \<Longrightarrow> sent s' = sent s"
    by (auto simp: tcp_write_def split: tcp_write_split)
  show "tcp_willing s \<Longrightarrow> bs \<noteq> [] \<Longrightarrow> \<exists>n s'. tcp_write s bs = (Inr n, s') \<and> 0 < n \<and> tcp_willing s'"
    by (auto simp: tcp_write_def tcp_willing_def split: list.split write_event.split)
qed

fun conn_written :: "('t \<times> tcp_stream \<Rightarrow> bytes) \<Rightarrow> 't connection \<Rightarrow> bytes" where
  "conn_written tw (Tcp s) = sent s"
| "conn_written tw (Tls s) = tw s"

fun conn_willing :: "('t \<times> tcp_stream \<Rightarrow> bool) \<Rightarrow> 't connection \<Rightarrow> bool" where
  "conn_willing tg (Tcp s) = tcp_willing s"
| "conn_willing tg (Tls s) = tg s"

lemma conn_byte_sink:
  fixes T :: "'t tls_ops"
  assumes "byte_sink (tls_stream_write T) tw tg"
  shows "byte_sink (conn_write T) (conn_written tw) (conn_willing tg)"
proof
  fix s s' :: "'t connection" and n bs e
  show "conn_write T s bs = (Inr n, s') \<Longrightarrow>
          n \<le> length bs \<and> conn_written tw s' = conn_written tw s @ take n bs"
    using byte_sink.write_ok[OF assms] tcpw.write_ok by (cases s) (auto simp: apsnd_eq_pair)
  show "conn_write T s bs = (Inl e, s') \<Longrightarrow> conn_written tw s' = conn_written tw s"
    using byte_sink.write_err[OF assms] tcpw.write_err by (cases s) (auto simp: apsnd_eq_pair)
  show "conn_willing tg s \<Longrightarrow> bs \<noteq> [] \<Longrightarrow>
          \<exists>n s'. conn_write T s bs = (Inr n, s') \<and> 0 < n \<and> conn_willing tg s'"
    using byte_sink.write_willing[OF assms, of _ bs] tcpw.write_willing[where bs = bs]
    by (cases s) (fastforce simp: apsnd_eq_pair)+
qed

lemma plain_tls_byte_sink: "byte_sink (tls_stream_write plain_tls) (sent \<circ> snd) (tcp_willing \<circ> snd)"
proof
  fix s s' :: "unit \<times> tcp_stream" and n bs e
  show "tls_stream_write plain_tls s bs = (Inr n, s') \<Longrightarrow>
          n \<le> length bs \<and> (sent \<circ> snd) s' = (sent \<circ> snd) s @ take n bs"
    using tcpw.write_ok by (cases s) (auto simp: plain_tls_def apsnd_eq_pair)
  show "tls_stream_write plain_tls s bs = (Inl e, s') \<Longrightarrow> (sent \<circ> snd) s' = (sent \<circ> snd) s"
    using tcpw.write_err by (cases s) (auto simp: plain_tls_def apsnd_eq_pair)
  show "(tcp_willing \<circ> snd) s \<Longrightarrow> bs \<noteq> [] \<Longrightarrow>
          \<exists>n s'. tls_stream_write plain_tls s bs = (Inr n, s') \<and> 0 < n \<and> (tcp_willing \<circ> snd) s'"
    using tcpw.write_willing[of "snd s" bs] by (cases s) (auto simp: plain_tls_def)
qed

end
