(* ===== verification/Sync_Body.thy ===== *)
theory Sync_Body
  imports Sync_Wire Sync_Connection
begin

text \<open>
  The blocking response body (\<^verbatim>\<open>ResponseBody\<close> in \<^verbatim>\<open>src/crates/h12tiny-client-sync/src/lib.rs\<close>):
  a connection, the bytes already read from it, and the framing state.  Every operation takes
  the \<^verbatim>\<open>read\<close> of the connection as its first argument; the crate's own connection supplies
  \<open>conn_read\<close>.  All loops terminate for every connection, because each round either fails,
  ends, or grows a bounded buffer.
\<close>

section \<open>Model\<close>

definition MAX_RESPONSE_HEAD_BYTES :: nat where
  "MAX_RESPONSE_HEAD_BYTES = 64 * 1024"

definition MAX_CHUNK_LINE_BYTES :: nat where
  "MAX_CHUNK_LINE_BYTES = 8 * 1024"

definition MAX_TRAILER_BYTES :: nat where
  "MAX_TRAILER_BYTES = 64 * 1024"

type_synonym 'c reader = "'c \<Rightarrow> nat \<Rightarrow> (io_error, bytes) result \<times> 'c"

record 'c response_body =
  body_connection :: 'c
  buffered :: bytes
  mode :: body_mode

fun mode_complete :: "body_mode \<Rightarrow> bool" where
  "mode_complete BodyEmpty = True"
| "mode_complete (BodyContentLength n) = (n = 0)"
| "mode_complete (BodyChunked r s c) = c"
| "mode_complete BodyEof = False"

definition is_complete :: "'c response_body \<Rightarrow> bool" where
  "is_complete b = mode_complete (mode b)"

definition set_read_timeout ::
  "('c \<Rightarrow> duration option \<Rightarrow> (io_error, unit) result \<times> 'c)
     \<Rightarrow> 'c response_body \<Rightarrow> duration option \<Rightarrow> (io_error, unit) result \<times> 'c response_body" where
  "set_read_timeout st b t =
     (if is_complete b \<or> buffered b \<noteq> [] then (Inr (), b)
      else case st (body_connection b) t of (r, c) \<Rightarrow> (r, b\<lparr>body_connection := c\<rparr>))"

definition read_buffered ::
  "'c reader \<Rightarrow> 'c response_body \<Rightarrow> nat \<Rightarrow> (io_error, bytes) result \<times> 'c response_body" where
  "read_buffered rd b n =
     (if buffered b \<noteq> [] then
        (let count = min n (length (buffered b)) in
         (Inr (take count (buffered b)), b\<lparr>buffered := drop count (buffered b)\<rparr>))
      else case rd (body_connection b) n of (r, c) \<Rightarrow> (r, b\<lparr>body_connection := c\<rparr>))"

definition eof_error :: "string \<Rightarrow> io_error" where
  "eof_error msg = IoError UnexpectedEof msg"

definition invalid_data :: "string \<Rightarrow> io_error" where
  "invalid_data msg = IoError InvalidData msg"

function read_exact_loop ::
  "'c reader \<Rightarrow> nat \<Rightarrow> bytes \<Rightarrow> 'c response_body \<Rightarrow> (io_error, bytes) result \<times> 'c response_body" where
  "read_exact_loop rd n output b =
     (if length output < n then
        (case read_buffered rd b (n - length output) of
           (Inl e, b') \<Rightarrow> (Inl e, b')
         | (Inr bs, b') \<Rightarrow>
             if bs = []
             then (Inl (eof_error ''HTTP response ended before its declared body framing completed''), b')
             else read_exact_loop rd n (output @ bs) b')
      else (Inr output, b))"
  by pat_completeness auto
termination
  by (relation "measure (\<lambda>(rd, n, output, b). n - length output)")
    (auto simp: neq_Nil_conv)

declare read_exact_loop.simps [simp del]

definition read_exact_buffered ::
  "'c reader \<Rightarrow> 'c response_body \<Rightarrow> nat \<Rightarrow> (io_error, bytes) result \<times> 'c response_body" where
  "read_exact_buffered rd b n = read_exact_loop rd n [] b"

function read_line ::
  "'c reader \<Rightarrow> nat \<Rightarrow> 'c response_body \<Rightarrow> (io_error, bytes) result \<times> 'c response_body" where
  "read_line rd max_len b =
     (case find_crlf (buffered b) of
        Some e \<Rightarrow> (Inr (take e (buffered b)), b\<lparr>buffered := drop 2 (drop e (buffered b))\<rparr>)
      | None \<Rightarrow>
          if length (buffered b) \<ge> max_len
          then (Inl (invalid_data ''HTTP chunk line exceeds the configured limit''), b)
          else
            (case rd (body_connection b) 4096 of
               (Inl e, c) \<Rightarrow> (Inl e, b\<lparr>body_connection := c\<rparr>)
             | (Inr bs, c) \<Rightarrow>
                 if bs = []
                 then (Inl (eof_error ''HTTP response ended in a chunk line''),
                       b\<lparr>body_connection := c\<rparr>)
                 else read_line rd max_len
                        (b\<lparr>body_connection := c, buffered := buffered b @ bs\<rparr>)))"
  by pat_completeness auto
termination
  by (relation "measure (\<lambda>(rd, max_len, b). max_len - length (buffered b))")
    (auto simp: neq_Nil_conv)

declare read_line.simps [simp del]

function consume_trailers_loop ::
  "'c reader \<Rightarrow> nat \<Rightarrow> 'c response_body \<Rightarrow> (io_error, unit) result \<times> 'c response_body" where
  "consume_trailers_loop rd tot b =
     (case read_line rd MAX_CHUNK_LINE_BYTES b of
        (Inl e, b') \<Rightarrow> (Inl e, b')
      | (Inr line, b') \<Rightarrow>
          (let tot' = saturating_add tot (length line + 2) in
           if tot' > MAX_TRAILER_BYTES
           then (Inl (invalid_data ''HTTP response trailers exceed the configured limit''), b')
           else if line = [] then (Inr (), b')
           else if CHR '':'' \<notin> set line
           then (Inl (invalid_data ''malformed HTTP response trailer''), b')
           else consume_trailers_loop rd tot' b'))"
  by pat_completeness auto
termination
  by (relation "measure (\<lambda>(rd, tot, b). MAX_TRAILER_BYTES - tot)")
    (auto simp: saturating_add_def MAX_TRAILER_BYTES_def usize_max_def)

declare consume_trailers_loop.simps [simp del]

definition consume_trailers ::
  "'c reader \<Rightarrow> 'c response_body \<Rightarrow> (io_error, unit) result \<times> 'c response_body" where
  "consume_trailers rd b = consume_trailers_loop rd 0 b"

text \<open>
  The part of \<^verbatim>\<open>read_chunked\<close> that runs between chunks: the separator of the previous chunk if
  it is due, then the next size line.
\<close>

definition read_chunk_header ::
  "'c reader \<Rightarrow> bool \<Rightarrow> 'c response_body \<Rightarrow> (io_error, u64) result \<times> 'c response_body" where
  "read_chunk_header rd due b =
     (case (if due then read_exact_buffered rd b 2 else (Inr crlf, b)) of
        (Inl e, b1) \<Rightarrow> (Inl e, b1)
      | (Inr separator, b1) \<Rightarrow>
          if separator \<noteq> crlf
          then (Inl (invalid_data ''HTTP chunk data was not followed by CRLF''), b1)
          else (case read_line rd MAX_CHUNK_LINE_BYTES b1 of
                  (Inl e, b2) \<Rightarrow> (Inl e, b2)
                | (Inr line, b2) \<Rightarrow> (parse_chunk_size line, b2)))"

definition read_chunk_data ::
  "'c reader \<Rightarrow> u64 \<Rightarrow> 'c response_body \<Rightarrow> nat \<Rightarrow> (io_error, bytes) result \<times> 'c response_body" where
  "read_chunk_data rd remaining b n =
     (let wanted = min n (min (unat remaining) usize_max) in
      case read_buffered rd b wanted of
        (Inl e, b') \<Rightarrow> (Inl e, b')
      | (Inr bs, b') \<Rightarrow>
          if bs = [] then (Inl (eof_error ''HTTP response ended in a chunk''), b')
          else (Inr bs,
                b'\<lparr>mode := BodyChunked (remaining - of_nat (length bs))
                                        (remaining = of_nat (length bs)) False\<rparr>))"

text \<open>
  \<^verbatim>\<open>read_chunked\<close> is private to the body and called by its \<^verbatim>\<open>read\<close> in chunked mode only, and its
  loop stays in that mode.  The last branch stands for its \<^verbatim>\<open>unreachable!\<close>; no read gets there.
\<close>

function read_chunked ::
  "'c reader \<Rightarrow> 'c response_body \<Rightarrow> nat \<Rightarrow> (io_error, bytes) result \<times> 'c response_body" where
  "read_chunked rd b n =
     (case mode b of
        BodyChunked remaining separator_due complete \<Rightarrow>
          if complete then (Inr [], b)
          else if remaining = 0 then
            (case read_chunk_header rd separator_due b of
               (Inl e, b') \<Rightarrow> (Inl e, b')
             | (Inr sz, b') \<Rightarrow>
                 if sz = 0 then
                   (case consume_trailers rd b' of
                      (Inl e, b'') \<Rightarrow> (Inl e, b'')
                    | (Inr _, b'') \<Rightarrow> (Inr [], b''\<lparr>mode := BodyChunked 0 False True\<rparr>))
                 else read_chunked rd (b'\<lparr>mode := BodyChunked sz False False\<rparr>) n)
          else read_chunk_data rd remaining b n
      | _ \<Rightarrow> (Inl (IoError OtherIo ''chunked reader requires chunked body state''), b))"
  by pat_completeness auto
termination
  by (relation "measure (\<lambda>(rd, b, n). case mode b of BodyChunked r s c \<Rightarrow> (if r = 0 then 1 else 0) | _ \<Rightarrow> 0)")
    (auto split: if_splits)

declare read_chunked.simps [simp del]

definition body_read ::
  "'c reader \<Rightarrow> 'c response_body \<Rightarrow> nat \<Rightarrow> (io_error, bytes) result \<times> 'c response_body" where
  "body_read rd b n =
     (if n = 0 then (Inr [], b)
      else case mode b of
        BodyEmpty \<Rightarrow> (Inr [], b)
      | BodyEof \<Rightarrow> read_buffered rd b n
      | BodyContentLength remaining \<Rightarrow>
          if remaining = 0 then (Inr [], b)
          else
            (let wanted = min n (min (unat remaining) usize_max) in
             case read_buffered rd b wanted of
               (Inl e, b') \<Rightarrow> (Inl e, b')
             | (Inr bs, b') \<Rightarrow>
                 if bs = []
                 then (Inl (eof_error ''HTTP response ended before its Content-Length''), b')
                 else (Inr bs, b'\<lparr>mode := BodyContentLength (remaining - of_nat (length bs))\<rparr>))
      | BodyChunked r s c \<Rightarrow> read_chunked rd b n)"


section \<open>The buffered reader is a byte source\<close>

definition body_pending :: "('c \<Rightarrow> bytes) \<Rightarrow> 'c response_body \<Rightarrow> bytes" where
  "body_pending pending b = buffered b @ pending (body_connection b)"

definition body_healthy :: "('c \<Rightarrow> bool) \<Rightarrow> 'c response_body \<Rightarrow> bool" where
  "body_healthy healthy b = healthy (body_connection b)"

lemma body_pending_mode [simp]: "body_pending p (b\<lparr>mode := m\<rparr>) = body_pending p b"
  by (simp add: body_pending_def)

lemma body_healthy_mode [simp]: "body_healthy h (b\<lparr>mode := m\<rparr>) = body_healthy h b"
  by (simp add: body_healthy_def)

locale response_source = byte_source read pending healthy
  for read :: "'c reader" and pending :: "'c \<Rightarrow> bytes" and healthy :: "'c \<Rightarrow> bool"

sublocale response_source \<subseteq>
  buf: byte_source "read_buffered read" "body_pending pending" "body_healthy healthy"
proof
  fix b n bs b'
  assume eq: "read_buffered read b n = (Inr bs, b')"
  show "body_pending pending b = bs @ body_pending pending b' \<and> length bs \<le> n"
    using eq read_ok[of "body_connection b" n bs]
    by (auto simp: read_buffered_def body_pending_def Let_def min_def
        split: if_splits prod.splits)
next
  fix b n b'
  assume "read_buffered read b n = (Inr [], b')" "0 < n"
  then show "body_pending pending b = []"
    using read_eof[of "body_connection b" n]
    by (auto simp: read_buffered_def body_pending_def Let_def min_def split: if_splits prod.splits)
next
  fix b n e b'
  assume "read_buffered read b n = (Inl e, b')"
  then show "body_pending pending b' = body_pending pending b"
    using read_err[of "body_connection b" n e]
    by (auto simp: read_buffered_def body_pending_def Let_def split: if_splits prod.splits)
next
  fix b n
  assume "body_healthy healthy b"
  then show "\<exists>bs b'. read_buffered read b n = (Inr bs, b') \<and> body_healthy healthy b'"
    using read_healthy[of "body_connection b" n]
    by (auto simp: read_buffered_def body_healthy_def Let_def split: prod.splits)
qed

interpretation tcp_body: response_source tcp_read tcp_pending tcp_healthy
  by unfold_locales

lemma read_buffered_mode: "read_buffered rd b n = (r, b') \<Longrightarrow> mode b' = mode b"
  by (auto simp: read_buffered_def Let_def split: if_splits prod.splits)

lemma read_exact_loop_mode: "read_exact_loop rd n out b = (r, b') \<Longrightarrow> mode b' = mode b"
proof (induction rd n out b rule: read_exact_loop.induct)
  case (1 rd n out b)
  from "1.prems" show ?case
    by (subst (asm) read_exact_loop.simps)
      (auto dest: read_buffered_mode split: if_splits prod.splits sum.splits,
        metis "1.IH" read_buffered_mode)
qed

lemma read_line_mode: "read_line rd mx b = (r, b') \<Longrightarrow> mode b' = mode b"
proof (induction rd mx b rule: read_line.induct)
  case (1 rd mx b)
  from "1.prems" show ?case
    by (subst (asm) read_line.simps)
      (auto dest: "1.IH" split: if_splits option.splits prod.splits sum.splits)
qed

lemma consume_trailers_loop_mode: "consume_trailers_loop rd tot b = (r, b') \<Longrightarrow> mode b' = mode b"
proof (induction rd tot b rule: consume_trailers_loop.induct)
  case (1 rd tot b)
  from "1.prems" show ?case
    by (subst (asm) consume_trailers_loop.simps)
      (auto dest: read_line_mode simp: Let_def split: if_splits prod.splits sum.splits,
        metis "1.IH" read_line_mode add_2_eq_Suc')
qed

section \<open>What one framing step consumes\<close>

text \<open>
  Over a byte source that does not fail, a line that is complete within the limit is read
  whole, wherever the segments of the stream happen to be cut, and nothing after its CRLF is
  consumed.
\<close>

lemma find_crlf_append:
  assumes "CR \<notin> set l" shows "find_crlf (l @ crlf @ rest) = Some (length l)"
  using assms unfolding find_crlf_def by (induction l) auto

context response_source
begin

lemma read_line_complete:
  assumes "body_healthy healthy b" "body_pending pending b = l @ crlf @ rest"
    and "find_crlf (l @ crlf @ rest) = Some (length l)" "length l + 2 \<le> mx"
  shows "\<exists>b'. read_line read mx b = (Inr l, b') \<and> body_healthy healthy b' \<and>
           body_pending pending b' = rest \<and> mode b' = mode b"
  using assms
proof (induction "mx - length (buffered b)" arbitrary: b rule: less_induct)
  case less
  show ?case
  proof (cases "find_crlf (buffered b)")
    case (Some e)
    obtain ys where e: "e = length l" and split: "buffered b = l @ crlf @ ys"
      "rest = ys @ pending (body_connection b)"
      by (rule windows_position_buffered[of crlf "buffered b" e "pending (body_connection b)" l rest])
        (use Some less.prems in \<open>auto simp: find_crlf_def body_pending_def\<close>)
    have "read_line read mx b = (Inr l, b\<lparr>buffered := ys\<rparr>)"
      using Some split(1) e by (subst read_line.simps) simp
    with less.prems split show ?thesis by (simp add: body_pending_def body_healthy_def)
  next
    case None
    obtain bs c where rd: "read (body_connection b) 4096 = (Inr bs, c)" "healthy c"
      "pending (body_connection b) = bs @ pending c"
      by (rule healthy_readE[OF less.prems(1)[unfolded body_healthy_def]])
    have short: "length (buffered b) < length l + 2"
      using None less.prems(2,3)
        windows_position_None_append[of crlf "buffered b" "pending (body_connection b)" "length l"]
      by (auto simp: find_crlf_def body_pending_def)
    have ne: "pending (body_connection b) \<noteq> []"
      using short less.prems(2) by (auto simp: body_pending_def dest: arg_cong[where f = length])
    then have bs: "bs \<noteq> []" using rd read_eof by fastforce
    let ?b = "b\<lparr>body_connection := c, buffered := buffered b @ bs\<rparr>"
    have "\<exists>b'. read_line read mx ?b = (Inr l, b') \<and> body_healthy healthy b' \<and>
           body_pending pending b' = rest \<and> mode b' = mode ?b"
      using less.prems rd short bs
      by (intro less.hyps) (auto simp: body_pending_def body_healthy_def neq_Nil_conv)
    with None short less.prems(4) rd bs show ?thesis
      by (subst read_line.simps) simp
  qed
qed

lemma read_exact_loop_complete:
  assumes "body_healthy healthy b" "body_pending pending b = xs @ rest" "length out + length xs = n"
  shows "\<exists>b'. read_exact_loop read n out b = (Inr (out @ xs), b') \<and> body_healthy healthy b' \<and>
           body_pending pending b' = rest \<and> mode b' = mode b"
  using assms
proof (induction "length xs" arbitrary: b xs out rule: less_induct)
  case less
  show ?case
  proof (cases "xs = []")
    case True
    with less.prems show ?thesis by (subst read_exact_loop.simps) simp
  next
    case False
    obtain bs b1 where rd: "read_buffered read b (n - length out) = (Inr bs, b1)"
      "body_healthy healthy b1" "body_pending pending b = bs @ body_pending pending b1"
      "length bs \<le> n - length out"
      using buf.healthy_readE[OF less.prems(1)] by metis
    have bs: "bs \<noteq> []" using rd buf.read_eof less.prems False by fastforce
    obtain ys where ys: "xs = bs @ ys" "body_pending pending b1 = ys @ rest"
      using rd less.prems by (auto simp: append_eq_append_conv2)
    have "\<exists>b'. read_exact_loop read n (out @ bs) b1 = (Inr ((out @ bs) @ ys), b') \<and>
            body_healthy healthy b' \<and> body_pending pending b' = rest \<and> mode b' = mode b1"
      using less.prems rd ys bs by (intro less.hyps) auto
    with rd bs ys less.prems False read_buffered_mode[OF rd(1)] show ?thesis
      by (subst read_exact_loop.simps) auto
  qed
qed

end

end
