(* ===== verification/Sync_Chunked.thy ===== *)
theory Sync_Chunked
  imports Sync_Body
begin

text \<open>
  Correctness of the body framing of \<^verbatim>\<open>ResponseBody::read\<close>.  \<open>chunk_frame\<close> relates a chunked
  decoder state and the bytes still on the wire to the payload that is still to be delivered;
  the decoder is shown to deliver exactly that payload, for every segmentation of the stream
  and every sequence of buffer sizes, and to stop exactly at the end of the message.
\<close>

section \<open>Well-formed chunked messages\<close>

definition chunk_line_ok :: "bytes \<Rightarrow> u64 \<Rightarrow> bool" where
  "chunk_line_ok l n \<longleftrightarrow>
     CR \<notin> set l \<and> length l + 2 \<le> MAX_CHUNK_LINE_BYTES \<and> parse_chunk_size l = Inr n"

definition trailer_ok :: "bytes \<Rightarrow> bool" where
  "trailer_ok t \<longleftrightarrow> CR \<notin> set t \<and> CHR '':'' \<in> set t \<and> length t + 2 \<le> MAX_CHUNK_LINE_BYTES"

text \<open>A chunk is its size line (the hexadecimal size and any extensions) and its data.\<close>

definition chunk_ok :: "bytes \<times> bytes \<Rightarrow> bool" where
  "chunk_ok c \<longleftrightarrow> snd c \<noteq> [] \<and> length (snd c) \<le> u64_max
     \<and> chunk_line_ok (fst c) (of_nat (length (snd c)))"

record chunked_message =
  chunks :: "(bytes \<times> bytes) list"
  last_line :: bytes
  trailers :: "bytes list"

definition trailers_size :: "bytes list \<Rightarrow> nat" where
  "trailers_size ts = sum_list (map (\<lambda>t. length t + 2) ts) + 2"

definition message_ok :: "chunked_message \<Rightarrow> bool" where
  "message_ok m \<longleftrightarrow> list_all chunk_ok (chunks m) \<and> chunk_line_ok (last_line m) 0
     \<and> list_all trailer_ok (trailers m) \<and> trailers_size (trailers m) \<le> MAX_TRAILER_BYTES"

definition encode_chunk :: "bytes \<times> bytes \<Rightarrow> bytes" where
  "encode_chunk c = fst c @ crlf @ snd c @ crlf"

definition encode_trailers :: "bytes list \<Rightarrow> bytes" where
  "encode_trailers ts = concat (map (\<lambda>t. t @ crlf) ts) @ crlf"

definition encode_message :: "chunked_message \<Rightarrow> bytes" where
  "encode_message m = concat (map encode_chunk (chunks m)) @ last_line m @ crlf
     @ encode_trailers (trailers m)"

definition payload :: "chunked_message \<Rightarrow> bytes" where
  "payload m = concat (map snd (chunks m))"

lemma encode_message_Cons:
  "chunks m = c # cs \<Longrightarrow> encode_message m = fst c @ crlf @ snd c @ crlf @ encode_message (m\<lparr>chunks := cs\<rparr>)"
  by (simp add: encode_message_def encode_chunk_def)

lemma payload_Cons: "chunks m = c # cs \<Longrightarrow> payload m = snd c @ payload (m\<lparr>chunks := cs\<rparr>)"
  by (simp add: payload_def)

text \<open>
  \<open>chunk_frame md wire data rest\<close>: in mode \<open>md\<close>, with \<open>wire\<close> still to be read, the payload
  still to be delivered is \<open>data\<close>, and \<open>rest\<close> follows the message.
\<close>

inductive chunk_frame :: "body_mode \<Rightarrow> bytes \<Rightarrow> bytes \<Rightarrow> bytes \<Rightarrow> bool" where
  start: "message_ok m \<Longrightarrow>
    chunk_frame (BodyChunked 0 False False) (encode_message m @ rest) (payload m) rest"
| separator: "message_ok m \<Longrightarrow>
    chunk_frame (BodyChunked 0 True False) (crlf @ encode_message m @ rest) (payload m) rest"
| inside: "message_ok m \<Longrightarrow> d \<noteq> [] \<Longrightarrow> length d \<le> u64_max \<Longrightarrow>
    chunk_frame (BodyChunked (of_nat (length d)) False False)
      (d @ crlf @ encode_message m @ rest) (d @ payload m) rest"
| finished: "chunk_frame (BodyChunked 0 False True) rest [] rest"

inductive_cases chunk_frameE: "chunk_frame md wire data rest"

lemma unat_length: "length d \<le> u64_max \<Longrightarrow> unat (of_nat (length d) :: u64) = length d"
  by (simp add: unat_of_nat u64_max_def take_bit_nat_eq_self)

lemma length_word_0: "length d \<le> u64_max \<Longrightarrow> (of_nat (length d) :: u64) = 0 \<longleftrightarrow> d = []"
  using unat_length[of d] unat_eq_0[of "of_nat (length d) :: u64"] by auto

section \<open>The decoder follows the relation\<close>

context response_source
begin

lemma consume_trailers_complete:
  assumes "body_healthy healthy b" "body_pending pending b = encode_trailers ts @ rest"
    and "list_all trailer_ok ts" "tot + trailers_size ts \<le> MAX_TRAILER_BYTES"
  shows "\<exists>b'. consume_trailers_loop read tot b = (Inr (), b') \<and> body_healthy healthy b' \<and>
           body_pending pending b' = rest \<and> mode b' = mode b"
  using assms
proof (induction ts arbitrary: b tot)
  case Nil
  obtain b' where b': "read_line read MAX_CHUNK_LINE_BYTES b = (Inr [], b')" "body_healthy healthy b'"
    "body_pending pending b' = rest" "mode b' = mode b"
    using read_line_complete[of b "[]" rest MAX_CHUNK_LINE_BYTES] Nil.prems
    by (auto simp: encode_trailers_def MAX_CHUNK_LINE_BYTES_def find_crlf_def)
  have "saturating_add tot 2 \<le> MAX_TRAILER_BYTES"
    using Nil.prems(4) saturating_add_le[of tot 2] by (simp add: trailers_size_def)
  with b' show ?case by (subst consume_trailers_loop.simps) (simp add: Let_def numeral_2_eq_2)
next
  case (Cons t ts)
  have t: "CR \<notin> set t" "CHR '':'' \<in> set t" "length t + 2 \<le> MAX_CHUNK_LINE_BYTES"
    using Cons.prems(3) by (auto simp: trailer_ok_def)
  obtain b' where b': "read_line read MAX_CHUNK_LINE_BYTES b = (Inr t, b')" "body_healthy healthy b'"
    "body_pending pending b' = encode_trailers ts @ rest" "mode b' = mode b"
    using read_line_complete[of b t "encode_trailers ts @ rest"] Cons.prems t find_crlf_append[OF t(1)]
    by (auto simp: encode_trailers_def)
  define tot' where "tot' = saturating_add tot (length t + 2)"
  have le: "tot' \<le> tot + (length t + 2)" unfolding tot'_def by (rule saturating_add_le)
  have size: "trailers_size (t # ts) = length t + 2 + trailers_size ts"
    by (simp add: trailers_size_def)
  obtain b'' where "consume_trailers_loop read tot' b' = (Inr (), b'')" "body_healthy healthy b''"
    "body_pending pending b'' = rest" "mode b'' = mode b'"
    using Cons.IH[OF b'(2,3), of tot'] Cons.prems(3,4) le size by auto
  moreover have "tot' \<le> MAX_TRAILER_BYTES" "t \<noteq> []"
    using Cons.prems(4) le size t(2) by (auto simp: trailers_size_def)
  ultimately show ?case
    using b' t(2) tot'_def by (subst consume_trailers_loop.simps) (simp add: Let_def)
qed

lemma read_chunk_header_complete:
  assumes "body_healthy healthy b" "chunk_line_ok l n"
    and "body_pending pending b = (if due then crlf else []) @ l @ crlf @ rest"
  shows "\<exists>b'. read_chunk_header read due b = (Inr n, b') \<and> body_healthy healthy b' \<and>
           body_pending pending b' = rest \<and> mode b' = mode b"
proof -
  obtain b1 where b1: "(if due then read_exact_buffered read b 2 else (Inr crlf, b)) = (Inr crlf, b1)"
    "body_healthy healthy b1" "body_pending pending b1 = l @ crlf @ rest" "mode b1 = mode b"
    using assms read_exact_loop_complete[of b crlf "l @ crlf @ rest" "[]" 2]
    by (cases due) (auto simp: read_exact_buffered_def)
  obtain b2 where "read_line read MAX_CHUNK_LINE_BYTES b1 = (Inr l, b2)" "body_healthy healthy b2"
    "body_pending pending b2 = rest" "mode b2 = mode b1"
    using read_line_complete[OF b1(2,3) find_crlf_append] assms(2) by (auto simp: chunk_line_ok_def)
  with b1 assms(2) show ?thesis by (simp add: read_chunk_header_def chunk_line_ok_def)
qed

lemma read_chunk_data_complete:
  assumes "body_healthy healthy b" "body_pending pending b = d @ rest" "0 < n"
    and "d \<noteq> []" "length d \<le> u64_max"
  obtains bs d' b' where "read_chunk_data read (of_nat (length d)) b n = (Inr bs, b')"
    "bs \<noteq> []" "length bs \<le> n" "d = bs @ d'" "body_healthy healthy b'"
    "body_pending pending b' = d' @ rest" "mode b' = BodyChunked (of_nat (length d')) (d' = []) False"
proof -
  define w where "w = min n (min (unat (of_nat (length d) :: u64)) usize_max)"
  have w: "w = min n (length d)" "0 < w"
    using assms by (auto simp: w_def unat_length u64_max_def usize_max_def)
  obtain bs b1 where rd: "read_buffered read b w = (Inr bs, b1)" "body_healthy healthy b1"
    "body_pending pending b = bs @ body_pending pending b1" "length bs \<le> w"
    by (rule buf.healthy_readE[OF assms(1)])
  have bs: "bs \<noteq> []" using buf.read_eof[of b w b1] rd assms(2,4) w(2) by auto
  obtain d' where d': "d = bs @ d'" "body_pending pending b1 = d' @ rest"
    using rd(3,4) assms(2) w(1) by (auto simp: append_eq_append_conv2)
  have sub: "(of_nat (length d) - of_nat (length bs) :: u64) = of_nat (length d')"
    "(of_nat (length d) = (of_nat (length bs) :: u64)) \<longleftrightarrow> d' = []"
    using d'(1) length_word_0[of d'] assms(5) by auto
  have "read_chunk_data read (of_nat (length d)) b n =
      (Inr bs, b1\<lparr>mode := BodyChunked (of_nat (length d')) (d' = []) False\<rparr>)"
    unfolding read_chunk_data_def Let_def w_def[symmetric] using rd(1) bs sub by simp
  then show thesis using that rd(2,4) bs d' w(1) by auto
qed

lemma read_chunked_inside:
  assumes "body_healthy healthy b" "0 < n" "message_ok m" "d \<noteq> []" "length d \<le> u64_max"
    and "mode b = BodyChunked (of_nat (length d)) False False"
    and "body_pending pending b = d @ crlf @ encode_message m @ rest"
  shows "\<exists>bs data' b'. read_chunked read b n = (Inr bs, b') \<and> body_healthy healthy b' \<and>
           bs \<noteq> [] \<and> length bs \<le> n \<and> d @ payload m = bs @ data' \<and>
           chunk_frame (mode b') (body_pending pending b') data' rest"
proof -
  obtain bs d' b' where b': "read_chunk_data read (of_nat (length d)) b n = (Inr bs, b')"
    "bs \<noteq> []" "length bs \<le> n" "d = bs @ d'" "body_healthy healthy b'"
    "body_pending pending b' = d' @ crlf @ encode_message m @ rest"
    "mode b' = BodyChunked (of_nat (length d')) (d' = []) False"
    by (rule read_chunk_data_complete[OF assms(1,7,2,4,5)])
  have "read_chunked read b n = (Inr bs, b')"
    using assms(4-6) b'(1) by (subst read_chunked.simps) (simp add: length_word_0)
  moreover have "chunk_frame (mode b') (body_pending pending b') (d' @ payload m) rest"
    using b' assms chunk_frame.separator[of m rest] chunk_frame.inside[of m d' rest]
    by (cases "d' = []") auto
  ultimately show ?thesis using b' by auto
qed

text \<open>Between chunks: the header of the next chunk, or the end of the message.\<close>

lemma read_chunked_between:
  assumes "body_healthy healthy b" "0 < n" "message_ok m"
    and "mode b = BodyChunked 0 due False"
    and "body_pending pending b = (if due then crlf else []) @ encode_message m @ rest"
  shows "\<exists>bs data' b'. read_chunked read b n = (Inr bs, b') \<and> body_healthy healthy b' \<and>
           (payload m \<noteq> [] \<longrightarrow> bs \<noteq> []) \<and> length bs \<le> n \<and> payload m = bs @ data' \<and>
           chunk_frame (mode b') (body_pending pending b') data' rest \<and>
           (payload m = [] \<longrightarrow> is_complete b')"
proof (cases "chunks m")
  case Nil
  then have pend: "body_pending pending b =
      (if due then crlf else []) @ last_line m @ crlf @ encode_trailers (trailers m) @ rest"
    using assms(5) by (simp add: encode_message_def)
  have "chunk_line_ok (last_line m) 0" using assms(3) by (simp add: message_ok_def)
  from read_chunk_header_complete[OF assms(1) this pend] obtain b1 where
    b1: "read_chunk_header read due b = (Inr 0, b1)" "body_healthy healthy b1"
      "body_pending pending b1 = encode_trailers (trailers m) @ rest" by blast
  obtain b2 where "consume_trailers_loop read 0 b1 = (Inr (), b2)" "body_healthy healthy b2"
    "body_pending pending b2 = rest"
    using consume_trailers_complete[OF b1(2,3), of 0] assms(3) by (auto simp: message_ok_def)
  with b1 assms(4) have "read_chunked read b n = (Inr [], b2\<lparr>mode := BodyChunked 0 False True\<rparr>)"
    by (subst read_chunked.simps) (simp add: consume_trailers_def)
  then show ?thesis
    using Nil \<open>body_healthy healthy b2\<close> \<open>body_pending pending b2 = rest\<close>
    by (auto simp: payload_def is_complete_def intro: chunk_frame.finished)
next
  case (Cons c cs)
  define m' where "m' = m\<lparr>chunks := cs\<rparr>"
  have ok: "message_ok m'" "snd c \<noteq> []" "length (snd c) \<le> u64_max"
    "chunk_line_ok (fst c) (of_nat (length (snd c)))"
    using assms(3) Cons by (auto simp: message_ok_def chunk_ok_def m'_def)
  have pend: "body_pending pending b =
      (if due then crlf else []) @ fst c @ crlf @ snd c @ crlf @ encode_message m' @ rest"
    using assms(5) encode_message_Cons[OF Cons] by (simp add: m'_def)
  from read_chunk_header_complete[OF assms(1) ok(4) pend] obtain b1 where
    b1: "read_chunk_header read due b = (Inr (of_nat (length (snd c))), b1)"
      "body_healthy healthy b1" "body_pending pending b1 = snd c @ crlf @ encode_message m' @ rest"
    by blast
  define b2 where "b2 = b1\<lparr>mode := BodyChunked (of_nat (length (snd c))) False False\<rparr>"
  have "read_chunked read b n = read_chunked read b2 n"
    using b1 assms(4) ok(2,3) by (subst read_chunked.simps) (simp add: length_word_0 b2_def)
  moreover have "payload m = snd c @ payload m'" by (simp add: payload_Cons[OF Cons] m'_def)
  ultimately show ?thesis
    using read_chunked_inside[of b2 n m' "snd c" rest] b1 ok assms(2) by (auto simp: b2_def)
qed

lemma chunked_step:
  assumes "body_healthy healthy b" "0 < n"
    and "chunk_frame (mode b) (body_pending pending b) data rest"
  shows "\<exists>bs data' b'. body_read read b n = (Inr bs, b') \<and> body_healthy healthy b' \<and>
           (data \<noteq> [] \<longrightarrow> bs \<noteq> []) \<and> length bs \<le> n \<and> data = bs @ data' \<and>
           chunk_frame (mode b') (body_pending pending b') data' rest \<and>
           (data = [] \<longrightarrow> is_complete b')"
proof -
  have chunked: "body_read read b n = read_chunked read b n"
    using assms(2,3) by (auto simp: body_read_def elim!: chunk_frameE)
  from assms(3) show ?thesis
  proof (cases rule: chunk_frame.cases)
    case (start m)
    then show ?thesis unfolding chunked
      using read_chunked_between[OF assms(1,2), of m False rest] by auto
  next
    case (separator m)
    then show ?thesis unfolding chunked
      using read_chunked_between[OF assms(1,2), of m True rest] by auto
  next
    case (inside m d)
    then show ?thesis unfolding chunked
      using read_chunked_inside[OF assms(1,2), of m d rest] by auto
  next
    case finished
    then have "read_chunked read b n = (Inr [], b)" by (subst read_chunked.simps) simp
    then show ?thesis unfolding chunked using finished assms(1,3) by (auto simp: is_complete_def)
  qed
qed

end

section \<open>Reading a body to its end\<close>

text \<open>
  A caller's loop: one \<^verbatim>\<open>read\<close> for every buffer size of a list, stopping at the first error,
  with the bytes delivered so far.
\<close>

fun read_all ::
  "'c reader \<Rightarrow> 'c response_body \<Rightarrow> nat list \<Rightarrow> (io_error, bytes) result \<times> 'c response_body" where
  "read_all rd b [] = (Inr [], b)"
| "read_all rd b (n # ns) =
     (case body_read rd b n of
        (Inl e, b') \<Rightarrow> (Inl e, b')
      | (Inr bs, b') \<Rightarrow>
          (case read_all rd b' ns of
             (Inl e, b'') \<Rightarrow> (Inl e, b'')
           | (Inr out, b'') \<Rightarrow> (Inr (bs @ out), b'')))"

context response_source
begin

lemma read_all_chunked:
  assumes "body_healthy healthy b" "list_all (\<lambda>n. 0 < n) ns"
    and "chunk_frame (mode b) (body_pending pending b) data rest"
  shows "\<exists>out data' b'. read_all read b ns = (Inr out, b') \<and> data = out @ data' \<and>
           chunk_frame (mode b') (body_pending pending b') data' rest \<and>
           (length data < length ns \<longrightarrow> data' = [] \<and> is_complete b' \<and> body_pending pending b' = rest)"
  using assms
proof (induction ns arbitrary: b data)
  case (Cons n ns)
  obtain bs data1 b1 where b1: "body_read read b n = (Inr bs, b1)" "body_healthy healthy b1"
    "data \<noteq> [] \<longrightarrow> bs \<noteq> []" "data = bs @ data1"
    "chunk_frame (mode b1) (body_pending pending b1) data1 rest" "data = [] \<longrightarrow> is_complete b1"
    using chunked_step[OF Cons.prems(1) _ Cons.prems(3), of n] Cons.prems(2) by auto
  obtain out data' b' where b': "read_all read b1 ns = (Inr out, b')" "data1 = out @ data'"
    "chunk_frame (mode b') (body_pending pending b') data' rest"
    "length data1 < length ns \<longrightarrow> data' = [] \<and> is_complete b' \<and> body_pending pending b' = rest"
    using Cons.IH[OF b1(2) _ b1(5)] Cons.prems(2) by auto
  have "data' = [] \<and> is_complete b' \<and> body_pending pending b' = rest" if "length data < length (n # ns)"
  proof (cases "data = [] \<and> ns = []")
    case True
    then show ?thesis using b1(4,5,6) b'(1,2)
      by (auto simp: is_complete_def elim: chunk_frameE)
  next
    case False
    then have "length data1 < length ns"
      using that b1(3,4) by (cases "bs = []") (auto simp flip: length_greater_0_conv)
    then show ?thesis using b'(4) by blast
  qed
  then show ?case using b1 b' by auto
qed auto

text \<open>Fixed-length bodies.\<close>

lemma content_length_step:
  assumes "body_healthy healthy b" "0 < n" "mode b = BodyContentLength r"
    and "unat r \<le> length (body_pending pending b)"
  obtains bs r' b' where "body_read read b n = (Inr bs, b')" "body_healthy healthy b'"
    "body_pending pending b = bs @ body_pending pending b'" "length bs \<le> n"
    "unat r = length bs + unat r'" "mode b' = BodyContentLength r'" "r \<noteq> 0 \<Longrightarrow> bs \<noteq> []"
proof (cases "r = 0")
  case True
  with assms show thesis by (intro that[of "[]" b r]) (auto simp: body_read_def)
next
  case False
  define w where "w = min n (min (unat r) usize_max)"
  obtain bs b1 where rd: "read_buffered read b w = (Inr bs, b1)" "body_healthy healthy b1"
    "body_pending pending b = bs @ body_pending pending b1" "length bs \<le> w"
    by (rule buf.healthy_readE[OF assms(1)])
  have "0 < w" "body_pending pending b \<noteq> []"
    using False assms(2,4) by (auto simp: w_def usize_max_def unat_eq_0 unat_gt_0)
  then have bs: "bs \<noteq> []" using buf.read_eof[of b w b1] rd(1) by auto
  have le: "length bs \<le> unat r" using rd(4) by (simp add: w_def)
  have "unat r < 2 ^ LENGTH(64)" by (rule unsigned_less)
  then have "unat (of_nat (length bs) :: u64) = length bs"
    using le by (simp add: unat_of_nat take_bit_nat_eq_self)
  with le have "unat (r - of_nat (length bs)) = unat r - length bs"
    by (simp add: unat_sub word_le_nat_alt)
  moreover have "body_read read b n =
      (Inr bs, b1\<lparr>mode := BodyContentLength (r - of_nat (length bs))\<rparr>)"
    using assms(2,3) False rd(1) bs by (simp add: body_read_def Let_def w_def)
  ultimately show thesis
    using rd bs le
    by (intro that[of bs "b1\<lparr>mode := BodyContentLength (r - of_nat (length bs))\<rparr>"
          "r - of_nat (length bs)"]) (auto simp: w_def)
qed

lemma read_all_content_length:
  assumes "body_healthy healthy b" "list_all (\<lambda>n. 0 < n) ns" "mode b = BodyContentLength r"
    and "unat r \<le> length (body_pending pending b)" "unat r \<le> length ns"
  shows "\<exists>b'. read_all read b ns = (Inr (take (unat r) (body_pending pending b)), b') \<and>
           is_complete b' \<and> body_pending pending b' = drop (unat r) (body_pending pending b)"
  using assms
proof (induction ns arbitrary: b r)
  case Nil
  then show ?case by (auto simp: is_complete_def unat_eq_0)
next
  case (Cons n ns)
  obtain bs r1 b1 where b1: "body_read read b n = (Inr bs, b1)" "body_healthy healthy b1"
    "body_pending pending b = bs @ body_pending pending b1" "length bs \<le> n"
    "unat r = length bs + unat r1" "mode b1 = BodyContentLength r1" "r \<noteq> 0 \<Longrightarrow> bs \<noteq> []"
    using Cons.prems(2) by (auto intro: content_length_step[OF Cons.prems(1) _ Cons.prems(3,4), of n])
  have "unat r1 \<le> length ns"
    using b1(5,7) Cons.prems(5) by (cases "r = 0") (auto simp flip: length_greater_0_conv)
  then obtain b' where "read_all read b1 ns = (Inr (take (unat r1) (body_pending pending b1)), b')"
    "is_complete b'" "body_pending pending b' = drop (unat r1) (body_pending pending b1)"
    using Cons.IH[OF b1(2) _ b1(6)] Cons.prems(2,4) b1(3,5) by auto
  with b1 show ?case by auto
qed

end

section \<open>Properties of response bodies\<close>

lemma conn_response_source:
  "byte_source (tls_stream_read T) tp th \<Longrightarrow>
   response_source (conn_read T) (conn_pending tp) (conn_healthy th)"
  by (simp add: response_source_def conn_byte_source)

text \<open>
  C1. Chunked round trip.  Take a response body over a TCP or TLS connection that is about to
  decode a chunked message, with any chunk extensions and trailers within the crate's limits.
  Whatever segments the stream is cut into, however much of it is already buffered, and
  whatever non-zero buffer sizes the caller reads with, more reads than there are payload
  bytes deliver exactly the payload, leave the body complete, and consume exactly the message:
  what follows it stays unread.
\<close>

theorem chunked_roundtrip:
  assumes "byte_source (tls_stream_read T) tp th"
    and "message_ok m" "mode b = BodyChunked 0 False False"
    and "body_pending (conn_pending tp) b = encode_message m @ rest"
    and "body_healthy (conn_healthy th) b"
    and "list_all (\<lambda>n. 0 < n) ns" "length (payload m) < length ns"
  shows "\<exists>b'. read_all (conn_read T) b ns = (Inr (payload m), b') \<and> is_complete b' \<and>
           body_pending (conn_pending tp) b' = rest"
proof -
  have "chunk_frame (mode b) (body_pending (conn_pending tp) b) (payload m) rest"
    using assms(2-4) chunk_frame.start by simp
  from response_source.read_all_chunked[OF conn_response_source[OF assms(1)] assms(5,6) this]
  show ?thesis using assms(7) by auto
qed

definition demo_message :: chunked_message where
  "demo_message = \<lparr>chunks = [(''4;x=y'', ''Wiki''), (''2'', ''ok'')], last_line = ''0'',
     trailers = [''T: v'']\<rparr>"

definition segments :: "bytes list \<Rightarrow> net_event list" where
  "segments bss = map (\<lambda>bs. Segment (hd bs) (tl bs)) (filter (\<lambda>bs. bs \<noteq> []) bss)"

definition tcp_of :: "net_event list \<Rightarrow> tcp_stream" where
  "tcp_of es = \<lparr>incoming = es, outgoing = [], sent = [], tcp_read_timeout = None, tcp_write_timeout = None\<rparr>"

definition demo_body :: "unit connection response_body" where
  "demo_body =
     \<lparr>body_connection = Tcp (tcp_of (segments
        [''i'', ''ki'' @ [CR], [LF] @ ''2'' @ crlf @ ''ok'' @ crlf @ ''0'' @ crlf @ ''T: v'' @ [CR],
         [LF] @ crlf @ ''NEXT''])),
      buffered = ''4;x=y'' @ crlf @ ''W'', mode = BodyChunked 0 False False\<rparr>"

theorem chunked_roundtrip_witness:
  "\<exists>b'. read_all (conn_read plain_tls) demo_body (replicate 7 3) = (Inr ''Wikiok'', b') \<and>
     is_complete b' \<and> body_pending (conn_pending (tcp_pending \<circ> snd)) b' = ''NEXT''"
proof -
  have "message_ok demo_message" by code_simp
  moreover have "mode demo_body = BodyChunked 0 False False" by (simp add: demo_body_def)
  moreover have "body_pending (conn_pending (tcp_pending \<circ> snd)) demo_body =
      encode_message demo_message @ ''NEXT''" by code_simp
  moreover have "body_healthy (conn_healthy (tcp_healthy \<circ> snd)) demo_body" by code_simp
  moreover have "payload demo_message = ''Wikiok''" by code_simp
  ultimately show ?thesis
    using chunked_roundtrip[OF plain_tls_byte_source, of demo_message demo_body "''NEXT''" "replicate 7 3"]
    by (simp add: list_all_iff)
qed

text \<open>
  Fixed-length bodies.  If the connection still has at least as many bytes as the
  Content-Length announces, that many non-empty reads deliver exactly those bytes, complete the
  body, and leave the following bytes unread; the 64-bit count never wraps.
\<close>

theorem content_length_exact:
  assumes "byte_source (tls_stream_read T) tp th"
    and "mode b = BodyContentLength r" "unat r \<le> length (body_pending (conn_pending tp) b)"
    and "body_healthy (conn_healthy th) b"
    and "list_all (\<lambda>n. 0 < n) ns" "unat r \<le> length ns"
  shows "\<exists>b'. read_all (conn_read T) b ns = (Inr (take (unat r) (body_pending (conn_pending tp) b)), b') \<and>
           is_complete b' \<and>
           body_pending (conn_pending tp) b' = drop (unat r) (body_pending (conn_pending tp) b)"
  using response_source.read_all_content_length[OF conn_response_source[OF assms(1)] assms(4,5,2,3,6)] .

definition fixed_body :: "unit connection response_body" where
  "fixed_body = \<lparr>body_connection = Tcp (tcp_of (segments [''lo'', ''NEXT''])), buffered = ''hel'',
     mode = BodyContentLength 5\<rparr>"

theorem content_length_exact_witness:
  "\<exists>b'. read_all (conn_read plain_tls) fixed_body (replicate 5 2) = (Inr ''hello'', b') \<and>
     is_complete b' \<and> body_pending (conn_pending (tcp_pending \<circ> snd)) b' = ''NEXT''"
proof -
  have pend: "body_pending (conn_pending (tcp_pending \<circ> snd)) fixed_body = ''helloNEXT''" by code_simp
  have healthy: "body_healthy (conn_healthy (tcp_healthy \<circ> snd)) fixed_body" by code_simp
  have mode: "mode fixed_body = BodyContentLength 5" by (simp add: fixed_body_def)
  show ?thesis
    using content_length_exact[OF plain_tls_byte_source mode _ healthy, of "replicate 5 2"] pend
    by (simp add: list_all_iff)
qed

lemma read_chunked_end: "read_chunked rd b n = (Inr [], b') \<Longrightarrow> is_complete b'"
proof (induction rd b n rule: read_chunked.induct)
  case (1 rd b n)
  from "1.prems" show ?case
    apply (subst (asm) read_chunked.simps)
    apply (auto simp: is_complete_def read_chunk_data_def Let_def
        split: body_mode.splits if_splits prod.splits sum.splits)
    apply (metis "1.IH" is_complete_def)
    done
qed

text \<open>
  C2. No silent truncation.  For every connection whatsoever, and every framing but the
  close-delimited one, a read into a non-empty buffer that reports the end of the body leaves
  the body complete: a stream that ends early is reported as an error, never as the end.
\<close>

theorem no_silent_truncation:
  assumes "body_read rd b n = (Inr [], b')" "0 < n" "mode b \<noteq> BodyEof"
  shows "is_complete b'"
  using assms read_chunked_end
  by (auto simp: body_read_def is_complete_def Let_def
      split: body_mode.splits if_splits prod.splits sum.splits)

definition last_chunk_body :: "unit connection response_body" where
  "last_chunk_body = \<lparr>body_connection = Tcp (tcp_of (segments [[LF] @ ''0'' @ crlf, crlf])),
     buffered = [CR], mode = BodyChunked 0 True False\<rparr>"

theorem no_silent_truncation_witness:
  "is_complete (snd (body_read (conn_read plain_tls) last_chunk_body 8))"
proof (rule no_silent_truncation)
  show "body_read (conn_read plain_tls) last_chunk_body 8 =
      (Inr [], snd (body_read (conn_read plain_tls) last_chunk_body 8))"
    by code_simp
  show "mode last_chunk_body \<noteq> BodyEof" by code_simp
qed simp

text \<open>
  A timed-out read cannot be retried.  On the well-formed message \<open>5, hello, 0\<close>, with a
  read timeout that fires between the separator after the data and the next size line, the
  first read delivers the data, the second reports the timeout, and the third, a plain retry,
  rejects the message: the separator had been consumed, but the decoder still expects it.
\<close>

definition timeout_body :: "unit connection response_body" where
  "timeout_body =
     \<lparr>body_connection = Tcp (tcp_of (segments [''5'' @ crlf @ ''hello'' @ crlf]
        @ [NetFail (IoError WouldBlock ''timed out'')] @ segments [''0'' @ crlf @ crlf])),
      buffered = [], mode = BodyChunked 0 False False\<rparr>"

theorem timeout_retry_desynchronises:
  "let (r1, b1) = body_read (conn_read plain_tls) timeout_body 5;
       (r2, b2) = body_read (conn_read plain_tls) b1 5;
       (r3, b3) = body_read (conn_read plain_tls) b2 5
   in body_pending (conn_pending (tcp_pending \<circ> snd)) timeout_body =
        encode_message \<lparr>chunks = [(''5'', ''hello'')], last_line = ''0'', trailers = []\<rparr> \<and>
      r1 = Inr ''hello'' \<and> r2 = Inl (IoError WouldBlock ''timed out'') \<and>
      r3 = Inl (invalid_data ''HTTP chunk data was not followed by CRLF'')"
  by code_simp

end
