(* ===== verification/Client_Normalize.thy ===== *)
theory Client_Normalize
  imports Http_Api
begin

text \<open>
  Direct-origin request normalisation (\<^verbatim>\<open>src/crates/h12tiny-client-normalize/src/lib.rs\<close>), shared
  by the blocking and the futures-based client.  A call of \<^verbatim>\<open>expect\<close> that would panic is the
  value None of the surrounding function; the theorems show that it is unreachable for every
  request whose origin has been extracted.
\<close>

section \<open>Model\<close>

record origin =
  origin_scheme :: string
  origin_authority :: string

definition origin_uri :: "'u uri_ops \<Rightarrow> origin \<Rightarrow> 'u option" where
  "origin_uri U og = uri_from_parts U (Some (origin_scheme og), Some (origin_authority og), Some ''/'')"

definition origin_display :: "origin \<Rightarrow> string" where
  "origin_display og = origin_scheme og @ ''://'' @ origin_authority og"

datatype normalize_error = OriginAbsoluteUriRequired

definition set_connect_scheme :: "'u uri_ops \<Rightarrow> 'u \<Rightarrow> string \<Rightarrow> 'u option" where
  "set_connect_scheme U u s = uri_from_parts U (Some s, uri_authority U u, Some ''/'')"

definition authority_port_u16 :: "'u uri_ops \<Rightarrow> string \<Rightarrow> u16 option" where
  "authority_port_u16 U a = map_option snd (authority_port U a)"

definition extract_origin ::
  "'u uri_ops \<Rightarrow> 'u \<Rightarrow> bool \<Rightarrow> ((normalize_error, origin) result \<times> 'u) option" where
  "extract_origin U u is_connect =
     (case (uri_scheme U u, uri_authority U u) of
        (Some s, Some a) \<Rightarrow> Some (Inr \<lparr>origin_scheme = s, origin_authority = a\<rparr>, u)
      | (None, Some a) \<Rightarrow>
          if is_connect then
            (let s = (if authority_port_u16 U a = Some 443 then ''https'' else ''http'') in
             map_option (\<lambda>u'. (Inr \<lparr>origin_scheme = s, origin_authority = a\<rparr>, u'))
               (set_connect_scheme U u s))
          else Some (Inl OriginAbsoluteUriRequired, u)
      | _ \<Rightarrow> Some (Inl OriginAbsoluteUriRequired, u))"

definition is_secure_scheme :: "'u uri_ops \<Rightarrow> 'u \<Rightarrow> bool" where
  "is_secure_scheme U u \<longleftrightarrow> uri_scheme U u = Some ''https'' \<or> uri_scheme U u = Some ''wss''"

definition non_default_port :: "'u uri_ops \<Rightarrow> 'u \<Rightarrow> (string \<times> u16) option" where
  "non_default_port U u =
     (case (map_option snd (uri_port U u), is_secure_scheme U u) of
        (Some port, secure) \<Rightarrow>
          if port = 443 \<and> secure \<or> port = 80 \<and> \<not> secure then None else uri_port U u
      | _ \<Rightarrow> uri_port U u)"

definition synthesize_host ::
  "'u uri_ops \<Rightarrow> 'h header_ops \<Rightarrow> field_ops \<Rightarrow> ('u, 'h, 'b) request \<Rightarrow> ('u, 'h, 'b) request option" where
  "synthesize_host U H F r =
     (if hm_contains_key H (rq_headers r) ''host'' then Some r
      else case uri_host U (rq_uri r) of
        None \<Rightarrow> None
      | Some host \<Rightarrow>
          (let value = (case non_default_port U (rq_uri r) of
               Some port \<Rightarrow> host @ '':'' @ fst port
             | None \<Rightarrow> host)
           in map_option (\<lambda>v. r\<lparr>rq_headers := hm_insert H (rq_headers r) ''host'' v\<rparr>)
                (header_value_from_str F value)))"

definition origin_form :: "'u uri_ops \<Rightarrow> 'u \<Rightarrow> 'u option" where
  "origin_form U u =
     (case uri_path_and_query U u of
        Some path \<Rightarrow>
          if path \<noteq> ''/'' then uri_from_parts U (None, None, Some path) else Some (uri_default U)
      | None \<Rightarrow> Some (uri_default U))"

definition authority_form :: "'u uri_ops \<Rightarrow> 'u \<Rightarrow> 'u option" where
  "authority_form U u =
     (case uri_authority U u of
        None \<Rightarrow> None
      | Some a \<Rightarrow> uri_from_parts U (None, Some a, None))"

definition normalize_http1_request ::
  "'u uri_ops \<Rightarrow> 'h header_ops \<Rightarrow> field_ops \<Rightarrow> bool \<Rightarrow> ('u, 'h, 'b) request
     \<Rightarrow> ('u, 'h, 'b) request option" where
  "normalize_http1_request U H F set_host r0 =
     Option.bind (if set_host then synthesize_host U H F r0 else Some r0) (\<lambda>r.
       map_option (\<lambda>u. r\<lparr>rq_uri := u\<rparr>)
         (if rq_method r = ''CONNECT'' then authority_form U (rq_uri r)
          else origin_form U (rq_uri r)))"

section \<open>Lemmas\<close>

lemma extract_origin_total:
  assumes "uri_laws U"
  shows "\<exists>r u'. extract_origin U u is_connect = Some (r, u')"
proof (cases "uri_authority U u")
  case (Some a)
  have "\<exists>v. uri_from_parts U (Some s, Some a, Some ''/'') = Some v" if "s \<in> {''http'', ''https''}" for s
    using uri_laws_valid(3)[OF assms Some that] .
  with Some show ?thesis
    by (auto simp: extract_origin_def set_connect_scheme_def Let_def split: option.splits)
qed (auto simp: extract_origin_def split: option.splits)

lemma extract_origin_Inr:
  assumes "uri_laws U" "extract_origin U u is_connect = Some (Inr og, u')"
  shows "uri_authority U u' = Some (origin_authority og)" "uri_scheme U u' = Some (origin_scheme og)"
    "uri_authority U u = Some (origin_authority og)"
    "uri_scheme U u \<noteq> None \<Longrightarrow> u' = u"
  using assms(2) uri_laws_parts[OF assms(1)]
  by (auto simp: extract_origin_def set_connect_scheme_def Let_def split: option.splits if_splits)

lemma origin_uri_exists:
  assumes "uri_laws U" "extract_origin U u is_connect = Some (Inr og, u')"
  shows "\<exists>v. origin_uri U og = Some v"
  using uri_laws_valid(4)[OF assms(1)] extract_origin_Inr[OF assms] unfolding origin_uri_def by blast

lemma origin_form_parts:
  assumes "uri_laws U"
  obtains v where "origin_form U u = Some v" "uri_scheme U v = None" "uri_authority U v = None"
    "uri_path_and_query U v = Some (case uri_path_and_query U u of Some p \<Rightarrow> p | None \<Rightarrow> ''/'')"
proof -
  have default: "uri_scheme U (uri_default U) = None" "uri_authority U (uri_default U) = None"
    "uri_path_and_query U (uri_default U) = Some ''/''"
    using uri_laws_parts[OF assms uri_laws_valid(6)[OF assms]] by auto
  show thesis
  proof (cases "uri_path_and_query U u")
    case None
    then show thesis using that[of "uri_default U"] default by (simp add: origin_form_def)
  next
    case (Some p)
    obtain v where "uri_from_parts U (None, None, Some p) = Some v"
      using uri_laws_valid(5)[OF assms Some] by blast
    then show thesis
      using that[of v] that[of "uri_default U"] default Some uri_laws_parts[OF assms, of None None p v]
      by (cases "p = ''/''") (auto simp: origin_form_def)
  qed
qed

lemma authority_form_parts:
  assumes "uri_laws U" "uri_authority U u = Some a"
  obtains v where "authority_form U u = Some v" "uri_scheme U v = None" "uri_authority U v = Some a"
    "uri_path_and_query U v = None"
proof -
  obtain v where "uri_from_parts U (None, Some a, None) = Some v"
    using uri_laws_valid(1)[OF assms] by blast
  then show thesis
    using that[of v] assms(2) uri_laws_authority_form[OF assms(1)] by (simp add: authority_form_def)
qed

text \<open>
  The Host value an origin calls for: its host, and the text of its port unless that is the
  default port of its scheme, 443 for a secure scheme and 80 otherwise.
\<close>

definition scheme_port :: "string option \<Rightarrow> u16" where
  "scheme_port s = (if s = Some ''https'' \<or> s = Some ''wss'' then 443 else 80)"

definition host_text :: "'u uri_ops \<Rightarrow> string option \<Rightarrow> string \<Rightarrow> string" where
  "host_text U s a =
     authority_host U a @
     (case authority_port U a of
        None \<Rightarrow> []
      | Some (digits, port) \<Rightarrow> if port = scheme_port s then [] else '':'' @ digits)"

lemma host_text_written:
  assumes "uri_authority U u = Some a"
  shows "host_text U (uri_scheme U u) a =
     authority_host U a @ (case non_default_port U u of Some port \<Rightarrow> '':'' @ fst port | None \<Rightarrow> [])"
  using assms
  by (auto simp: host_text_def scheme_port_def non_default_port_def is_secure_scheme_def uri_port_def
      split: option.splits if_splits)

lemma synthesize_host_adds:
  assumes "uri_laws U" "value_laws F" "uri_authority U (rq_uri r) = Some a"
    and "\<not> hm_contains_key H (rq_headers r) ''host''"
  shows "synthesize_host U H F r =
     Some (r\<lparr>rq_headers := hm_insert H (rq_headers r) ''host'' (host_text U (uri_scheme U (rq_uri r)) a)\<rparr>)"
proof -
  let ?host = "host_text U (uri_scheme U (rq_uri r)) a"
  have ok: "authority_text_ok U a" using uri_laws_valid(2)[OF assms(1,3)] .
  have "visible_ascii ?host"
    using ok by (auto simp: host_text_def authority_text_ok_def visible_ascii_def split: option.splits)
  then have "header_value_from_str F ?host = Some ?host"
    by (rule value_laws_from_str[OF assms(2)])
  then show ?thesis
    using assms(3,4) unfolding host_text_written[OF assms(3)]
    by (auto simp: synthesize_host_def uri_host_def Let_def split: option.splits)
qed

lemma synthesize_host_effect:
  assumes "uri_laws U" "header_laws H" "value_laws F" "uri_authority U (rq_uri r) = Some a"
  obtains hs where "(if set_host then synthesize_host U H F r else Some r) = Some (r\<lparr>rq_headers := hs\<rparr>)"
    "\<forall>n. hm_get_all H hs n =
       (if set_host \<and> n = ''host'' \<and> hm_get_all H (rq_headers r) n = []
        then [host_text U (uri_scheme U (rq_uri r)) a] else hm_get_all H (rq_headers r) n)"
proof (cases "set_host \<and> \<not> hm_contains_key H (rq_headers r) ''host''")
  case True
  then show thesis
    using that[of "hm_insert H (rq_headers r) ''host'' (host_text U (uri_scheme U (rq_uri r)) a)"]
      synthesize_host_adds[OF assms(1,3,4)] header_laws_get_all[OF assms(2)] by simp
next
  case False
  then show thesis
    using that[of "rq_headers r"] header_laws_get_all(4)[OF assms(2)]
    by (auto simp: synthesize_host_def)
qed

section \<open>Properties\<close>

text \<open>
  C10. Normalisation of an absolute request.  For a request other than CONNECT whose URI has a
  scheme and an authority, extracting the origin succeeds and leaves the URI alone, and the
  normalisation that follows cannot panic: the request target printed on the wire is the path
  and query, or a slash; with \<open>set_host\<close> the Host values are the ones the caller supplied, or
  else the single value made of the host of the authority and, unless it is 443 for a secure
  scheme or 80 for another, the text of its port; every other header, the method, the version
  and the body are unchanged.
\<close>

theorem normalize_absolute:
  assumes "uri_laws U" "header_laws H" "value_laws F"
    and "uri_scheme U (rq_uri r) = Some s" "uri_authority U (rq_uri r) = Some a"
    and "rq_method r \<noteq> ''CONNECT''"
  shows "extract_origin U (rq_uri r) False =
           Some (Inr \<lparr>origin_scheme = s, origin_authority = a\<rparr>, rq_uri r) \<and>
         (\<exists>r'. normalize_http1_request U H F set_host r = Some r' \<and>
           uri_display U (rq_uri r') =
             (case uri_path_and_query U (rq_uri r) of Some p \<Rightarrow> p | None \<Rightarrow> ''/'') \<and>
           (\<forall>n. hm_get_all H (rq_headers r') n =
              (if set_host \<and> n = ''host'' \<and> hm_get_all H (rq_headers r) n = []
               then [host_text U (Some s) a] else hm_get_all H (rq_headers r) n)) \<and>
           rq_method r' = rq_method r \<and> rq_version r' = rq_version r \<and> rq_body r' = rq_body r)"
proof -
  obtain v where v: "origin_form U (rq_uri r) = Some v" "uri_scheme U v = None" "uri_authority U v = None"
    "uri_path_and_query U v = Some (case uri_path_and_query U (rq_uri r) of Some p \<Rightarrow> p | None \<Rightarrow> ''/'')"
    by (rule origin_form_parts[OF assms(1)])
  obtain hs where "(if set_host then synthesize_host U H F r else Some r) = Some (r\<lparr>rq_headers := hs\<rparr>)"
    "\<forall>n. hm_get_all H hs n =
       (if set_host \<and> n = ''host'' \<and> hm_get_all H (rq_headers r) n = []
        then [host_text U (uri_scheme U (rq_uri r)) a] else hm_get_all H (rq_headers r) n)"
    by (rule synthesize_host_effect[OF assms(1-3,5)])
  then show ?thesis
    using v uri_laws_display(1)[OF assms(1) v(2,3,4)] assms(4-6)
    by (auto simp: normalize_http1_request_def extract_origin_def)
qed

definition demo_request :: "(demo_uri, (header_name \<times> header_value) list, bytes) request" where
  "demo_request =
     \<lparr>rq_method = ''GET'', rq_uri = (Some ''https'', Some ''a.example:443'', Some ''/x?y''),
      rq_version = HTTP_11, rq_headers = [(''accept'', ''all'')], rq_body = []\<rparr>"

definition ported_request :: "(demo_uri, (header_name \<times> header_value) list, bytes) request" where
  "ported_request = demo_request\<lparr>rq_uri := (Some ''http'', Some ''a.example:8080'', Some ''/x?y'')\<rparr>"

theorem normalize_absolute_witness:
  "extract_origin demo_uris (rq_uri ported_request) False =
     Some (Inr \<lparr>origin_scheme = ''http'', origin_authority = ''a.example:8080''\<rparr>, rq_uri ported_request) \<and>
   (\<exists>r'. normalize_http1_request demo_uris alist_headers demo_fields True ported_request = Some r' \<and>
      uri_display demo_uris (rq_uri r') = ''/x?y'' \<and>
      hm_get_all alist_headers (rq_headers r') ''host'' = [''a.example:8080''])"
proof -
  have pre: "uri_scheme demo_uris (rq_uri ported_request) = Some ''http''"
    "uri_authority demo_uris (rq_uri ported_request) = Some ''a.example:8080''"
    "rq_method ported_request \<noteq> ''CONNECT''" by code_simp+
  note inst = normalize_absolute[OF uri_laws_demo header_laws_alist value_laws_demo pre]
  have eval: "uri_path_and_query demo_uris (rq_uri ported_request) = Some ''/x?y''"
    "hm_get_all alist_headers (rq_headers ported_request) ''host'' = []"
    "host_text demo_uris (Some ''http'') ''a.example:8080'' = ''a.example:8080''" by code_simp+
  obtain r' where "normalize_http1_request demo_uris alist_headers demo_fields True ported_request = Some r'"
    "uri_display demo_uris (rq_uri r') = ''/x?y''"
    "hm_get_all alist_headers (rq_headers r') ''host'' = [''a.example:8080'']"
    using inst[of True] eval by auto
  with inst show ?thesis by blast
qed

text \<open>
  Normalisation of a CONNECT request in authority form.  The origin's scheme is
  \<open>https\<close> exactly when the target names port 443; the rewritten request cannot panic and its
  target on the wire is the authority itself; when the Host header is synthesised for port
  443 or 80, the port is left out.
\<close>

theorem normalize_connect:
  assumes "uri_laws U" "header_laws H" "value_laws F"
    and "uri_scheme U (rq_uri r) = None" "uri_authority U (rq_uri r) = Some a"
    and "rq_method r = ''CONNECT''"
  shows "\<exists>u' r'. extract_origin U (rq_uri r) True =
           Some (Inr \<lparr>origin_scheme = (if authority_port_u16 U a = Some 443 then ''https'' else ''http''),
                      origin_authority = a\<rparr>, u') \<and>
         normalize_http1_request U H F set_host (r\<lparr>rq_uri := u'\<rparr>) = Some r' \<and>
         uri_display U (rq_uri r') = a \<and>
         (set_host \<longrightarrow> hm_get_all H (rq_headers r) ''host'' = [] \<longrightarrow>
            hm_get_all H (rq_headers r') ''host'' =
              [authority_host U a @
               (case authority_port U a of
                  Some p \<Rightarrow> if snd p = 443 \<or> snd p = 80 then [] else '':'' @ fst p
                | None \<Rightarrow> [])])"
proof -
  define sch where "sch = (if authority_port_u16 U a = Some 443 then ''https'' else ''http'')"
  have "sch \<in> {''http'', ''https''}" by (simp add: sch_def)
  then obtain u' where u': "uri_from_parts U (Some sch, Some a, Some ''/'') = Some u'"
    using uri_laws_valid(3)[OF assms(1,5), of sch] by blast
  note parts = uri_laws_parts[OF assms(1) u']
  have ex: "extract_origin U (rq_uri r) True =
      Some (Inr \<lparr>origin_scheme = sch, origin_authority = a\<rparr>, u')"
    using assms(4,5) u' by (simp add: extract_origin_def set_connect_scheme_def sch_def Let_def)
  obtain v where v: "authority_form U u' = Some v" "uri_scheme U v = None" "uri_authority U v = Some a"
    "uri_path_and_query U v = None"
    by (rule authority_form_parts[OF assms(1) parts(2)])
  let ?r = "r\<lparr>rq_uri := u'\<rparr>"
  obtain hs where hs: "(if set_host then synthesize_host U H F ?r else Some ?r) = Some (?r\<lparr>rq_headers := hs\<rparr>)"
    "\<forall>n. hm_get_all H hs n =
       (if set_host \<and> n = ''host'' \<and> hm_get_all H (rq_headers ?r) n = []
        then [host_text U (uri_scheme U (rq_uri ?r)) a] else hm_get_all H (rq_headers ?r) n)"
    by (rule synthesize_host_effect[OF assms(1-3), of ?r a set_host]) (auto simp: parts)
  have "host_text U (uri_scheme U u') a = authority_host U a @
      (case authority_port U a of
         Some p \<Rightarrow> if snd p = 443 \<or> snd p = 80 then [] else '':'' @ fst p | None \<Rightarrow> [])"
    using parts by (auto simp: host_text_def scheme_port_def sch_def authority_port_u16_def split: option.splits if_splits)
  then show ?thesis
    using ex v uri_laws_display(2)[OF assms(1) v(2,3,4)] hs assms(6)
    by (auto simp: normalize_http1_request_def sch_def)
qed

theorem normalize_connect_witness:
  "\<exists>u' r'. extract_origin demo_uris (None, Some ''h:443'', None) True =
     Some (Inr \<lparr>origin_scheme = ''https'', origin_authority = ''h:443''\<rparr>, u') \<and>
   normalize_http1_request demo_uris alist_headers demo_fields True
     (demo_request\<lparr>rq_method := ''CONNECT'', rq_uri := u'\<rparr>) = Some r' \<and>
   uri_display demo_uris (rq_uri r') = ''h:443'' \<and>
   hm_get_all alist_headers (rq_headers r') ''host'' = [''h'']"
proof -
  let ?r = "demo_request\<lparr>rq_method := ''CONNECT'', rq_uri := (None, Some ''h:443'', None)\<rparr>"
  have pre: "uri_scheme demo_uris (rq_uri ?r) = None" "uri_authority demo_uris (rq_uri ?r) = Some ''h:443''"
    "rq_method ?r = ''CONNECT''" "hm_get_all alist_headers (rq_headers ?r) ''host'' = []"
    by code_simp+
  have eval: "authority_port_u16 demo_uris ''h:443'' = Some 443"
    "authority_port demo_uris ''h:443'' = Some (''443'', 443)" "authority_host demo_uris ''h:443'' = ''h''"
    by code_simp+
  show ?thesis
    using normalize_connect[OF uri_laws_demo header_laws_alist value_laws_demo pre(1-3), of True] pre(4) eval
    by simp
qed

end
