(* ===== verification/Sync_Client.thy ===== *)
theory Sync_Client
  imports Sync_Chunked Client_Normalize
begin

text \<open>
  The blocking client (\<^verbatim>\<open>src/crates/h12tiny-client-sync/src/lib.rs\<close>): name resolution and TCP
  connection attempts, the TLS handshake, writing a request, reading a response head, and the
  request function that composes them.

  The network is a parameter: \<open>resolve\<close> is the resolver, \<open>dial\<close> one TCP connection attempt.
  The TLS library is a parameter as well.  A function that may fail to return, because the
  source retries an interrupted write without bound, skips interim responses without bound, or
  panics, answers an option; None is "does not return".
\<close>

section \<open>Model: connections\<close>

record 'a net_env =
  resolve :: "string \<Rightarrow> u16 \<Rightarrow> (io_error, 'a list) result"
  dial :: "'a \<Rightarrow> duration option \<Rightarrow> (io_error, tcp_stream) result"

fun connect_loop ::
  "'a net_env \<Rightarrow> duration option \<Rightarrow> io_error option \<Rightarrow> 'a list \<Rightarrow> (io_error, tcp_stream) result" where
  "connect_loop N timeout last_error [] =
     Inl (case last_error of
            Some e \<Rightarrow> e
          | None \<Rightarrow> IoError InvalidInput
              ''could not resolve the direct-origin host to a socket address'')"
| "connect_loop N timeout last_error (address # addresses) =
     (case dial N address timeout of
        Inr stream \<Rightarrow> Inr stream
      | Inl e \<Rightarrow> connect_loop N timeout (Some e) addresses)"

definition connect_tcp ::
  "'a net_env \<Rightarrow> string \<Rightarrow> u16 \<Rightarrow> duration option \<Rightarrow> (io_error, tcp_stream) result" where
  "connect_tcp N host port timeout =
     (case resolve N host port of
        Inl e \<Rightarrow> Inl e
      | Inr addresses \<Rightarrow> connect_loop N timeout None addresses)"

record 'cfg sync_client =
  connect_timeout :: "duration option"
  set_host :: bool
  client_tls :: "'cfg option"

text \<open>The client's builder; \<open>tls\<close> is the default configuration of a build with the TLS feature.\<close>

definition sync_builder_new :: "'cfg option \<Rightarrow> 'cfg sync_client" where
  "sync_builder_new tls = \<lparr>connect_timeout = None, set_host = True, client_tls = tls\<rparr>"

definition sync_client_new :: "'cfg option \<Rightarrow> 'cfg sync_client" where
  "sync_client_new tls = sync_builder_new tls"

definition sb_connect_timeout :: "duration \<Rightarrow> 'cfg sync_client \<Rightarrow> 'cfg sync_client" where
  "sb_connect_timeout t c = c\<lparr>connect_timeout := Some t\<rparr>"

definition sb_set_host :: "bool \<Rightarrow> 'cfg sync_client \<Rightarrow> 'cfg sync_client" where
  "sb_set_host enabled c = c\<lparr>set_host := enabled\<rparr>"

definition sb_tls_config :: "'cfg \<Rightarrow> 'cfg sync_client \<Rightarrow> 'cfg sync_client" where
  "sb_tls_config config c = c\<lparr>client_tls := Some config\<rparr>"

text \<open>
  Operations of the TLS library during the handshake.  \<open>client_tls\<close> is None in a build without
  the TLS feature.
\<close>

record ('cfg, 't) handshake_ops =
  server_name_ok :: "string \<Rightarrow> bool"
  session_new :: "'cfg \<Rightarrow> string \<Rightarrow> (string, 't) result"
  complete_io :: "'t \<Rightarrow> tcp_stream \<Rightarrow> (io_error, unit) result \<times> 't \<times> tcp_stream"
  alpn_protocol :: "'t \<Rightarrow> bytes option"

definition connect_tls ::
  "'a net_env \<Rightarrow> ('cfg, 't) handshake_ops \<Rightarrow> 'cfg sync_client \<Rightarrow> string \<Rightarrow> u16
     \<Rightarrow> (error, 't connection) result" where
  "connect_tls N K c host port =
     (case client_tls c of
        None \<Rightarrow> Inl (error_new TlsUnavailable)
      | Some cfg \<Rightarrow>
          (case connect_tcp N host port (connect_timeout c) of
             Inl e \<Rightarrow> Inl (error_from_io Connect e)
           | Inr s0 \<Rightarrow>
          (case tcp_set_both s0 (connect_timeout c) (connect_timeout c) of
             (Inl e, _) \<Rightarrow> Inl (error_from_io TlsError e)
           | (Inr _, s1) \<Rightarrow>
          if \<not> server_name_ok K host
          then Inl (error_with_source TlsError (InvalidServerName host))
          else
          (case session_new K cfg host of
             Inl e \<Rightarrow> Inl (error_with_source TlsError (RustlsSource e))
           | Inr session \<Rightarrow>
          (case complete_io K session s1 of
             (Inl e, _) \<Rightarrow> Inl (error_from_io TlsError e)
           | (Inr _, session', s2) \<Rightarrow>
          (case alpn_protocol K session' of
             Some p \<Rightarrow>
               if p = ''http/1.1'' then
                 (case tcp_set_both s2 None None of
                    (Inl e, _) \<Rightarrow> Inl (error_from_io TlsError e)
                  | (Inr _, s3) \<Rightarrow> Inr (Tls (session', s3)))
               else Inl (error_with_source Alpn (UnsupportedAlpn p))
           | None \<Rightarrow>
               (case tcp_set_both s2 None None of
                  (Inl e, _) \<Rightarrow> Inl (error_from_io TlsError e)
                | (Inr _, s3) \<Rightarrow> Inr (Tls (session', s3)))))))))"

definition strip_brackets :: "string \<Rightarrow> string" where
  "strip_brackets host =
     (case Option.bind (strip_prefix ''['' host) (strip_suffix '']'') of
        Some inner \<Rightarrow> inner
      | None \<Rightarrow> host)"

definition sync_connect ::
  "'u uri_ops \<Rightarrow> 'a net_env \<Rightarrow> ('cfg, 't) handshake_ops \<Rightarrow> 'cfg sync_client \<Rightarrow> origin
     \<Rightarrow> (error, 't connection) result option" where
  "sync_connect U N K c og =
     map_option
       (\<lambda>uri.
          case uri_host U uri of
            None \<Rightarrow> Inl (error_new Connect)
          | Some host0 \<Rightarrow>
              (let host = strip_brackets host0;
                   scheme = (case uri_scheme U uri of Some s \<Rightarrow> s | None \<Rightarrow> []);
                   port = (\<lambda>d. case uri_port U uri of Some p \<Rightarrow> snd p | None \<Rightarrow> d)
               in if scheme = ''http'' then
                    (case connect_tcp N host (port 80) (connect_timeout c) of
                       Inl e \<Rightarrow> Inl (error_from_io Connect e)
                     | Inr s \<Rightarrow> Inr (Tcp s))
                  else if scheme = ''https'' then connect_tls N K c host (port 443)
                  else Inl (error_with_source UnsupportedScheme
                         (IoSource (IoError InvalidInput
                            (''unsupported URI scheme '' @ debug_text scheme))))))
       (origin_uri U og)"

section \<open>Model: writing a request\<close>

text \<open>\<^verbatim>\<open>Write::write_all\<close> of the standard library, which retries interrupted writes.\<close>

type_synonym 'c writer = "'c \<Rightarrow> bytes \<Rightarrow> (io_error, nat) result \<times> 'c"

partial_function (option) write_all ::
  "'c writer \<Rightarrow> 'c \<Rightarrow> bytes \<Rightarrow> ((io_error, unit) result \<times> 'c) option" where
  "write_all wr c bs =
     (if bs = [] then Some (Inr (), c)
      else case wr c bs of (r, c') \<Rightarrow>
        (case r of
           Inl e \<Rightarrow> if io_error_kind e = Interrupted then write_all wr c' bs else Some (Inl e, c')
         | Inr n \<Rightarrow>
             if n = 0 then Some (Inl (IoError WriteZero ''failed to write whole buffer''), c')
             else write_all wr c' (drop n bs)))"

fun write_pieces ::
  "'c writer \<Rightarrow> 'c \<Rightarrow> bytes list \<Rightarrow> ((io_error, unit) result \<times> 'c) option" where
  "write_pieces wr c [] = Some (Inr (), c)"
| "write_pieces wr c (p # ps) =
     (case write_all wr c p of
        None \<Rightarrow> None
      | Some (Inl e, c') \<Rightarrow> Some (Inl e, c')
      | Some (Inr _, c') \<Rightarrow> write_pieces wr c' ps)"

definition default_framing ::
  "'h header_ops \<Rightarrow> field_ops \<Rightarrow> 'h \<Rightarrow> nat \<Rightarrow> 'h option" where
  "default_framing H F hs len =
     (if \<not> hm_contains_key H hs ''content-length'' \<and> \<not> hm_contains_key H hs ''transfer-encoding''
      then map_option (hm_insert H hs ''content-length'') (header_value_from_str F (show_radix 10 len))
      else Some hs)"

definition default_connection :: "'h header_ops \<Rightarrow> 'h \<Rightarrow> 'h" where
  "default_connection H hs =
     (if hm_contains_key H hs ''connection'' then hs else hm_insert H hs ''connection'' ''close'')"

definition request_pieces ::
  "'u uri_ops \<Rightarrow> 'h header_ops \<Rightarrow> ('u, 'h, bytes) request \<Rightarrow> 'h \<Rightarrow> bytes list" where
  "request_pieces U H r hs =
     [rq_method r, '' '', uri_display U (rq_uri r), '' HTTP/1.1'' @ crlf]
     @ concat (map (\<lambda>(n, v). [n, '': '', v, crlf]) (hm_iter H hs))
     @ [crlf, rq_body r]"

definition write_request ::
  "'u uri_ops \<Rightarrow> 'h header_ops \<Rightarrow> field_ops \<Rightarrow> 't tls_ops \<Rightarrow> 't connection \<Rightarrow> ('u, 'h, bytes) request
     \<Rightarrow> ((error, unit) result \<times> 't connection) option" where
  "write_request U H F T c r =
     (case default_framing H F (rq_headers r) (length (rq_body r)) of
        None \<Rightarrow> None
      | Some hs0 \<Rightarrow>
          (case write_pieces (conn_write T) c (request_pieces U H r (default_connection H hs0)) of
             None \<Rightarrow> None
           | Some (Inl e, c') \<Rightarrow> Some (Inl (error_from_io SendRequest e), c')
           | Some (Inr _, c') \<Rightarrow>
               (case conn_flush T c' of
                  (Inl e, c'') \<Rightarrow> Some (Inl (error_from_io SendRequest e), c'')
                | (Inr _, c'') \<Rightarrow> Some (Inr (), c''))))"

section \<open>Model: reading a response\<close>

function read_response_head ::
  "'c reader \<Rightarrow> 'c \<Rightarrow> bytes \<Rightarrow> (error, nat) result \<times> 'c \<times> bytes" where
  "read_response_head rd c buf =
     (case find_head_end buf of
        Some e \<Rightarrow> (Inr e, c, buf)
      | None \<Rightarrow>
          if length buf \<ge> MAX_RESPONSE_HEAD_BYTES
          then (Inl (response_error ''HTTP response headers exceed the configured limit''), c, buf)
          else
            (case rd c 4096 of
               (Inl e, c') \<Rightarrow> (Inl (error_from_io ResponseError e), c', buf)
             | (Inr bs, c') \<Rightarrow>
                 if bs = []
                 then (Inl (response_error ''connection closed before HTTP response headers''), c', buf)
                 else read_response_head rd c' (buf @ bs)))"
  by pat_completeness auto
termination
  by (relation "measure (\<lambda>(rd, c, buf). MAX_RESPONSE_HEAD_BYTES - length buf)")
    (auto simp: neq_Nil_conv)

declare read_response_head.simps [simp del]

partial_function (option) read_response ::
  "'h header_ops \<Rightarrow> field_ops \<Rightarrow> 'c reader \<Rightarrow> bool \<Rightarrow> 'c \<Rightarrow> bytes
     \<Rightarrow> (error, ('h, 'c response_body) response) result option" where
  "read_response H F rd head_request c buf0 =
     (case read_response_head rd c buf0 of (r, c', buf) \<Rightarrow>
        (case r of
           Inl e \<Rightarrow> Some (Inl e)
         | Inr e \<Rightarrow>
             (case parse_response_head H F (take e buf) of
                Inl err \<Rightarrow> Some (Inl err)
              | Inr (status, version, headers) \<Rightarrow>
                  if status_is_informational F status \<and> status \<noteq> 101
                  then read_response H F rd head_request c' (drop 4 (drop e buf))
                  else if status = 101 then Some (Inl (error_new UnsupportedUpgrade))
                  else
                    (case response_body_mode H F headers status head_request of
                       Inl err \<Rightarrow> Some (Inl err)
                     | Inr md \<Rightarrow>
                         Some (Inr \<lparr>rs_status = status, rs_version = version, rs_headers = headers,
                           rs_body = \<lparr>body_connection = c', buffered = drop 4 (drop e buf),
                                      mode = md\<rparr>\<rparr>)))))"

section \<open>Model: a request\<close>

definition request_with_timeout ::
  "'u uri_ops \<Rightarrow> 'h header_ops \<Rightarrow> field_ops \<Rightarrow> 'a net_env \<Rightarrow> ('cfg, 't) handshake_ops \<Rightarrow> 't tls_ops
     \<Rightarrow> 'cfg sync_client \<Rightarrow> ('u, 'h, bytes) request \<Rightarrow> duration option
     \<Rightarrow> (error, ('h, 't connection response_body) response) result option" where
  "request_with_timeout U H F N K T c r timeout =
     (if timeout = Some 0 then Some (Inl (error_new Timeout))
      else if rq_version r \<noteq> HTTP_10 \<and> rq_version r \<noteq> HTTP_11
      then Some (Inl (error_new UnsupportedVersion))
      else case extract_origin U (rq_uri r) (rq_method r = ''CONNECT'') of
        None \<Rightarrow> None
      | Some (Inl _, _) \<Rightarrow> Some (Inl (error_with_source AbsoluteUriRequired UriSource))
      | Some (Inr og, u') \<Rightarrow>
          (case normalize_http1_request U H F (set_host c) (r\<lparr>rq_uri := u'\<rparr>) of
             None \<Rightarrow> None
           | Some r' \<Rightarrow>
          (case sync_connect U N K c og of
             None \<Rightarrow> None
           | Some (Inl e) \<Rightarrow> Some (Inl e)
           | Some (Inr conn0) \<Rightarrow>
          (case set_timeouts conn0 timeout timeout of
             (Inl e, _) \<Rightarrow> Some (Inl (error_from_io SendRequest e))
           | (Inr _, conn1) \<Rightarrow>
          (case write_request U H F T conn1 r' of
             None \<Rightarrow> None
           | Some (Inl e, _) \<Rightarrow> Some (Inl e)
           | Some (Inr _, conn2) \<Rightarrow>
               read_response H F (conn_read T) (rq_method r' = ''HEAD'') conn2 [])))))"

definition request_plain where
  "request_plain U H F N K T c r = request_with_timeout U H F N K T c r None"

end
