(* ===== verification/Sync_Request.thy ===== *)
theory Sync_Request
  imports Sync_Client
begin

text \<open>
  Correctness of the blocking client's request path: which address is connected, what a request
  looks like on the wire, that reading a response head always ends, and that interim responses
  are skipped without losing a byte.
\<close>

section \<open>Writing\<close>

context byte_sink
begin

text \<open>Whatever the sink does, it has been given a prefix of the bytes, and all of them on success.\<close>

definition given :: "'s \<Rightarrow> bytes \<Rightarrow> (io_error, unit) result \<times> 's \<Rightarrow> bool" where
  "given s bs res \<longleftrightarrow>
     (\<exists>n. written (snd res) = written s @ take n bs \<and> (fst res = Inr () \<longrightarrow> length bs \<le> n))"

lemma given_later:
  assumes "given s1 bs2 res" "written s1 = written s @ bs1"
  shows "given s (bs1 @ bs2) res"
proof -
  obtain n where "written (snd res) = written s1 @ take n bs2" "fst res = Inr () \<longrightarrow> length bs2 \<le> n"
    using assms(1) unfolding given_def by blast
  then show ?thesis
    unfolding given_def using assms(2) by (intro exI[of _ "length bs1 + n"]) auto
qed

lemma given_failed: "written s' = written s @ take n bs \<Longrightarrow> given s bs (Inl e, s')"
  unfolding given_def by auto

lemma write_all_given:
  assumes "write_all put s bs = Some res"
  shows "given s bs res"
proof -
  have "wr = put \<longrightarrow> given s bs res" if "write_all wr s bs = Some res" for wr s bs res
  proof (rule write_all.raw_induct[where P = "\<lambda>wr s bs res. wr = put \<longrightarrow> given s bs res", OF _ that])
    fix write_all wr s bs res
    assume ih: "\<And>wr s bs res. write_all wr s bs = Some res \<Longrightarrow> wr = put \<longrightarrow> given s bs res"
      and run: "(if bs = [] then Some (Inr (), s)
        else case wr s bs of (r, s') \<Rightarrow>
          (case r of
             Inl e \<Rightarrow> if io_error_kind e = Interrupted then write_all wr s' bs else Some (Inl e, s')
           | Inr n \<Rightarrow>
               if n = 0 then Some (Inl (IoError WriteZero ''failed to write whole buffer''), s')
               else write_all wr s' (drop n bs))) = Some res"
    show "wr = put \<longrightarrow> given s bs res"
    proof
      assume wr: "wr = put"
      obtain r s1 where p: "put s bs = (r, s1)" by fastforce
      have IH: "given s1 bs' res" if "write_all put s1 bs' = Some res" for bs'
        using ih[OF that] by simp
      show "given s bs res"
      proof (cases "bs = []")
        case True
        then show ?thesis using run by (auto simp: given_def)
      next
        case False
        show ?thesis
        proof (cases r)
          case (Inl e)
          have keep: "written s1 = written s" using write_err[of s bs e s1] p Inl by simp
          show ?thesis
            using run wr p False Inl IH[of bs] given_later[of s1 bs res s "[]"] given_failed[of s1 s 0] keep
            by (auto split: if_split_asm)
        next
          case (Inr n)
          have step: "written s1 = written s @ take n bs" using write_ok[of s bs n s1] p Inr by simp
          show ?thesis
            using run wr p False Inr IH[of "drop n bs"] given_failed[OF step] step
              given_later[of s1 "drop n bs" res s "take n bs"]
            by (auto split: if_split_asm)
        qed
      qed
    qed
  qed
  then show ?thesis using assms by simp
qed

lemma write_pieces_given:
  assumes "write_pieces put s ps = Some res"
  shows "given s (concat ps) res"
  using assms
proof (induction ps arbitrary: s)
  case (Cons p ps)
  obtain r s1 where w: "write_all put s p = Some (r, s1)" using Cons.prems by (auto split: option.split_asm)
  obtain n where n: "written s1 = written s @ take n p" "r = Inr () \<longrightarrow> length p \<le> n"
    using write_all_given[OF w] unfolding given_def by auto
  show ?case
  proof (cases r)
    case (Inl e)
    have "take n p = take (min n (length p)) (concat (p # ps))" by (simp add: min_def)
    then show ?thesis
      using Cons.prems w Inl given_failed[of s1 s "min n (length p)" "concat (p # ps)" e] n(1) by auto
  next
    case (Inr u)
    then show ?thesis
      using Cons.prems Cons.IH[of s1] w n given_later[of s1 "concat ps" res s p] by simp
  qed
qed (auto simp: given_def)

lemma write_all_complete:
  assumes "willing s"
  shows "\<exists>s'. write_all put s bs = Some (Inr (), s') \<and> written s' = written s @ bs \<and> willing s'"
  using assms
proof (induction "length bs" arbitrary: bs s rule: less_induct)
  case less
  show ?case
  proof (cases "bs = []")
    case True
    then show ?thesis using less.prems by (simp add: write_all.simps)
  next
    case False
    obtain n s1 where w: "put s bs = (Inr n, s1)" "0 < n" "willing s1"
      using write_willing[OF less.prems False] by blast
    have wr: "written s1 = written s @ take n bs" using write_ok[OF w(1)] by simp
    have "length (drop n bs) < length bs" using False w(2) by simp
    from less.hyps[OF this w(3)] obtain s' where
      "write_all put s1 (drop n bs) = Some (Inr (), s')" "written s' = written s1 @ drop n bs" "willing s'"
      by blast
    then show ?thesis using w wr False by (subst write_all.simps) simp
  qed
qed

lemma write_pieces_complete:
  assumes "willing s"
  shows "\<exists>s'. write_pieces put s ps = Some (Inr (), s') \<and> written s' = written s @ concat ps \<and> willing s'"
  using assms
proof (induction ps arbitrary: s)
  case (Cons p ps)
  obtain s1 where s1: "write_all put s p = Some (Inr (), s1)" "written s1 = written s @ p" "willing s1"
    using write_all_complete[OF Cons.prems] by blast
  then show ?case using Cons.IH[OF s1(3)] by auto
qed simp

end

definition header_lines :: "(header_name \<times> header_value) list \<Rightarrow> bytes" where
  "header_lines hs = concat (map (\<lambda>(n, v). n @ '': '' @ v @ crlf) hs)"

lemma concat_request_pieces:
  "concat (request_pieces U H r hs) =
     rq_method r @ '' '' @ uri_display U (rq_uri r) @ '' HTTP/1.1'' @ crlf
     @ header_lines (hm_iter H hs) @ crlf @ rq_body r"
proof -
  have "concat (concat (map (\<lambda>(n, v). [n, '': '', v, crlf]) xs)) = header_lines xs" for xs
    by (induction xs) (auto simp: header_lines_def)
  then show ?thesis by (simp add: request_pieces_def)
qed

lemma digits_visible: "visible_ascii (show_radix 10 n)"
  using show_radix_chars[of 10 _ n] unfolding visible_ascii_def list_all_iff by fastforce

lemma default_headers:
  assumes "header_laws H" "value_laws F"
  obtains hs0 where "default_framing H F hs len = Some hs0"
    "\<forall>n. hm_get_all H (default_connection H hs0) n =
       (if n = ''connection'' \<and> hm_get_all H hs n = [] then [''close'']
        else if n = ''content-length'' \<and> hm_get_all H hs ''content-length'' = []
                \<and> hm_get_all H hs ''transfer-encoding'' = []
        then [show_radix 10 len] else hm_get_all H hs n)"
proof -
  note get = header_laws_get_all[OF assms(1)]
  have str: "header_value_from_str F (show_radix 10 len) = Some (show_radix 10 len)"
    by (rule value_laws_from_str[OF assms(2) digits_visible])
  show thesis
  proof (cases "hm_get_all H hs ''content-length'' = [] \<and> hm_get_all H hs ''transfer-encoding'' = []")
    case True
    then show thesis
      by (intro that[of "hm_insert H hs ''content-length'' (show_radix 10 len)"])
        (auto simp: default_framing_def default_connection_def str get)
  next
    case False
    then show thesis
      by (intro that[of hs]) (auto simp: default_framing_def default_connection_def get)
  qed
qed

text \<open>Flushing a TLS session loses nothing, and succeeds on a session that accepts writes.\<close>

definition flush_ok ::
  "'t tls_ops \<Rightarrow> ('t \<times> tcp_stream \<Rightarrow> bytes) \<Rightarrow> ('t \<times> tcp_stream \<Rightarrow> bool) \<Rightarrow> bool" where
  "flush_ok T tw tg \<longleftrightarrow>
     (\<forall>s r s'. tls_stream_flush T s = (r, s') \<longrightarrow> tw s' = tw s \<and> (tg s \<longrightarrow> r = Inr ()))"

lemma conn_flush_ok:
  assumes "flush_ok T tw tg" "conn_flush T c = (r, c')"
  shows "conn_written tw c' = conn_written tw c" "conn_willing tg c \<longrightarrow> r = Inr ()"
  using assms unfolding flush_ok_def
  by (cases c; auto simp: tcp_flush_def apsnd_eq_pair)+

text \<open>The bytes of a request, given the headers it goes out with.\<close>

definition request_wire ::
  "'u uri_ops \<Rightarrow> 'h header_ops \<Rightarrow> ('u, 'h, bytes) request \<Rightarrow> 'h \<Rightarrow> bytes" where
  "request_wire U H r hs =
     rq_method r @ '' '' @ uri_display U (rq_uri r) @ '' HTTP/1.1'' @ crlf
     @ header_lines (hm_iter H hs) @ crlf @ rq_body r"

lemma write_request_pieces:
  assumes sink: "byte_sink (tls_stream_write T) tw tg" and flush: "flush_ok T tw tg"
    and hs0: "default_framing H F (rq_headers r) (length (rq_body r)) = Some hs0"
  shows "conn_willing tg c \<Longrightarrow> \<exists>c'. write_request U H F T c r = Some (Inr (), c')" (is "_ \<Longrightarrow> ?goal1")
    and "write_request U H F T c r = Some (res, c') \<Longrightarrow>
      \<exists>n. conn_written tw c' = conn_written tw c @ take n (request_wire U H r (default_connection H hs0)) \<and>
        (res = Inr () \<longrightarrow> length (request_wire U H r (default_connection H hs0)) \<le> n)" (is "_ \<Longrightarrow> ?goal2")
proof -
  let ?hs = "default_connection H hs0" and ?ps = "request_pieces U H r (default_connection H hs0)"
  have wire: "concat ?ps = request_wire U H r ?hs"
    by (simp add: concat_request_pieces request_wire_def)
  note csink = conn_byte_sink[OF sink]
  have unfold: "write_request U H F T c r = (case write_pieces (conn_write T) c ?ps of
      None \<Rightarrow> None | Some (Inl e, c1) \<Rightarrow> Some (Inl (error_from_io SendRequest e), c1)
      | Some (Inr _, c1) \<Rightarrow> (case conn_flush T c1 of
          (Inl e, c2) \<Rightarrow> Some (Inl (error_from_io SendRequest e), c2) | (Inr _, c2) \<Rightarrow> Some (Inr (), c2)))"
    using hs0 by (simp add: write_request_def)
  { assume "conn_willing tg c"
    then obtain c1 where "write_pieces (conn_write T) c ?ps = Some (Inr (), c1)" "conn_willing tg c1"
      using byte_sink.write_pieces_complete[OF csink] by blast
    then show ?goal1 using conn_flush_ok(2)[OF flush, of c1] unfold by (cases "conn_flush T c1") auto }
  { assume ran: "write_request U H F T c r = Some (res, c')"
    then obtain r1 c1 where w: "write_pieces (conn_write T) c ?ps = Some (r1, c1)"
      unfolding unfold by (auto split: option.split_asm)
    then obtain n where "conn_written tw c1 = conn_written tw c @ take n (request_wire U H r ?hs)"
      "r1 = Inr () \<longrightarrow> length (request_wire U H r ?hs) \<le> n"
      using byte_sink.write_pieces_given[OF csink w] unfolding byte_sink.given_def[OF csink] wire by auto
    then show ?goal2 using ran w conn_flush_ok(1)[OF flush, of c1] unfolding unfold
      by (intro exI[of _ n], cases r1; cases "conn_flush T c1") (auto split: sum.split_asm) }
qed

text \<open>
  C4. The request on the wire.  Whatever the connection does with the writes it is given, it is
  given a prefix of one byte string, and the whole of it when writing the request succeeds:
  the request line in origin or authority form as normalised, the header lines, an empty line
  and the body.  Over a connection whose writes make progress, writing returns and succeeds,
  however few bytes each write accepts.  The headers are the caller's, with a Content-Length
  equal to the decimal body length added exactly when the caller gave neither Content-Length
  nor Transfer-Encoding, and \<open>Connection: close\<close> added exactly when the caller gave no
  Connection header.
\<close>

theorem write_request_wire:
  assumes "header_laws H" "value_laws F"
    and "byte_sink (tls_stream_write T) tw tg" "flush_ok T tw tg"
  shows "\<exists>wire hs. wire = rq_method r @ '' '' @ uri_display U (rq_uri r)
       @ '' HTTP/1.1'' @ crlf @ header_lines (hm_iter H hs) @ crlf @ rq_body r \<and>
     (\<forall>n. map snd (filter (\<lambda>p. fst p = n) (hm_iter H hs)) =
       (if n = ''connection'' \<and> hm_get_all H (rq_headers r) n = [] then [''close'']
        else if n = ''content-length'' \<and> hm_get_all H (rq_headers r) ''content-length'' = []
                \<and> hm_get_all H (rq_headers r) ''transfer-encoding'' = []
        then [show_radix 10 (length (rq_body r))] else hm_get_all H (rq_headers r) n)) \<and>
     (\<forall>res c'. write_request U H F T c r = Some (res, c') \<longrightarrow>
        (\<exists>k. conn_written tw c' = conn_written tw c @ take k wire \<and> (res = Inr () \<longrightarrow> length wire \<le> k))) \<and>
     (conn_willing tg c \<longrightarrow> (\<exists>c'. write_request U H F T c r = Some (Inr (), c')))"
proof -
  obtain hs0 where hs0: "default_framing H F (rq_headers r) (length (rq_body r)) = Some hs0"
    "\<forall>n. hm_get_all H (default_connection H hs0) n =
       (if n = ''connection'' \<and> hm_get_all H (rq_headers r) n = [] then [''close'']
        else if n = ''content-length'' \<and> hm_get_all H (rq_headers r) ''content-length'' = []
                \<and> hm_get_all H (rq_headers r) ''transfer-encoding'' = []
        then [show_radix 10 (length (rq_body r))] else hm_get_all H (rq_headers r) n)"
    by (rule default_headers[OF assms(1,2)])
  note pieces = write_request_pieces[OF assms(3,4) hs0(1)]
  show ?thesis
    using pieces(1)[of c U] pieces(2)[of U c] hs0(2)[folded header_laws_get_all(5)[OF assms(1), of _ "default_connection H hs0"]]
    by (intro exI[of _ "request_wire U H r (default_connection H hs0)"] exI[of _ "default_connection H hs0"])
      (auto simp: request_wire_def)
qed

definition post_request :: "(demo_uri, (header_name \<times> header_value) list, bytes) request" where
  "post_request = demo_request\<lparr>rq_method := ''POST'', rq_uri := (None, None, Some ''/x''),
     rq_headers := [(''host'', ''a'')], rq_body := ''hi''\<rparr>"

text \<open>A socket that takes three bytes, then one, and then whatever it is given.\<close>

definition slow_socket :: "unit connection" where
  "slow_socket = Tcp ((tcp_of [])\<lparr>outgoing := [Accepts 3, Accepts 1]\<rparr>)"

theorem write_request_wire_witness:
  "\<exists>c' hs. write_request demo_uris alist_headers demo_fields plain_tls slow_socket post_request
      = Some (Inr (), c') \<and>
     conn_written (sent \<circ> snd) c' =
       ''POST /x HTTP/1.1'' @ crlf @ header_lines (hm_iter alist_headers hs) @ crlf @ ''hi'' \<and>
     map snd (filter (\<lambda>p. fst p = ''content-length'') (hm_iter alist_headers hs)) = [''2'']"
proof -
  have flush: "flush_ok plain_tls (sent \<circ> snd) (tcp_willing \<circ> snd)"
    by (auto simp: flush_ok_def plain_tls_def)
  have eval: "rq_method post_request = ''POST''" "rq_body post_request = ''hi''"
    "uri_display demo_uris (rq_uri post_request) = ''/x''"
    "hm_get_all alist_headers (rq_headers post_request) ''content-length'' = []"
    "hm_get_all alist_headers (rq_headers post_request) ''transfer-encoding'' = []"
    "show_radix 10 (length (''hi'' :: string)) = ''2''"
    "conn_written (sent \<circ> snd) slow_socket = []" "conn_willing (tcp_willing \<circ> snd) slow_socket"
    by code_simp+
  let ?run = "write_request demo_uris alist_headers demo_fields plain_tls slow_socket post_request"
  from write_request_wire[OF header_laws_alist value_laws_demo plain_tls_byte_sink flush,
      where r = post_request and U = demo_uris and c = slow_socket]
  obtain wire hs where wire: "wire = rq_method post_request @ '' '' @ uri_display demo_uris (rq_uri post_request)
       @ '' HTTP/1.1'' @ crlf @ header_lines (hm_iter alist_headers hs) @ crlf @ rq_body post_request"
    and len: "map snd (filter (\<lambda>p. fst p = ''content-length'') (hm_iter alist_headers hs)) =
      [show_radix 10 (length (rq_body post_request))]"
    and given: "\<And>res c'. ?run = Some (res, c') \<Longrightarrow> \<exists>k. conn_written (sent \<circ> snd) c' =
      conn_written (sent \<circ> snd) slow_socket @ take k wire \<and> (res = Inr () \<longrightarrow> length wire \<le> k)"
    and ok: "\<exists>c'. ?run = Some (Inr (), c')"
    using eval(4,5,8) by (elim exE conjE) simp
  from ok obtain c' where c': "?run = Some (Inr (), c')" by blast
  from given[OF c'] have "conn_written (sent \<circ> snd) c' = wire" unfolding eval(7) by auto
  with c' wire len show ?thesis unfolding eval(1-3,6) by auto
qed

section \<open>Reading response heads\<close>

abbreviation head_end :: bytes where "head_end \<equiv> [CR, LF, CR, LF]"

text \<open>A response head as it is framed on the wire, within the crate's limit.\<close>

definition head_framed :: "bytes \<Rightarrow> bool" where
  "head_framed h \<longleftrightarrow> find_head_end (h @ head_end) = Some (length h)
     \<and> length h + 4 \<le> MAX_RESPONSE_HEAD_BYTES"

lemma head_framed_append: "head_framed h \<Longrightarrow> windows_position head_end (h @ head_end @ rest) = Some (length h)"
  unfolding head_framed_def find_head_end_def
  using windows_position_append[of head_end "h @ head_end" "length h" rest] by simp

context byte_source
begin

lemma read_response_head_complete:
  assumes "healthy c" "buf @ pending c = h @ head_end @ rest" "head_framed h"
  shows "\<exists>c' ys. read_response_head read c buf = (Inr (length h), c', h @ head_end @ ys) \<and>
           healthy c' \<and> rest = ys @ pending c'"
  using assms
proof (induction "MAX_RESPONSE_HEAD_BYTES - length buf" arbitrary: c buf rule: less_induct)
  case less
  note first = head_framed_append[OF less.prems(3), of rest]
  show ?case
  proof (cases "find_head_end buf")
    case (Some e)
    obtain ys where "e = length h" "buf = h @ head_end @ ys" "rest = ys @ pending c"
      by (rule windows_position_buffered[OF Some[unfolded find_head_end_def] less.prems(2) first])
    then show ?thesis using Some less.prems(1) by (subst read_response_head.simps) simp
  next
    case None
    have short: "length buf < length h + 4"
      using windows_position_None_append[OF None[unfolded find_head_end_def], of "pending c" "length h"]
        first less.prems(2) by simp
    then have limit: "length buf < MAX_RESPONSE_HEAD_BYTES"
      using less.prems(3) by (simp add: head_framed_def)
    obtain bs c' where rd: "read c 4096 = (Inr bs, c')" "healthy c'" "pending c = bs @ pending c'"
      by (rule healthy_readE[OF less.prems(1)])
    have "pending c \<noteq> []"
      using short less.prems(2) by (auto dest: arg_cong[where f = length])
    then have bs: "bs \<noteq> []" using rd read_eof by fastforce
    have "\<exists>c'' ys. read_response_head read c' (buf @ bs) = (Inr (length h), c'', h @ head_end @ ys) \<and>
           healthy c'' \<and> rest = ys @ pending c''"
      using less.prems rd limit bs by (intro less.hyps) (auto simp: neq_Nil_conv)
    then show ?thesis using None limit rd bs by (subst read_response_head.simps) simp
  qed
qed

lemma read_response_head_sound:
  "read_response_head read c buf = (Inr e, c', buf') \<Longrightarrow>
     buf' @ pending c' = buf @ pending c \<and> find_head_end buf' = Some e"
proof (induction "MAX_RESPONSE_HEAD_BYTES - length buf" arbitrary: c buf rule: less_induct)
  case less
  show ?case
  proof (cases "find_head_end buf")
    case (Some x)
    then show ?thesis using less.prems by (subst (asm) read_response_head.simps) simp
  next
    case None
    with less.prems obtain bs c1 where rd: "read c 4096 = (Inr bs, c1)" "bs \<noteq> []"
      "length buf < MAX_RESPONSE_HEAD_BYTES" "read_response_head read c1 (buf @ bs) = (Inr e, c', buf')"
      by (subst (asm) read_response_head.simps)
        (auto split: if_splits prod.splits sum.splits)
    then have "buf' @ pending c' = (buf @ bs) @ pending c1 \<and> find_head_end buf' = Some e"
      by (intro less.hyps) (auto simp: neq_Nil_conv)
    then show ?thesis using read_ok[OF rd(1)] by simp
  qed
qed

lemma read_response_returns: "\<exists>r. read_response H F read hr c buf = Some r"
proof (induction "length (buf @ pending c)" arbitrary: c buf rule: less_induct)
  case less
  obtain r c' buf' where head: "read_response_head read c buf = (r, c', buf')"
    by (cases "read_response_head read c buf")
  show ?case
  proof (cases r)
    case (Inl e)
    with head show ?thesis by (subst read_response.simps) simp
  next
    case (Inr e)
    have s: "buf' @ pending c' = buf @ pending c" "find_head_end buf' = Some e"
      using read_response_head_sound head Inr by auto
    have "e + 4 \<le> length buf'"
      using windows_position_bound[of head_end buf' e] s(2) by (simp add: find_head_end_def)
    moreover have "length buf' + length (pending c') = length buf + length (pending c)"
      using arg_cong[OF s(1), of length] by simp
    ultimately have "length (drop 4 (drop e buf') @ pending c') < length (buf @ pending c)"
      by simp
    from less.hyps[OF this] obtain r' where
      "read_response H F read hr c' (drop 4 (drop e buf')) = Some r'" by blast
    then show ?thesis
      using head Inr by (subst read_response.simps) (auto split: sum.splits prod.splits)
  qed
qed

end

text \<open>One final head, after any number of interim responses.\<close>

definition interim_head :: "'h header_ops \<Rightarrow> field_ops \<Rightarrow> bytes \<Rightarrow> bool" where
  "interim_head H F h \<longleftrightarrow> head_framed h \<and>
     (case parse_response_head H F h of
        Inr (status, v, hs) \<Rightarrow> status_is_informational F status \<and> status \<noteq> 101
      | Inl e \<Rightarrow> False)"

definition encode_heads :: "bytes list \<Rightarrow> bytes" where
  "encode_heads hs = concat (map (\<lambda>h. h @ head_end) hs)"

context byte_source
begin

lemma read_response_interim:
  assumes "healthy c" "list_all (interim_head H F) ins" "head_framed h"
    and "parse_response_head H F h = Inr (status, version, headers)"
    and "\<not> status_is_informational F status" "status \<noteq> 101"
    and "response_body_mode H F headers status hr = Inr md"
    and "buf @ pending c = encode_heads ins @ h @ head_end @ rest"
  shows "\<exists>b. read_response H F read hr c buf =
           Some (Inr \<lparr>rs_status = status, rs_version = version, rs_headers = headers, rs_body = b\<rparr>) \<and>
           mode b = md \<and> body_pending pending b = rest \<and> body_healthy healthy b"
  using assms(1,2,8)
proof (induction ins arbitrary: c buf)
  case Nil
  obtain c' ys where "read_response_head read c buf = (Inr (length h), c', h @ head_end @ ys)"
    "healthy c'" "rest = ys @ pending c'"
    using read_response_head_complete[of c buf h rest] Nil assms(3) by (auto simp: encode_heads_def)
  then show ?case
    using assms(4-7) by (subst read_response.simps) (auto simp: body_pending_def body_healthy_def)
next
  case (Cons i ins)
  let ?rest = "encode_heads ins @ h @ head_end @ rest"
  have i: "interim_head H F i" "list_all (interim_head H F) ins" using Cons.prems(2) by auto
  have "buf @ pending c = i @ head_end @ ?rest" using Cons.prems(3) by (simp add: encode_heads_def)
  then obtain c' ys where head: "read_response_head read c buf = (Inr (length i), c', i @ head_end @ ys)"
    "healthy c'" "?rest = ys @ pending c'"
    using read_response_head_complete[of c buf i ?rest] Cons.prems(1) i(1)
    by (auto simp: interim_head_def)
  obtain st v hd where "parse_response_head H F i = Inr (st, v, hd)" "status_is_informational F st" "st \<noteq> 101"
    using i(1) by (auto simp: interim_head_def split: sum.splits)
  then have "read_response H F read hr c buf = read_response H F read hr c' ys"
    using head(1) by (subst read_response.simps) simp
  then show ?case using Cons.IH[OF head(2) i(2), of ys] head(3) by simp
qed

end

text \<open>
  C5. Reading a response returns.  Over every byte stream, healthy or failing, the loop that
  skips interim responses ends with a response or an error: each interim response it skips
  consumes at least four bytes of the stream.
\<close>

theorem read_response_terminates:
  assumes "byte_source (tls_stream_read T) tp th"
  shows "\<exists>r. read_response H F (conn_read T) head_request c buf = Some r"
  using byte_source.read_response_returns[OF conn_byte_source[OF assms]] .

theorem read_response_terminates_witness:
  "\<exists>r. read_response alist_headers demo_fields (conn_read plain_tls) False
         (Tcp (tcp_of (segments [''HTTP/1.1 100 '' @ head_end, ''HTTP/1.1 20'']))) [] = Some r"
  using read_response_terminates[OF plain_tls_byte_source] .

text \<open>
  C6. Interim responses are skipped and nothing is lost.  On a healthy stream that carries any
  number of interim responses (status 1xx other than 101), then a final head that parses and
  whose framing is accepted, and then anything, however the stream is segmented, the client
  returns the final status, version and headers, and a body that starts at the first byte
  after the final head.
\<close>

theorem read_response_final:
  assumes "byte_source (tls_stream_read T) tp th" "conn_healthy th c"
    and "list_all (interim_head H F) ins" "head_framed h"
    and "parse_response_head H F h = Inr (status, version, headers)"
    and "\<not> status_is_informational F status" "status \<noteq> 101"
    and "response_body_mode H F headers status head_request = Inr md"
    and "conn_pending tp c = encode_heads ins @ h @ head_end @ rest"
  shows "\<exists>b. read_response H F (conn_read T) head_request c [] =
           Some (Inr \<lparr>rs_status = status, rs_version = version, rs_headers = headers, rs_body = b\<rparr>) \<and>
           mode b = md \<and> body_pending (conn_pending tp) b = rest \<and> body_healthy (conn_healthy th) b"
  using byte_source.read_response_interim[OF conn_byte_source[OF assms(1)] assms(2-8), of "[]" rest] assms(9)
  by simp

definition demo_head :: bytes where
  "demo_head = ''HTTP/1.1 200 OK'' @ crlf @ ''Content-Length: 5''"

definition demo_interim :: bytes where
  "demo_interim = ''HTTP/1.1 103 Early Hints''"

theorem read_response_final_witness:
  "\<exists>b. read_response alist_headers demo_fields (conn_read plain_tls) False
         (Tcp (tcp_of (segments [''HTTP/1.1 103 Ear'', ''ly Hints'' @ head_end @ ''H'',
            ''TTP/1.1 200 OK'' @ crlf @ ''Content-Length: 5'' @ [CR], [LF] @ crlf @ ''hel'', ''lo'']))) [] =
       Some (Inr \<lparr>rs_status = 200, rs_version = HTTP_11, rs_headers = [(''content-length'', ''5'')],
                  rs_body = b\<rparr>) \<and>
     mode b = BodyContentLength 5 \<and> body_pending (conn_pending (tcp_pending \<circ> snd)) b = ''hello'' \<and>
     body_healthy (conn_healthy (tcp_healthy \<circ> snd)) b"
proof (rule read_response_final[OF plain_tls_byte_source, where ins = "[demo_interim]" and h = demo_head])
  show "list_all (interim_head alist_headers demo_fields) [demo_interim]" by code_simp
  show "head_framed demo_head" by code_simp
  show "parse_response_head alist_headers demo_fields demo_head =
      Inr (200, HTTP_11, [(''content-length'', ''5'')])" by code_simp
  show "response_body_mode alist_headers demo_fields [(''content-length'', ''5'')] 200 False =
      Inr (BodyContentLength 5)" by code_simp
  show "\<not> status_is_informational demo_fields 200" by code_simp
  show "(200 :: status_code) \<noteq> 101" by simp
qed code_simp+

section \<open>Connecting\<close>

text \<open>
  Address selection.  The blocking client tries the resolved addresses in order and
  returns the first stream that connects; if every attempt fails it reports the last failure,
  and if there was no address at all an invalid-input error.
\<close>

lemma connect_loop_spec:
  "connect_loop N t le as =
     (let rs = map (\<lambda>a. dial N a t) as in
      case filter (\<lambda>r. \<not> isl r) rs of
        r # _ \<Rightarrow> r
      | [] \<Rightarrow> if as = [] then connect_loop N t le [] else last rs)"
  by (induction N t le as rule: connect_loop.induct)
    (auto simp: Let_def split: sum.splits list.splits option.splits)

theorem connect_tcp_spec:
  "connect_tcp N host port t =
     (case resolve N host port of
        Inl e \<Rightarrow> Inl e
      | Inr addresses \<Rightarrow>
          (let attempts = map (\<lambda>a. dial N a t) addresses in
           case filter (\<lambda>r. \<not> isl r) attempts of
             first_success # _ \<Rightarrow> first_success
           | [] \<Rightarrow>
               if addresses = []
               then Inl (IoError InvalidInput
                      ''could not resolve the direct-origin host to a socket address'')
               else last attempts))"
proof (cases "resolve N host port")
  case (Inr addresses)
  then show ?thesis
    using connect_loop_spec[of N t None addresses] by (simp add: connect_tcp_def Let_def)
qed (simp add: connect_tcp_def)

lemma tcp_set_both_Inr:
  "tcp_set_both s rt wt = (Inr u, s') \<Longrightarrow> s' = s\<lparr>tcp_read_timeout := rt, tcp_write_timeout := wt\<rparr>"
  by (auto simp: tcp_set_both_def tcp_set_read_timeout_def tcp_set_write_timeout_def split: if_splits)

text \<open>
  Where an origin is: the host its authority names, an IPv6 literal without the brackets around
  it, and the port its authority names, or the one of its scheme.  \<open>dialled\<close> holds of the streams
  that dialling a resolved address can return.
\<close>

definition bare_host :: "string \<Rightarrow> string" where
  "bare_host h =
     (if length h \<ge> 2 \<and> hd h = CHR ''['' \<and> last h = CHR '']'' then butlast (tl h) else h)"

lemma strip_brackets_bare: "strip_brackets h = bare_host h"
proof (cases h)
  case (Cons c cs)
  show ?thesis
  proof (cases cs rule: rev_cases)
    case (snoc ds d)
    then show ?thesis using Cons by (auto simp: strip_brackets_def bare_host_def strip_prefix_def strip_suffix_def)
  qed (use Cons in \<open>auto simp: strip_brackets_def bare_host_def strip_prefix_def strip_suffix_def\<close>)
qed (simp add: strip_brackets_def bare_host_def strip_prefix_def)

definition origin_host :: "'u uri_ops \<Rightarrow> origin \<Rightarrow> string" where
  "origin_host U og = bare_host (authority_host U (origin_authority og))"

definition origin_port :: "'u uri_ops \<Rightarrow> origin \<Rightarrow> u16" where
  "origin_port U og =
     (case authority_port U (origin_authority og) of
        Some p \<Rightarrow> snd p
      | None \<Rightarrow> if origin_scheme og = ''https'' then 443 else 80)"

definition dialled :: "'a net_env \<Rightarrow> string \<Rightarrow> u16 \<Rightarrow> duration option \<Rightarrow> tcp_stream \<Rightarrow> bool" where
  "dialled N host port t s \<longleftrightarrow>
     (case resolve N host port of Inl e \<Rightarrow> False | Inr as \<Rightarrow> \<exists>a \<in> set as. dial N a t = Inr s)"

lemma connect_tcp_dialled: "connect_tcp N host port t = Inr s \<Longrightarrow> dialled N host port t s"
proof -
  have "connect_loop N t le as = Inr s \<Longrightarrow> \<exists>a \<in> set as. dial N a t = Inr s" for le as
    by (induction N t le as rule: connect_loop.induct) (auto split: sum.splits option.splits)
  then show "connect_tcp N host port t = Inr s \<Longrightarrow> dialled N host port t s"
    by (auto simp: connect_tcp_def dialled_def split: sum.splits)
qed

text \<open>
  \<open>secured K c host s0 t s\<close>: a TLS session over the socket \<open>s0\<close> for the server name \<open>host\<close>, whose
  handshake, under the connect-phase timeouts, led to the session \<open>t\<close> and the socket \<open>s\<close> without
  timeouts.
\<close>

definition secured ::
  "('cfg, 't) handshake_ops \<Rightarrow> 'cfg sync_client \<Rightarrow> string \<Rightarrow> tcp_stream \<Rightarrow> 't \<Rightarrow> tcp_stream \<Rightarrow> bool" where
  "secured K c host s0 t s \<longleftrightarrow>
     (\<exists>cfg session s1. client_tls c = Some cfg \<and> server_name_ok K host \<and> session_new K cfg host = Inr session \<and>
        complete_io K session (s0\<lparr>tcp_read_timeout := connect_timeout c, tcp_write_timeout := connect_timeout c\<rparr>)
          = (Inr (), t, s1) \<and>
        s = s1\<lparr>tcp_read_timeout := None, tcp_write_timeout := None\<rparr>)"

lemma connect_tls_Inr:
  assumes "connect_tls N K c host port = Inr conn"
  obtains s0 t s where "conn = Tls (t, s)" "dialled N host port (connect_timeout c) s0" "secured K c host s0 t s"
    "alpn_protocol K t \<in> {None, Some ''http/1.1''}"
proof -
  from assms obtain cfg s0 s1 session t s2 s u where step:
    "client_tls c = Some cfg" "connect_tcp N host port (connect_timeout c) = Inr s0"
    "tcp_set_both s0 (connect_timeout c) (connect_timeout c) = (Inr u, s1)"
    "server_name_ok K host" "session_new K cfg host = Inr session" "complete_io K session s1 = (Inr (), t, s2)"
    "alpn_protocol K t \<in> {None, Some ''http/1.1''}" "tcp_set_both s2 None None = (Inr u, s)" "conn = Tls (t, s)"
    unfolding connect_tls_def by (auto split: option.splits sum.splits prod.splits if_splits)
  have "secured K c host s0 t s"
    unfolding secured_def using step(1,4,5,6) tcp_set_both_Inr[OF step(3)] tcp_set_both_Inr[OF step(8)] by auto
  then show thesis using that[of t s s0] step connect_tcp_dialled[OF step(2)] by blast
qed

text \<open>
  C7. Destination, transport and protocol of a connection.  A connection handed to the request
  path is over a socket that was opened by dialling an address which resolving the host of the
  origin and its port returned.  It is that socket itself, and only for an \<open>http\<close> origin, or, and
  only for an \<open>https\<close> origin, the TLS session that was created for the host of the origin as
  server name and completed its handshake over that socket, which has negotiated \<open>http/1.1\<close> or no
  protocol at all; its socket is the one the handshake left, without the connect-phase timeouts.
\<close>

theorem connection_matches_origin:
  assumes "uri_laws U" "sync_connect U N K c og = Some (Inr conn)"
  shows "\<exists>s0. dialled N (origin_host U og) (origin_port U og) (connect_timeout c) s0 \<and>
     (case conn of
        Tcp s \<Rightarrow> origin_scheme og = ''http'' \<and> s = s0
      | Tls (t, s) \<Rightarrow> origin_scheme og = ''https'' \<and> secured K c (origin_host U og) s0 t s \<and>
          alpn_protocol K t \<in> {None, Some ''http/1.1''})"
proof -
  obtain uri where uri: "origin_uri U og = Some uri"
    using assms(2) by (auto simp: sync_connect_def)
  then have parts: "uri_scheme U uri = Some (origin_scheme og)"
    "uri_host U uri = Some (authority_host U (origin_authority og))"
    "uri_port U uri = authority_port U (origin_authority og)"
    using uri_laws_parts(1,2)[OF assms(1)] unfolding origin_uri_def uri_host_def uri_port_def by simp_all
  consider "origin_scheme og = ''http''" | "origin_scheme og = ''https''"
    using assms(2) uri parts by (auto simp: sync_connect_def Let_def split: if_splits)
  then show ?thesis
  proof cases
    case 1
    with assms(2) uri parts show ?thesis
      by (auto simp: sync_connect_def Let_def origin_host_def origin_port_def strip_brackets_bare
          split: sum.splits intro!: connect_tcp_dialled)
  next
    case 2
    then have "connect_tls N K c (origin_host U og) (origin_port U og) = Inr conn"
      using assms(2) uri parts by (simp add: sync_connect_def origin_host_def origin_port_def strip_brackets_bare)
    then show ?thesis by (rule connect_tls_Inr) (use 2 in auto)
  qed
qed

definition demo_net :: "net_event list \<Rightarrow> nat net_env" where
  "demo_net es =
     \<lparr>resolve = (\<lambda>h p. Inr [0, 1]),
      dial = (\<lambda>a t. if a = 0 then Inl (IoError ConnectionRefused ''refused'') else Inr (tcp_of es))\<rparr>"

definition demo_handshake :: "(unit, unit) handshake_ops" where
  "demo_handshake =
     \<lparr>server_name_ok = (\<lambda>h. True), session_new = (\<lambda>cfg h. Inr ()),
      complete_io = (\<lambda>t s. (Inr (), t, s)), alpn_protocol = (\<lambda>t. Some ''http/1.1'')\<rparr>"

definition demo_client :: "unit sync_client" where
  "demo_client = \<lparr>connect_timeout = Some 5, set_host = True, client_tls = Some ()\<rparr>"

theorem connection_matches_origin_witness:
  "\<exists>s s0. sync_connect demo_uris (demo_net []) demo_handshake demo_client
        \<lparr>origin_scheme = ''https'', origin_authority = ''h''\<rparr> = Some (Inr (Tls ((), s))) \<and>
      dialled (demo_net []) ''h'' 443 (Some 5) s0 \<and> secured demo_handshake demo_client ''h'' s0 () s"
proof -
  let ?og = "\<lparr>origin_scheme = ''https'', origin_authority = ''h''\<rparr>"
  have eval: "sync_connect demo_uris (demo_net []) demo_handshake demo_client ?og =
      Some (Inr (Tls ((), tcp_of [])))" by code_simp
  have place: "origin_host demo_uris ?og = ''h''" "origin_port demo_uris ?og = 443"
    "connect_timeout demo_client = Some 5" by code_simp+
  from connection_matches_origin[OF uri_laws_demo eval] show ?thesis
    unfolding place using eval by auto
qed

section \<open>A whole exchange\<close>

lemma set_timeouts_Tcp:
  assumes "timeout \<noteq> Some 0"
  shows "set_timeouts (Tcp s) timeout timeout =
     (Inr (), Tcp (s\<lparr>tcp_read_timeout := timeout, tcp_write_timeout := timeout\<rparr>))"
  using assms by (cases timeout)
    (auto simp: tcp_set_both_def tcp_set_read_timeout_def tcp_set_write_timeout_def zero_timeout_def)

lemma tcp_write_willing:
  assumes "tcp_willing s" "bs \<noteq> []"
  obtains n s' where "tcp_write s bs = (Inr n, s')" "0 < n" "tcp_willing s'" "incoming s' = incoming s"
    "sent s' = sent s @ take n bs"
proof -
  obtain n s' where w: "tcp_write s bs = (Inr n, s')" "0 < n" "tcp_willing s'"
    using tcpw.write_willing[OF assms] by blast
  then have "incoming s' = incoming s" by (auto simp: tcp_write_def split: tcp_write_split)
  with w show thesis using tcpw.write_ok[OF w(1)] that by auto
qed

lemma write_all_Tcp:
  assumes "tcp_willing s"
  shows "\<exists>s'. write_all (conn_write T) (Tcp s) bs = Some (Inr (), Tcp s') \<and> tcp_willing s' \<and>
     incoming s' = incoming s \<and> sent s' = sent s @ bs"
  using assms
proof (induction "length bs" arbitrary: bs s rule: less_induct)
  case less
  show ?case
  proof (cases "bs = []")
    case True
    then show ?thesis using less.prems by (simp add: write_all.simps)
  next
    case False
    obtain n s1 where w: "tcp_write s bs = (Inr n, s1)" "0 < n" "tcp_willing s1" "incoming s1 = incoming s"
      "sent s1 = sent s @ take n bs"
      by (rule tcp_write_willing[OF less.prems False])
    have "length (drop n bs) < length bs" using False w(2) by simp
    from less.hyps[OF this w(3)] show ?thesis using w False by (subst write_all.simps) simp
  qed
qed

lemma write_pieces_Tcp:
  assumes "tcp_willing s"
  shows "\<exists>s'. write_pieces (conn_write T) (Tcp s) ps = Some (Inr (), Tcp s') \<and> incoming s' = incoming s \<and>
     sent s' = sent s @ concat ps"
  using assms
proof (induction ps arbitrary: s)
  case (Cons p ps)
  obtain s1 where "write_all (conn_write T) (Tcp s) p = Some (Inr (), Tcp s1)" "tcp_willing s1"
    "incoming s1 = incoming s" "sent s1 = sent s @ p"
    using write_all_Tcp[OF Cons.prems] by blast
  then show ?case using Cons.IH[of s1] by auto
qed simp

lemma write_request_Tcp:
  assumes "header_laws H" "value_laws F" "tcp_willing s"
  obtains s' hs where "write_request U H F T (Tcp s) r = Some (Inr (), Tcp s')" "incoming s' = incoming s"
    "sent s' = sent s @ request_wire U H r hs"
    "\<forall>n. hm_get_all H hs n =
       (if n = ''connection'' \<and> hm_get_all H (rq_headers r) n = [] then [''close'']
        else if n = ''content-length'' \<and> hm_get_all H (rq_headers r) ''content-length'' = []
                \<and> hm_get_all H (rq_headers r) ''transfer-encoding'' = []
        then [show_radix 10 (length (rq_body r))] else hm_get_all H (rq_headers r) n)"
proof -
  obtain hs0 where hs0: "default_framing H F (rq_headers r) (length (rq_body r)) = Some hs0"
    "\<forall>n. hm_get_all H (default_connection H hs0) n =
       (if n = ''connection'' \<and> hm_get_all H (rq_headers r) n = [] then [''close'']
        else if n = ''content-length'' \<and> hm_get_all H (rq_headers r) ''content-length'' = []
                \<and> hm_get_all H (rq_headers r) ''transfer-encoding'' = []
        then [show_radix 10 (length (rq_body r))] else hm_get_all H (rq_headers r) n)"
    by (rule default_headers[OF assms(1,2)])
  obtain s' where s': "write_pieces (conn_write T) (Tcp s) (request_pieces U H r (default_connection H hs0))
      = Some (Inr (), Tcp s')" "incoming s' = incoming s"
    "sent s' = sent s @ request_wire U H r (default_connection H hs0)"
    using write_pieces_Tcp[OF assms(3)] unfolding request_wire_def concat_request_pieces[symmetric] by blast
  show thesis
    by (rule that[OF _ s'(2,3) hs0(2)]) (use s'(1) hs0(1) in \<open>simp add: write_request_def tcp_flush_def\<close>)
qed

text \<open>Reading a response sends nothing.\<close>

fun plain_sent :: "'t connection \<Rightarrow> bytes option" where
  "plain_sent (Tcp s) = Some (sent s)"
| "plain_sent (Tls ts) = None"

lemma plain_sent_Some: "plain_sent c = Some bs \<Longrightarrow> \<exists>s. c = Tcp s \<and> sent s = bs"
  by (cases c) auto

lemma conn_read_sent: "conn_read T c n = (r, c') \<Longrightarrow> plain_sent c' = plain_sent c"
  by (cases c) (auto simp: apsnd_eq_pair tcp_read_def split: if_splits list.splits net_event.splits)

lemma read_response_head_sent:
  "read_response_head (conn_read T) c buf = (r, c', buf') \<Longrightarrow> plain_sent c' = plain_sent c"
proof (induction "conn_read T" c buf arbitrary: r c' buf' rule: read_response_head.induct)
  case (1 c buf)
  obtain x d where rd: "conn_read T c 4096 = (x, d)" by (cases "conn_read T c 4096")
  have "read_response_head (conn_read T) d (buf @ bs) = (r, c', buf') \<Longrightarrow> plain_sent c' = plain_sent d"
    if "x = Inr bs" "bs \<noteq> []" "find_head_end buf = None" "\<not> length buf \<ge> MAX_RESPONSE_HEAD_BYTES" for bs
    using 1(1)[OF that(3,4) rd[symmetric] that(1,2)] by blast
  with 1(2) conn_read_sent[OF rd] rd show ?case
    by (subst (asm) read_response_head.simps) (auto split: option.splits if_splits sum.splits)
qed

lemma read_response_sent:
  fixes T :: "'t tls_ops" and H :: "'h header_ops"
  assumes ran: "read_response H F (conn_read T) hr c buf = Some (Inr resp)"
  shows "plain_sent (body_connection (rs_body resp)) = plain_sent c"
proof -
  have "conn_read T = rd \<longrightarrow> res = Inr resp \<longrightarrow> plain_sent (body_connection (rs_body resp)) = plain_sent c"
    if "read_response H F rd hr c buf = Some res" for rd res
  proof (rule read_response.raw_induct[where P = "\<lambda>H F rd hr c buf res.
      conn_read T = rd \<longrightarrow> res = Inr resp \<longrightarrow> plain_sent (body_connection (rs_body resp)) = plain_sent c", OF _ that])
    fix rec :: "'h header_ops \<Rightarrow> field_ops \<Rightarrow> 't connection reader \<Rightarrow> bool \<Rightarrow> 't connection \<Rightarrow> bytes
       \<Rightarrow> (error, ('h, 't connection response_body) response) result option"
      and H F rd hr c buf res
    assume IH: "\<And>H F rd hr c buf res. rec H F rd hr c buf = Some res \<Longrightarrow>
        conn_read T = rd \<longrightarrow> res = Inr resp \<longrightarrow> plain_sent (body_connection (rs_body resp)) = plain_sent c"
      and body: "(case read_response_head rd c buf of (r, c', buf) \<Rightarrow>
        (case r of
           Inl e \<Rightarrow> Some (Inl e)
         | Inr e \<Rightarrow>
             (case parse_response_head H F (take e buf) of
                Inl err \<Rightarrow> Some (Inl err)
              | Inr (status, version, headers) \<Rightarrow>
                  if status_is_informational F status \<and> status \<noteq> 101
                  then rec H F rd hr c' (drop 4 (drop e buf))
                  else if status = 101 then Some (Inl (error_new UnsupportedUpgrade))
                  else
                    (case response_body_mode H F headers status hr of
                       Inl err \<Rightarrow> Some (Inl err)
                     | Inr md \<Rightarrow>
                         Some (Inr \<lparr>rs_status = status, rs_version = version, rs_headers = headers,
                           rs_body = \<lparr>body_connection = c', buffered = drop 4 (drop e buf),
                                      mode = md\<rparr>\<rparr>))))) = Some res"
    show "conn_read T = rd \<longrightarrow> res = Inr resp \<longrightarrow> plain_sent (body_connection (rs_body resp)) = plain_sent c"
    proof (intro impI)
      assume "conn_read T = rd" "res = Inr resp"
      with body IH show "plain_sent (body_connection (rs_body resp)) = plain_sent c"
        by (fastforce split: prod.splits sum.splits if_splits dest: read_response_head_sent)
    qed
  qed
  with ran show ?thesis by blast
qed

text \<open>
  The values a request goes out with, by field name: the caller's, a Host field when asked for
  and missing, \<open>Connection: close\<close> unless the caller decided otherwise, and the length of the
  body unless the caller framed it.
\<close>

definition sent_values ::
  "'u uri_ops \<Rightarrow> 'h header_ops \<Rightarrow> bool \<Rightarrow> string \<Rightarrow> string \<Rightarrow> ('u, 'h, bytes) request \<Rightarrow> header_name
     \<Rightarrow> header_value list" where
  "sent_values U H with_host s a r n =
     (let given = hm_get_all H (rq_headers r) in
      if given n \<noteq> [] then given n
      else if n = ''host'' \<and> with_host then [host_text U (Some s) a]
      else if n = ''connection'' then [''close'']
      else if n = ''content-length'' \<and> given ''transfer-encoding'' = [] then [show_radix 10 (length (rq_body r))]
      else [])"

lemma request_sent:
  assumes laws: "uri_laws U" "header_laws H" "value_laws F"
    and req: "uri_scheme U (rq_uri r) = Some s" "uri_authority U (rq_uri r) = Some a" "rq_method r \<noteq> ''CONNECT''"
    and "tcp_willing st"
  obtains r' st' hs where
    "normalize_http1_request U H F with_host r = Some r'" "rq_method r' = rq_method r"
    "write_request U H F T (Tcp st) r' = Some (Inr (), Tcp st')" "incoming st' = incoming st"
    "sent st' = sent st @ rq_method r @ '' ''
       @ (case uri_path_and_query U (rq_uri r) of Some p \<Rightarrow> p | None \<Rightarrow> ''/'')
       @ '' HTTP/1.1'' @ crlf @ header_lines (hm_iter H hs) @ crlf @ rq_body r"
    "\<forall>n. map snd (filter (\<lambda>p. fst p = n) (hm_iter H hs)) = sent_values U H with_host s a r n"
proof -
  obtain v where v: "origin_form U (rq_uri r) = Some v" "uri_scheme U v = None" "uri_authority U v = None"
    "uri_path_and_query U v = Some (case uri_path_and_query U (rq_uri r) of Some p \<Rightarrow> p | None \<Rightarrow> ''/'')"
    by (rule origin_form_parts[OF laws(1)])
  obtain hs1 where hs1: "(if with_host then synthesize_host U H F r else Some r) = Some (r\<lparr>rq_headers := hs1\<rparr>)"
    "\<forall>n. hm_get_all H hs1 n =
       (if with_host \<and> n = ''host'' \<and> hm_get_all H (rq_headers r) n = []
        then [host_text U (uri_scheme U (rq_uri r)) a] else hm_get_all H (rq_headers r) n)"
    by (rule synthesize_host_effect[OF laws req(2)])
  let ?r = "r\<lparr>rq_headers := hs1, rq_uri := v\<rparr>"
  obtain st' hs where w: "write_request U H F T (Tcp st) ?r = Some (Inr (), Tcp st')" "incoming st' = incoming st"
    "sent st' = sent st @ request_wire U H ?r hs"
    "\<forall>n. hm_get_all H hs n =
       (if n = ''connection'' \<and> hm_get_all H (rq_headers ?r) n = [] then [''close'']
        else if n = ''content-length'' \<and> hm_get_all H (rq_headers ?r) ''content-length'' = []
                \<and> hm_get_all H (rq_headers ?r) ''transfer-encoding'' = []
        then [show_radix 10 (length (rq_body ?r))] else hm_get_all H (rq_headers ?r) n)"
    by (rule write_request_Tcp[OF laws(2,3) assms(7)])
  show thesis
  proof (rule that[OF _ _ w(1,2)])
    show "\<forall>n. map snd (filter (\<lambda>p. fst p = n) (hm_iter H hs)) = sent_values U H with_host s a r n"
      using w(4) hs1(2) req(1) unfolding header_laws_get_all(5)[OF laws(2)]
      by (simp add: sent_values_def Let_def)
  qed (use hs1(1) v(1) req(3) w(3) uri_laws_display(1)[OF laws(1) v(2-4)] in
      \<open>simp_all add: normalize_http1_request_def request_wire_def\<close>)
qed

text \<open>
  C3. A whole plain-text exchange.  A GET-like request with an absolute \<open>http\<close> URI to a host
  that accepts the connection and takes what it is sent, in pieces of any size, and answers with
  any number of interim responses, a final head with chunked framing, and a well-formed chunked
  message: the socket is sent the request, that is the request line with the path and query of
  the URI, or a slash, the caller's header fields completed by Host, Connection and Content-Length
  where they are missing, an empty line and the body, and nothing else; the call returns the final
  status and headers, and reading the body with any buffer sizes delivers exactly the message's
  payload and completes.
\<close>

theorem chunked_exchange:
  assumes laws: "uri_laws U" "header_laws H" "value_laws F" "byte_source (tls_stream_read T) tp th"
    and req: "uri_scheme U (rq_uri r) = Some ''http''" "uri_authority U (rq_uri r) = Some a"
      "rq_method r \<notin> {''CONNECT'', ''HEAD''}" "rq_version r \<in> {HTTP_10, HTTP_11}" "timeout \<noteq> Some 0"
    and conn: "connect_tcp N (bare_host (authority_host U a))
        (case authority_port U a of Some p \<Rightarrow> snd p | None \<Rightarrow> 80) (connect_timeout c) = Inr s" "tcp_willing s"
    and peer: "tcp_healthy s" "tcp_pending s = encode_heads ins @ h @ head_end @ encode_message m @ rest"
      "list_all (interim_head H F) ins" "head_framed h"
      "parse_response_head H F h = Inr (status, version, headers)"
      "\<not> status_is_informational F status" "status \<noteq> 101"
      "response_body_mode H F headers status False = Inr (BodyChunked 0 False False)" "message_ok m"
    and reads: "list_all (\<lambda>n. 0 < n) ns" "length (payload m) < length ns"
  shows "\<exists>resp b' s2 hs. request_with_timeout U H F N K T c r timeout = Some (Inr resp) \<and>
           rs_status resp = status \<and> rs_headers resp = headers \<and>
           read_all (conn_read T) (rs_body resp) ns = (Inr (payload m), b') \<and> is_complete b' \<and>
           body_connection (rs_body resp) = Tcp s2 \<and>
           sent s2 = sent s @ rq_method r @ '' ''
             @ (case uri_path_and_query U (rq_uri r) of Some p \<Rightarrow> p | None \<Rightarrow> ''/'')
             @ '' HTTP/1.1'' @ crlf @ header_lines (hm_iter H hs) @ crlf @ rq_body r \<and>
           (\<forall>n. map snd (filter (\<lambda>p. fst p = n) (hm_iter H hs)) = sent_values U H (set_host c) ''http'' a r n)"
proof -
  let ?og = "\<lparr>origin_scheme = ''http'', origin_authority = a\<rparr>"
  have ex: "extract_origin U (rq_uri r) (rq_method r = ''CONNECT'') = Some (Inr ?og, rq_uri r)"
    using req(1,2) by (simp add: extract_origin_def)
  obtain og_uri where ou: "uri_from_parts U (Some ''http'', Some a, Some ''/'') = Some og_uri"
    using uri_laws_valid(3)[OF laws(1) req(2), of "''http''"] by auto
  have "uri_scheme U og_uri = Some ''http''" "uri_host U og_uri = Some (authority_host U a)"
    "uri_port U og_uri = authority_port U a"
    using uri_laws_parts[OF laws(1) ou] by (simp_all add: uri_host_def uri_port_def)
  then have sc: "sync_connect U N K c ?og = Some (Inr (Tcp s))"
    using ou conn(1) by (simp add: sync_connect_def origin_uri_def Let_def strip_brackets_bare)
  let ?s1 = "s\<lparr>tcp_read_timeout := timeout, tcp_write_timeout := timeout\<rparr>"
  have "rq_method r \<noteq> ''CONNECT''" "tcp_willing ?s1" using req(3) conn(2) by (simp_all add: tcp_willing_def)
  then obtain r' s' hs where norm: "normalize_http1_request U H F (set_host c) r = Some r'" "rq_method r' = rq_method r"
    and s': "write_request U H F T (Tcp ?s1) r' = Some (Inr (), Tcp s')" "incoming s' = incoming ?s1"
    and out: "sent s' = sent ?s1 @ rq_method r @ '' ''
       @ (case uri_path_and_query U (rq_uri r) of Some p \<Rightarrow> p | None \<Rightarrow> ''/'')
       @ '' HTTP/1.1'' @ crlf @ header_lines (hm_iter H hs) @ crlf @ rq_body r"
      "\<forall>n. map snd (filter (\<lambda>p. fst p = n) (hm_iter H hs)) = sent_values U H (set_host c) ''http'' a r n"
    by (rule request_sent[OF laws(1-3) req(1,2)])
  have peer': "conn_healthy th (Tcp s')"
    "[] @ conn_pending tp (Tcp s') = encode_heads ins @ h @ head_end @ encode_message m @ rest"
    using peer(1,2) s'(2) by (simp_all add: tcp_healthy_def tcp_pending_def)
  obtain b where b: "read_response H F (conn_read T) False (Tcp s') [] =
      Some (Inr \<lparr>rs_status = status, rs_version = version, rs_headers = headers, rs_body = b\<rparr>)"
    "mode b = BodyChunked 0 False False" "body_pending (conn_pending tp) b = encode_message m @ rest"
    "body_healthy (conn_healthy th) b"
    using byte_source.read_response_interim[OF conn_byte_source[OF laws(4)] peer'(1) peer(3-8) peer'(2)] by blast
  obtain s2 where s2: "body_connection b = Tcp s2" "sent s2 = sent s'"
    using read_response_sent[OF b(1)] plain_sent_Some by fastforce
  have "chunk_frame (mode b) (body_pending (conn_pending tp) b) (payload m) rest"
    using b(2,3) peer(9) chunk_frame.start by simp
  from response_source.read_all_chunked[OF conn_response_source[OF laws(4)] b(4) reads(1) this]
  obtain b' where b': "read_all (conn_read T) b ns = (Inr (payload m), b')" "is_complete b'"
    using reads(2) by auto
  have "request_with_timeout U H F N K T c r timeout =
      Some (Inr \<lparr>rs_status = status, rs_version = version, rs_headers = headers, rs_body = b\<rparr>)"
    using req(3-5) ex norm sc s'(1) b(1)
    by (auto simp: request_with_timeout_def set_timeouts_Tcp[OF req(5)] simp del: set_timeouts.simps)
  with b' s2 out show ?thesis by (intro exI conjI) (assumption | simp)+
qed

definition chunked_head :: bytes where
  "chunked_head = ''HTTP/1.1 200 OK'' @ crlf @ ''Transfer-Encoding: chunked''"

definition http_request :: "(demo_uri, (header_name \<times> header_value) list, bytes) request" where
  "http_request = demo_request\<lparr>rq_uri := (Some ''http'', Some ''h'', Some ''/'')\<rparr>"

definition exchange_stream :: "tcp_stream" where
  "exchange_stream = tcp_of (segments
     [demo_interim @ head_end @ ''HTT'', drop 3 chunked_head @ head_end @ ''4;x=y'' @ crlf @ ''Wi'',
      ''ki'' @ crlf @ ''2'' @ crlf @ ''ok'' @ crlf @ ''0'' @ crlf @ ''T: v'' @ crlf @ crlf])"

theorem chunked_exchange_witness:
  "\<exists>resp b' s2 hs. request_with_timeout demo_uris alist_headers demo_fields (demo_net (incoming exchange_stream))
       demo_handshake plain_tls demo_client http_request (Some 9) = Some (Inr resp) \<and>
     rs_status resp = 200 \<and> rs_headers resp = [(''transfer-encoding'', ''chunked'')] \<and>
     read_all (conn_read plain_tls) (rs_body resp) (replicate 7 4) = (Inr (payload demo_message), b') \<and>
     is_complete b' \<and> body_connection (rs_body resp) = Tcp s2 \<and>
     sent s2 = sent exchange_stream @ rq_method http_request @ '' ''
       @ (case uri_path_and_query demo_uris (rq_uri http_request) of Some p \<Rightarrow> p | None \<Rightarrow> ''/'')
       @ '' HTTP/1.1'' @ crlf @ header_lines (hm_iter alist_headers hs) @ crlf @ rq_body http_request \<and>
     (\<forall>n. map snd (filter (\<lambda>p. fst p = n) (hm_iter alist_headers hs)) =
        sent_values demo_uris alist_headers (set_host demo_client) ''http'' ''h'' http_request n)"
proof (rule chunked_exchange[OF uri_laws_demo header_laws_alist value_laws_demo plain_tls_byte_source,
      where a = "''h''" and s = exchange_stream and ins = "[demo_interim]" and h = chunked_head
        and rest = "[]" and version = HTTP_11])
  show "parse_response_head alist_headers demo_fields chunked_head =
      Inr (200, HTTP_11, [(''transfer-encoding'', ''chunked'')])" by code_simp
  show "response_body_mode alist_headers demo_fields [(''transfer-encoding'', ''chunked'')] 200 False =
      Inr (BodyChunked 0 False False)" by code_simp
  show "tcp_pending exchange_stream =
      encode_heads [demo_interim] @ chunked_head @ head_end @ encode_message demo_message @ []" by code_simp
  show "connect_tcp (demo_net (incoming exchange_stream)) (bare_host (authority_host demo_uris ''h''))
      (case authority_port demo_uris ''h'' of Some p \<Rightarrow> snd p | None \<Rightarrow> 80) (connect_timeout demo_client) =
      Inr exchange_stream" by code_simp
qed (code_simp+)

end
