(* ===== verification/Sync_Head.thy ===== *)
theory Sync_Head
  imports Sync_Wire
begin

text \<open>
  Correctness of response-head parsing and of the choice of the body framing in the blocking
  client.
\<close>

section \<open>Head lines\<close>

fun join_crlf :: "bytes list \<Rightarrow> bytes" where
  "join_crlf [] = []"
| "join_crlf [l] = l"
| "join_crlf (l # l2 # ls) = l @ crlf @ join_crlf (l2 # ls)"

definition line_clean :: "bytes \<Rightarrow> bool" where
  "line_clean l \<longleftrightarrow> CR \<notin> set l \<and> LF \<notin> set l"

lemma split_join_crlf:
  assumes "ls \<noteq> []" "list_all line_clean ls"
  shows "list_all2 (\<lambda>m l. strip_line_crlf m = Inr l) (split_on (\<lambda>c. c = LF) (join_crlf ls)) ls"
  using assms
proof (induction ls rule: join_crlf.induct)
  case (2 l)
  then have "split_on (\<lambda>c. c = LF) l = [l]" by (intro split_on_no_sep) (auto simp: line_clean_def)
  with 2 show ?case by (simp add: line_clean_def strip_line_crlf_plain)
next
  case (3 l l2 ls)
  then have "split_on (\<lambda>c. c = LF) ((l @ [CR]) @ LF # join_crlf (l2 # ls)) =
      (l @ [CR]) # split_on (\<lambda>c. c = LF) (join_crlf (l2 # ls))"
    by (intro split_on_append_sep) (auto simp: line_clean_def)
  with 3 show ?case by (simp add: line_clean_def strip_line_crlf_with_CR)
qed simp

text \<open>A header field as it is sent: the name as written, and the value with its padding.\<close>

record wire_field =
  wf_name :: bytes
  wf_pad :: bytes
  wf_value :: bytes
  wf_pad_end :: bytes

definition field_line :: "wire_field \<Rightarrow> bytes" where
  "field_line f = wf_name f @ '':'' @ wf_pad f @ wf_value f @ wf_pad_end f"

definition field_ok :: "field_ops \<Rightarrow> wire_field \<Rightarrow> header_name \<Rightarrow> bool" where
  "field_ok F f n \<longleftrightarrow> header_name_from_bytes F (wf_name f) = Some n \<and> CHR '':'' \<notin> set (wf_name f) \<and>
     header_value_from_bytes F (wf_value f) = Some (wf_value f) \<and>
     list_all is_ows (wf_pad f) \<and> list_all is_ows (wf_pad_end f) \<and>
     (wf_value f = [] \<or> \<not> is_ows (hd (wf_value f)) \<and> \<not> is_ows (last (wf_value f))) \<and>
     line_clean (field_line f)"

lemma trim_ows_padded:
  assumes "list_all is_ows p" "list_all is_ows q" "v = [] \<or> \<not> is_ows (hd v) \<and> \<not> is_ows (last v)"
  shows "trim_ows (p @ v @ q) = v"
proof -
  have q: "dropWhile is_ows (rev q @ w) = dropWhile is_ows w" for w
    using assms(2) by (intro dropWhile_append2) (auto simp: list_all_iff)
  show ?thesis
  proof (cases "v = []")
    case True
    then show ?thesis
      using assms(1,2)
      by (auto simp: trim_ows_def trim_front_dropWhile trim_back_dropWhile list_all_iff
          dest: set_dropWhileD)
  next
    case False
    then obtain a w where v: "v = a # w" by (cases v) auto
    obtain b u where u: "v = u @ [b]" using False by (metis append_butlast_last_id)
    have "trim_front (p @ v @ q) = v @ q"
      using assms(1,3) v dropWhile_append2[of p is_ows "v @ q"]
      by (simp add: trim_front_dropWhile list_all_iff)
    then show ?thesis
      using assms(3) u q[of "rev v"] by (simp add: trim_ows_def trim_back_dropWhile)
  qed
qed

lemma parse_header_line_field:
  assumes "field_ok F f n" "strip_line_crlf m = Inr (field_line f)"
  shows "parse_header_line F m = Inr (n, wf_value f)"
proof -
  have pos: "position (\<lambda>c. c = CHR '':'') (field_line f) = Some (length (wf_name f))"
    unfolding field_line_def using assms(1)
      position_append_hit[of "wf_name f" "\<lambda>c. c = CHR '':''" "CHR '':''" "wf_pad f @ wf_value f @ wf_pad_end f"]
    by (auto simp: field_ok_def)
  have "trim_ows (wf_pad f @ wf_value f @ wf_pad_end f) = wf_value f"
    using assms(1) by (intro trim_ows_padded) (auto simp: field_ok_def)
  then show ?thesis
    using assms pos by (simp add: field_ok_def) (simp add: field_line_def)
qed

lemma parse_header_lines_fields:
  assumes "list_all2 (field_ok F) fs ns" "list_all2 (\<lambda>m f. strip_line_crlf m = Inr (field_line f)) ms fs"
  shows "parse_header_lines H F h ms =
     Inr (foldl (\<lambda>h (n, v). hm_append H h n v) h (zip ns (map wf_value fs)))"
  using assms
proof (induction fs arbitrary: ns ms h)
  case (Cons f fs)
  then obtain n ns' m ms' where ns: "ns = n # ns'" "ms = m # ms'"
    by (cases ns; cases ms) auto
  with Cons.prems have "parse_header_line F m = Inr (n, wf_value f)"
    by (intro parse_header_line_field) auto
  with Cons ns show ?case by (simp del: parse_header_line.simps)
qed simp

section \<open>Status lines\<close>

definition version_text :: "http_version \<Rightarrow> bytes" where
  "version_text v = (if v = HTTP_10 then ''HTTP/1.0'' else ''HTTP/1.1'')"

definition status_text :: "http_version \<Rightarrow> status_code \<Rightarrow> bytes \<Rightarrow> bytes" where
  "status_text v code reason = version_text v @ '' '' @ show_radix 10 (unat code) @ '' '' @ reason"

lemma splitn_three:
  assumes "c \<notin> set xs" "c \<notin> set ys"
  shows "splitn 3 (\<lambda>x. x = c) (xs @ c # ys @ c # zs) = [xs, ys, zs]"
proof -
  have "dropWhile (\<lambda>x. x \<noteq> c) (us @ c # vs) = c # vs" "takeWhile (\<lambda>x. x \<noteq> c) (us @ c # vs) = us"
    if "c \<notin> set us" for us vs :: "'a list"
  proof -
    have "\<forall>x \<in> set us. x \<noteq> c" using that by auto
    then show "dropWhile (\<lambda>x. x \<noteq> c) (us @ c # vs) = c # vs" "takeWhile (\<lambda>x. x \<noteq> c) (us @ c # vs) = us"
      by (induction us) auto
  qed
  with assms show ?thesis by (simp add: numeral_3_eq_3)
qed

lemma decimal_chars: "c \<in> set (show_radix 10 n) \<Longrightarrow> 48 \<le> byte_val c \<and> byte_val c < 123"
  using show_radix_chars[of 10 c n] by auto

lemma parse_status_line_text:
  assumes "status_laws F" "v \<in> {HTTP_10, HTTP_11}" "100 \<le> unat code" "unat code < 1000" "ascii reason"
    and "strip_line_crlf m = Inr (status_text v code reason)"
  shows "parse_status_line F m = Inr (code, v)"
proof -
  have no_sp: "SP \<notin> set (version_text v)" "SP \<notin> set (show_radix 10 (unat code))"
    using decimal_chars[of SP "unat code"] by (auto simp: version_text_def)
  have fields: "splitn 3 (\<lambda>c. c = SP) (status_text v code reason) =
      [version_text v, show_radix 10 (unat code), reason]"
    using splitn_three[OF no_sp, of reason] by (simp add: status_text_def)
  have "ascii (status_text v code reason)"
    using assms(5) ascii_show_radix[of 10 "unat code"]
    by (auto simp: ascii_def status_text_def version_text_def)
  then have utf8: "utf8_valid (status_text v code reason)" by (rule ascii_utf8)
  have num: "from_str_radix 10 u16_max (show_radix 10 (unat code)) = Some (unat code)"
    using assms(4) by (intro from_str_radix_show_radix) (auto simp: u16_max_def)
  have "status_from_u16 F code = Some code"
    using assms(1,3,4) by (simp add: status_laws_def)
  then show ?thesis
    using assms(2,6) utf8 fields num
    by (auto simp: parse_status_line_def Let_def version_text_def)
qed

section \<open>Properties\<close>

definition render_head :: "http_version \<Rightarrow> status_code \<Rightarrow> bytes \<Rightarrow> wire_field list \<Rightarrow> bytes" where
  "render_head v code reason fs = join_crlf (status_text v code reason # map field_line fs)"

text \<open>
  C8. Head round trip.  A response head built from an HTTP/1.x version, a status code, an ASCII
  reason and header fields, with any optional white space around the values, parses back to
  exactly that version, that status and those fields in their order.
\<close>

theorem parse_render_head:
  assumes "status_laws F" "v \<in> {HTTP_10, HTTP_11}" "100 \<le> unat code" "unat code < 1000"
    and "ascii reason" "line_clean reason" "list_all2 (field_ok F) fs ns"
  shows "parse_response_head H F (render_head v code reason fs) =
     Inr (code, v, foldl (\<lambda>h (n, x). hm_append H h n x) (hm_new H) (zip ns (map wf_value fs)))"
proof -
  let ?ls = "status_text v code reason # map field_line fs"
  let ?ms = "split_on (\<lambda>c. c = LF) (join_crlf ?ls)"
  have "line_clean (status_text v code reason)"
    using assms(6) decimal_chars[of CR "unat code"] decimal_chars[of LF "unat code"]
    by (auto simp: line_clean_def status_text_def version_text_def)
  moreover have "list_all line_clean (map field_line fs)"
    using assms(7) by (induction fs ns rule: list_all2_induct) (auto simp: field_ok_def)
  ultimately have "list_all2 (\<lambda>m l. strip_line_crlf m = Inr l) ?ms ?ls"
    by (intro split_join_crlf) auto
  then obtain m ms where ms: "?ms = m # ms" "strip_line_crlf m = Inr (status_text v code reason)"
    "list_all2 (\<lambda>m f. strip_line_crlf m = Inr (field_line f)) ms fs"
    by (auto simp: list_all2_Cons2 list_all2_map2)
  then show ?thesis
    using parse_status_line_text[OF assms(1-5) ms(2)] parse_header_lines_fields[OF assms(7) ms(3), of H]
    by (simp add: parse_response_head_def render_head_def)
qed

definition demo_wire_fields :: "wire_field list" where
  "demo_wire_fields =
     [\<lparr>wf_name = ''Server'', wf_pad = '' '', wf_value = ''tiny v1'', wf_pad_end = [HTAB]\<rparr>,
      \<lparr>wf_name = ''X'', wf_pad = [], wf_value = [], wf_pad_end = []\<rparr>]"

theorem parse_render_head_witness:
  "parse_response_head alist_headers demo_fields (render_head HTTP_11 404 ''Not Found'' demo_wire_fields) =
     Inr (404, HTTP_11, [(''server'', ''tiny v1''), (''x'', [])])"
proof -
  have "list_all2 (field_ok demo_fields) demo_wire_fields [''server'', ''x'']" by code_simp
  moreover have "ascii ''Not Found''" "line_clean ''Not Found''" by code_simp+
  moreover have "foldl (\<lambda>h (n, x). hm_append alist_headers h n x) (hm_new alist_headers)
      (zip [''server'', ''x''] (map wf_value demo_wire_fields)) = [(''server'', ''tiny v1''), (''x'', [])]"
    by code_simp
  ultimately show ?thesis
    using parse_render_head[OF status_laws_demo, of HTTP_11 404 "''Not Found''" demo_wire_fields
        "[''server'', ''x'']" alist_headers]
    by simp
qed

section \<open>Body framing\<close>

text \<open>
  The framing rules, stated on the header values as they were received.  A blank is a space or a
  tab; a gap of a comma-separated list is made of blanks and commas.  No coding is named when
  every value is a gap.  The only coding is \<open>chunked\<close> when one value has that word, in any case,
  between gaps, and every other value is a gap.  A length is a decimal numeral between blanks.
\<close>

definition blank :: "byte \<Rightarrow> bool" where
  "blank c \<longleftrightarrow> c = CHR '' '' \<or> c = CHR 0x09"

definition list_gap :: "bytes \<Rightarrow> bool" where
  "list_gap v \<longleftrightarrow> list_all (\<lambda>c. c = CHR '','' \<or> blank c) v"

definition only_chunked :: "bytes list \<Rightarrow> bool" where
  "only_chunked vs \<longleftrightarrow>
     (\<exists>before pre word post after. vs = before @ (pre @ word @ post) # after \<and>
        list_all list_gap before \<and> list_all list_gap after \<and> list_gap pre \<and> list_gap post \<and>
        map ascii_lower word = ''chunked'')"

definition length_text :: "bytes \<Rightarrow> nat \<Rightarrow> bool" where
  "length_text v n \<longleftrightarrow>
     (\<exists>pre sign ds post. v = pre @ sign @ ds @ post \<and> list_all blank pre \<and> list_all blank post \<and>
        sign \<in> {[], ''+''} \<and> ds \<noteq> [] \<and> list_all decimal_digit ds \<and> decimal_value ds = n)"

lemma is_ows_blank: "is_ows = blank"
  by (simp add: fun_eq_iff is_ows_def blank_def)

lemma trim_ows_dropWhile: "trim_ows v = rev (dropWhile blank (rev (dropWhile blank v)))"
  by (simp add: trim_ows_def trim_front_dropWhile trim_back_dropWhile is_ows_blank)

lemma strip_decomp:
  obtains pre post where "v = pre @ rev (dropWhile P (rev (dropWhile P v))) @ post" "list_all P pre" "list_all P post"
proof
  let ?m = "dropWhile P v"
  have "?m = rev (takeWhile P (rev ?m) @ dropWhile P (rev ?m))" by simp
  then have "?m = rev (dropWhile P (rev ?m)) @ rev (takeWhile P (rev ?m))" by (metis rev_append)
  then show "v = takeWhile P v @ rev (dropWhile P (rev ?m)) @ rev (takeWhile P (rev ?m))"
    by (metis takeWhile_dropWhile_id)
qed (auto simp: list_all_iff dest: set_takeWhileD)

lemma strip_ends:
  assumes "\<not> list_all P v"
  shows "rev (dropWhile P (rev (dropWhile P v))) \<noteq> []"
    "\<not> P (hd (rev (dropWhile P (rev (dropWhile P v)))))" "\<not> P (last (rev (dropWhile P (rev (dropWhile P v)))))"
proof -
  have m: "dropWhile P v \<noteq> []" "\<not> P (hd (dropWhile P v))"
    using assms by (auto simp: list_all_iff hd_dropWhile)
  then have "\<not> list_all P (dropWhile P v)" by (cases "dropWhile P v") auto
  then have r: "dropWhile P (rev (dropWhile P v)) \<noteq> []" "\<not> P (hd (dropWhile P (rev (dropWhile P v))))"
    by (auto simp: list_all_iff hd_dropWhile)
  then show "rev (dropWhile P (rev (dropWhile P v))) \<noteq> []"
    "\<not> P (last (rev (dropWhile P (rev (dropWhile P v)))))"
    by (simp_all add: last_rev)
  obtain ys where "rev (dropWhile P v) = ys @ dropWhile P (rev (dropWhile P v))"
    by (metis takeWhile_dropWhile_id)
  then have "last (rev (dropWhile P v)) = last (dropWhile P (rev (dropWhile P v)))" using r(1) by (metis last_appendR)
  then show "\<not> P (hd (rev (dropWhile P (rev (dropWhile P v)))))"
    using m(2) by (simp add: hd_rev last_rev)
qed

lemma trim_ows_strip:
  assumes "list_all blank pre" "list_all blank post" "m \<noteq> []" "\<not> blank (hd m)" "\<not> blank (last m)"
  shows "trim_ows (pre @ m @ post) = m"
proof -
  have front: "dropWhile blank (pre @ m @ post) = m @ post"
    using assms(1,3,4) by (cases m) (auto simp: list_all_iff dropWhile_append2)
  have "dropWhile blank (rev post @ rev m) = dropWhile blank (rev m)"
    using assms(2) by (intro dropWhile_append2) (auto simp: list_all_iff)
  also have "\<dots> = rev m" using assms(3,5) by (cases "rev m") auto
  finally have "dropWhile blank (rev (m @ post)) = rev m" by simp
  then show ?thesis by (simp add: trim_ows_dropWhile front)
qed

lemma from_str_trim:
  assumes "n \<le> u64_max"
  shows "from_str_radix 10 u64_max (trim_ows v) = Some n \<longleftrightarrow> length_text v n"
proof
  assume "from_str_radix 10 u64_max (trim_ows v) = Some n"
  then obtain ds where ds: "trim_ows v = ds \<or> trim_ows v = CHR ''+'' # ds" "ds \<noteq> []" "list_all decimal_digit ds"
    "n = decimal_value ds"
    unfolding from_str_radix_decimal by blast
  obtain pre post where v: "v = pre @ trim_ows v @ post" "list_all blank pre" "list_all blank post"
    using strip_decomp[of v blank] unfolding trim_ows_dropWhile[symmetric] by blast
  from ds(1) have "\<exists>sign \<in> {[], ''+''}. trim_ows v = sign @ ds" by auto
  then obtain sign where "sign \<in> {[], ''+''}" "trim_ows v = sign @ ds" by blast
  with v ds(2-4) show "length_text v n"
    unfolding length_text_def by (intro exI[of _ pre] exI[of _ sign] exI[of _ ds] exI[of _ post]) auto
next
  assume "length_text v n"
  then obtain pre sign ds post where v: "v = pre @ sign @ ds @ post" "list_all blank pre" "list_all blank post"
    "sign \<in> {[], ''+''}" "ds \<noteq> []" "list_all decimal_digit ds" "decimal_value ds = n"
    unfolding length_text_def by blast
  have digit: "\<not> blank c" if "decimal_digit c" for c using that by (auto simp: blank_def decimal_digit_def)
  have "\<not> blank CHR ''+''" by code_simp
  moreover have "decimal_digit (hd ds)" "decimal_digit (last ds)" using v(5,6) by (auto simp: list_all_iff)
  ultimately have "trim_ows (pre @ (sign @ ds) @ post) = sign @ ds"
    using v(2-5) digit by (intro trim_ows_strip) auto
  then show "from_str_radix 10 u64_max (trim_ows v) = Some n"
    using v assms unfolding from_str_radix_decimal by (intro exI[of _ ds]) auto
qed

lemma content_length_loop_Some:
  "content_length_loop cl vs = Inr (Some n) \<longleftrightarrow>
     (cl = Some n \<or> cl = None \<and> vs \<noteq> []) \<and> (\<forall>v \<in> set vs. length_text v (unat n))"
proof (induction vs arbitrary: cl)
  case (Cons v vs)
  have "unat n < 2 ^ LENGTH(64)" by (rule unsigned_less)
  then have bound: "unat n \<le> u64_max" by (simp add: u64_max_def)
  show ?case
  proof (cases "from_str_radix 10 u64_max (trim_ows v)")
    case None
    then have "\<not> length_text v (unat n)" using from_str_trim[OF bound, of v] by simp
    then show ?thesis using None by simp
  next
    case (Some k)
    then obtain ds where "trim_ows v = ds \<or> trim_ows v = CHR ''+'' # ds" "list_all decimal_digit ds"
      unfolding from_str_radix_decimal by blast
    then have "ascii (trim_ows v)" using decimal_ascii[of ds] by (auto simp: ascii_def)
    then have utf8: "utf8_valid (trim_ows v)" by (rule ascii_utf8)
    have "unat (of_nat k :: u64) = k"
      using from_str_radix_bound[OF Some] by (simp add: unat_of_nat u64_max_def take_bit_nat_eq_self)
    then have same: "of_nat k = n \<longleftrightarrow> k = unat n" by auto
    have "length_text v (unat n) \<longleftrightarrow> k = unat n" using from_str_trim[OF bound, of v] Some by auto
    then show ?thesis
      using Some utf8 Cons.IH[of "Some (of_nat k)"] same by (cases cl) auto
  qed
qed auto

lemma content_length_loop_None: "content_length_loop cl vs = Inr None \<longleftrightarrow> vs = [] \<and> cl = None"
proof (induction cl vs rule: content_length_loop.induct)
  case (2 cl v vs)
  then show ?case by (auto split: if_splits option.splits)
qed auto

text \<open>The elements of a comma-separated list.\<close>

definition elements :: "bytes \<Rightarrow> bytes list" where
  "elements v = filter (\<lambda>x. x \<noteq> []) (map trim_ows (split_on (\<lambda>c. c = CHR '','') v))"

lemma transfer_codings_elements:
  "transfer_codings H headers = concat (map elements (hm_get_all H headers ''transfer-encoding''))"
proof -
  have "filter (\<lambda>x. x \<noteq> []) (map trim_ows (concat (map (split_on (\<lambda>c. c = CHR '','')) vs))) = concat (map elements vs)" for vs
    by (induction vs) (auto simp: elements_def)
  then show ?thesis by (simp add: transfer_codings_def)
qed

lemma split_on_sep: "p c \<Longrightarrow> split_on p (a @ c # b) = split_on p a @ split_on p b"
  by (induction a) (auto split: list.split)

lemma split_on_snoc: "\<not> p c \<Longrightarrow> split_on p (v @ [c]) = butlast (split_on p v) @ [last (split_on p v) @ [c]]"
  by (induction v) (auto split: list.split)

lemma trim_ows_Cons: "blank c \<Longrightarrow> trim_ows (c # y) = trim_ows y"
  by (simp add: trim_ows_dropWhile)

lemma trim_ows_snoc: "blank c \<Longrightarrow> trim_ows (y @ [c]) = trim_ows y"
  by (cases "list_all blank y") (auto simp: trim_ows_dropWhile list_all_iff dropWhile_append3 dropWhile_append dest: set_dropWhileD)

lemma elements_sep: "elements (a @ CHR '','' # b) = elements a @ elements b"
  by (simp add: elements_def split_on_sep)

lemma elements_Nil: "elements [] = []"
  by (simp add: elements_def trim_ows_dropWhile)

lemma elements_Cons:
  assumes "c = CHR '','' \<or> blank c" shows "elements (c # v) = elements v"
proof (cases "c = CHR '',''")
  case True
  then show ?thesis using elements_sep[of "[]" v] elements_Nil by simp
next
  case False
  obtain y ys where "split_on (\<lambda>c. c = CHR '','') v = y # ys" by (cases "split_on (\<lambda>c. c = CHR '','') v") auto
  then show ?thesis using False assms by (simp add: elements_def trim_ows_Cons)
qed

lemma elements_snoc:
  assumes "c = CHR '','' \<or> blank c" shows "elements (v @ [c]) = elements v"
proof (cases "c = CHR '',''")
  case True
  then show ?thesis using elements_sep[of v "[]"] elements_Nil by simp
next
  case False
  obtain qs q where "split_on (\<lambda>c. c = CHR '','') v = qs @ [q]"
    by (metis split_on_not_Nil append_butlast_last_id)
  then show ?thesis using False assms by (simp add: elements_def split_on_snoc trim_ows_snoc)
qed

lemma elements_gaps:
  assumes "list_gap pre" "list_gap post" shows "elements (pre @ m @ post) = elements m"
proof -
  have "elements (xs @ ys) = elements ys" if "list_gap xs" for xs ys
    using that by (induction xs) (auto simp: list_gap_def elements_Cons)
  moreover have "elements (xs @ ys) = elements xs" if "list_gap ys" for xs ys
    using that
  proof (induction ys rule: rev_induct)
    case (snoc c ys)
    then show ?case using elements_snoc[of c "xs @ ys"] by (simp add: list_gap_def)
  qed simp
  ultimately show ?thesis using assms by simp
qed

lemma elements_word:
  assumes "CHR '','' \<notin> set m" "m \<noteq> []" "\<not> blank (hd m)" "\<not> blank (last m)"
  shows "elements m = [m]"
proof -
  have "split_on (\<lambda>c. c = CHR '','') m = [m]" using assms(1) by (intro split_on_no_sep) auto
  then show ?thesis using trim_ows_strip[of "[]" "[]" m] assms by (simp add: elements_def)
qed

lemma elements_strip:
  assumes "\<not> list_gap v"
  obtains pre m post where "v = pre @ m @ post" "list_gap pre" "list_gap post" "m \<noteq> []"
    "\<not> (hd m = CHR '','' \<or> blank (hd m))" "\<not> (last m = CHR '','' \<or> blank (last m))"
proof -
  let ?P = "\<lambda>c. c = CHR '','' \<or> blank c"
  obtain pre post where "v = pre @ rev (dropWhile ?P (rev (dropWhile ?P v))) @ post" "list_all ?P pre" "list_all ?P post"
    by (rule strip_decomp)
  then show thesis
    using that[of pre "rev (dropWhile ?P (rev (dropWhile ?P v)))" post] strip_ends[of ?P v] assms
    unfolding list_gap_def by simp
qed

lemma elements_empty: "elements v = [] \<longleftrightarrow> list_gap v"
proof
  assume empty: "elements v = []"
  show "list_gap v"
  proof (rule ccontr)
    assume "\<not> list_gap v"
    then obtain pre m post where m: "v = pre @ m @ post" "list_gap pre" "list_gap post" "m \<noteq> []"
      "\<not> (hd m = CHR '','' \<or> blank (hd m))" "\<not> (last m = CHR '','' \<or> blank (last m))" by (rule elements_strip)
    have none: "elements m = []" using empty elements_gaps[OF m(2,3), of m] m(1) by simp
    show False
    proof (cases "CHR '','' \<in> set m")
      case True
      then obtain a b where ab: "m = a @ CHR '','' # b" "CHR '','' \<notin> set a" by (meson split_list_first)
      then have "a \<noteq> []" "hd a = hd m" using m(5) by (cases a; auto)+
      then have "\<exists>c \<in> set a. \<not> blank c" "dropWhile blank a = a"
        using m(5) hd_in_set[of a] by (metis, cases a, auto)
      then have "trim_ows a \<noteq> []" "split_on (\<lambda>c. c = CHR '','') a = [a]"
        using ab(2) by (auto simp: trim_ows_dropWhile intro!: split_on_no_sep)
      then have "elements a \<noteq> []" by (simp add: elements_def)
      then show False using none ab by (simp add: elements_sep)
    next
      case False
      then show False using none elements_word[of m] m(4-6) by simp
    qed
  qed
next
  assume "list_gap v"
  then show "elements v = []" using elements_gaps[of v "[]" "[]"] elements_Nil by (simp add: list_gap_def)
qed

lemma elements_single:
  assumes "elements v = [x]"
  obtains pre post where "v = pre @ x @ post" "list_gap pre" "list_gap post"
proof -
  have "\<not> list_gap v" using assms elements_empty by force
  then obtain pre m post where m: "v = pre @ m @ post" "list_gap pre" "list_gap post" "m \<noteq> []"
    "\<not> (hd m = CHR '','' \<or> blank (hd m))" "\<not> (last m = CHR '','' \<or> blank (last m))" by (rule elements_strip)
  have one: "elements m = [x]" using assms elements_gaps[OF m(2,3), of m] m(1) by simp
  have "CHR '','' \<notin> set m"
  proof
    assume "CHR '','' \<in> set m"
    then obtain a b where ab: "m = a @ CHR '','' # b" by (meson split_list)
    then have ends: "a \<noteq> []" "hd a = hd m" "b \<noteq> []" "last b = last m"
      using m(5,6) by (cases a; cases b; auto)+
    then have "\<not> list_gap a" "\<not> list_gap b"
      using m(5,6) hd_in_set[of a] last_in_set[of b] by (auto simp: list_gap_def list_all_iff)
    then have "elements a \<noteq> []" "elements b \<noteq> []" by (simp_all add: elements_empty)
    then show False using one ab by (cases "elements a"; cases "elements b") (auto simp: elements_sep)
  qed
  then have "x = m" using one elements_word[of m] m(4-6) by simp
  then show thesis using that m by blast
qed

lemma concat_single:
  "concat (map f vs) = [x] \<longleftrightarrow>
     (\<exists>before v after. vs = before @ v # after \<and> (\<forall>u \<in> set before \<union> set after. f u = []) \<and> f v = [x])"
proof
  assume "concat (map f vs) = [x]"
  then show "\<exists>before v after. vs = before @ v # after \<and> (\<forall>u \<in> set before \<union> set after. f u = []) \<and> f v = [x]"
  proof (induction vs)
    case (Cons v vs)
    show ?case
    proof (cases "f v")
      case Nil
      then obtain before u after where "vs = before @ u # after" "\<forall>u \<in> set before \<union> set after. f u = []" "f u = [x]"
        using Cons by auto
      then show ?thesis using Nil by (intro exI[of _ "v # before"] exI[of _ u] exI[of _ after]) auto
    next
      case (Cons y ys)
      then show ?thesis using Cons.prems by (intro exI[of _ "[]"] exI[of _ v] exI[of _ vs]) auto
    qed
  qed simp
next
  assume "\<exists>before v after. vs = before @ v # after \<and> (\<forall>u \<in> set before \<union> set after. f u = []) \<and> f v = [x]"
  then obtain before v after where v: "vs = before @ v # after" "\<forall>u \<in> set before \<union> set after. f u = []" "f v = [x]"
    by blast
  then have none: "concat (map f before) = []" "concat (map f after) = []" by simp_all
  show "concat (map f vs) = [x]" by (simp add: v(1,3) none)
qed

lemma codings_none: "transfer_codings H headers = [] \<longleftrightarrow> list_all list_gap (hm_get_all H headers ''transfer-encoding'')"
  by (simp add: transfer_codings_elements list_all_iff elements_empty)

lemma codings_chunked:
  "(\<exists>x. transfer_codings H headers = [x] \<and> eq_ignore_ascii_case x ''chunked'') \<longleftrightarrow>
     only_chunked (hm_get_all H headers ''transfer-encoding'')" (is "?L \<longleftrightarrow> only_chunked ?vs")
proof -
  have lower: "map ascii_lower ''chunked'' = ''chunked''" by code_simp
  show ?thesis
  proof
    assume ?L
    then obtain x before v after where v: "?vs = before @ v # after" "\<forall>u \<in> set before \<union> set after. elements u = []"
      "elements v = [x]" "map ascii_lower x = ''chunked''"
      unfolding transfer_codings_elements eq_ignore_ascii_case_def lower concat_single
      by (elim exE conjE) (rule that)
    obtain pre post where "v = pre @ x @ post" "list_gap pre" "list_gap post" using elements_single[OF v(3)] .
    then show "only_chunked ?vs"
      unfolding only_chunked_def using v
      by (intro exI[of _ before] exI[of _ pre] exI[of _ x] exI[of _ post] exI[of _ after])
        (auto simp: elements_empty list_all_iff)
  next
    assume "only_chunked ?vs"
    then obtain before pre w post after where v: "?vs = before @ (pre @ w @ post) # after"
      "list_all list_gap before" "list_all list_gap after" "list_gap pre" "list_gap post"
      "map ascii_lower w = ''chunked''"
      unfolding only_chunked_def by (elim exE conjE) (rule that)
    have "ascii_lower c \<in> set ''chunked''" if "c \<in> set w" for c
      using that v(6) by (metis image_eqI set_map)
    then have "c \<noteq> CHR '','' \<and> \<not> blank c" if "c \<in> set w" for c
      using that by (fastforce simp: ascii_lower_def blank_def)
    moreover have "w \<noteq> []" using v(6) by auto
    ultimately have "elements w = [w]" by (intro elements_word) auto
    then have "elements (pre @ w @ post) = [w]" by (simp add: elements_gaps[OF v(4,5)])
    then have "concat (map elements ?vs) = [w]"
      unfolding concat_single using v(1-3)
      by (intro exI[of _ before] exI[of _ "pre @ w @ post"] exI[of _ after]) (simp add: elements_empty list_all_iff ball_Un)
    then show ?L
      unfolding transfer_codings_elements eq_ignore_ascii_case_def lower using v(6) by (intro exI[of _ w] conjI)
  qed
qed

definition no_body :: "field_ops \<Rightarrow> status_code \<Rightarrow> bool \<Rightarrow> bool" where
  "no_body F status head_request \<longleftrightarrow>
     head_request \<or> status_is_informational F status \<or> status = 204 \<or> status = 304"

definition framing_allowed ::
  "'h header_ops \<Rightarrow> field_ops \<Rightarrow> 'h \<Rightarrow> status_code \<Rightarrow> bool \<Rightarrow> body_mode \<Rightarrow> bool" where
  "framing_allowed H F headers status head_request md \<longleftrightarrow>
     (let codings = hm_get_all H headers ''transfer-encoding'';
          lengths = hm_get_all H headers ''content-length'' in
      case md of
        BodyEmpty \<Rightarrow> no_body F status head_request
      | BodyChunked r s c \<Rightarrow>
          \<not> no_body F status head_request \<and> r = 0 \<and> \<not> s \<and> \<not> c \<and> lengths = [] \<and> only_chunked codings
      | BodyContentLength n \<Rightarrow>
          \<not> no_body F status head_request \<and> list_all list_gap codings \<and> lengths \<noteq> [] \<and>
          (\<forall>v \<in> set lengths. length_text v (unat n))
      | BodyEof \<Rightarrow> \<not> no_body F status head_request \<and> list_all list_gap codings \<and> lengths = [])"

text \<open>
  C9. Exact framing.  The client accepts a framing exactly when it is the one the message has, so
  that no message has two: a body is empty just for a HEAD request or a status that has none;
  otherwise it is chunked just if there is no Content-Length and the only transfer coding is
  \<open>chunked\<close>, of the given length just if no coding is named and every Content-Length value, of
  which there is at least one, denotes that number, and delimited by the end of the stream just if
  neither is there.  Every other combination is refused.
\<close>

theorem response_framing_unambiguous:
  assumes "header_laws H"
  shows "response_body_mode H F headers status head_request = Inr md \<longleftrightarrow>
    framing_allowed H F headers status head_request md"
proof -
  let ?lengths = "hm_get_all H headers ''content-length''"
  have codings: "length (transfer_codings H headers) = 1 \<and> eq_ignore_ascii_case (transfer_codings H headers ! 0) ''chunked'' \<longleftrightarrow>
      only_chunked (hm_get_all H headers ''transfer-encoding'')"
    unfolding codings_chunked[symmetric] by (auto simp: length_Suc_conv)
  show ?thesis
  proof (cases "no_body F status head_request")
    case True
    then show ?thesis
      by (cases md) (auto simp: response_body_mode_def framing_allowed_def no_body_def Let_def)
  next
    case False
    show ?thesis
    proof (cases "transfer_codings H headers = []")
      case True
      moreover from True have "\<not> only_chunked (hm_get_all H headers ''transfer-encoding'')"
        using codings by auto
      moreover have "response_body_mode H F headers status head_request = Inr md \<longleftrightarrow>
          (case md of BodyContentLength n \<Rightarrow> content_length_loop None ?lengths = Inr (Some n)
           | BodyEof \<Rightarrow> content_length_loop None ?lengths = Inr None | _ \<Rightarrow> False)"
        using False True
        by (cases md) (auto simp: response_body_mode_def no_body_def Let_def split: sum.splits option.splits)
      ultimately show ?thesis
        using False unfolding content_length_loop_Some content_length_loop_None
        by (cases md) (auto simp: framing_allowed_def Let_def codings_none[symmetric])
    next
      case some: False
      then show ?thesis
        using False codings
        by (cases md) (auto simp: response_body_mode_def framing_allowed_def no_body_def Let_def codings_none[symmetric]
            header_laws_get_all(4)[OF assms])
    qed
  qed
qed

theorem response_framing_unambiguous_witness:
  "framing_allowed alist_headers demo_fields [(''transfer-encoding'', '' ,''), (''transfer-encoding'', '' Chunked'')] 200 False
     (BodyChunked 0 False False)
   \<and> \<not> framing_allowed alist_headers demo_fields [(''transfer-encoding'', '' Chunked'')] 304 False (BodyChunked 0 False False)"
proof -
  note exact = response_framing_unambiguous[OF header_laws_alist, of demo_fields]
  have "response_body_mode alist_headers demo_fields
      [(''transfer-encoding'', '' ,''), (''transfer-encoding'', '' Chunked'')] 200 False = Inr (BodyChunked 0 False False)"
    "response_body_mode alist_headers demo_fields [(''transfer-encoding'', '' Chunked'')] 304 False = Inr BodyEmpty"
    by code_simp+
  then show ?thesis unfolding exact[symmetric] by simp
qed

text \<open>
  A bare line feed ends a header line.  The head parser rejects a stray carriage return as
  "not CRLF terminated" but accepts a line that ends in a line feed alone.
\<close>

theorem bare_lf_accepted:
  "parse_response_head alist_headers demo_fields (''HTTP/1.1 200 OK'' @ [LF] @ ''a: b'') =
     Inr (200, HTTP_11, [(''a'', ''b'')])"
  by code_simp

text \<open>
  A plus sign is accepted before a length.  Content-Length and chunk sizes are read with the
  standard library's integer parsers, which take a leading plus sign that neither grammar has.
\<close>

lemma signed_lengths_accepted:
  "parse_chunk_size ''+5'' = Inr 5"
  "response_body_mode alist_headers demo_fields [(''content-length'', ''+5'')] 200 False = Inr (BodyContentLength 5)"
  by code_simp+

end
