(* ===== verification/Client_Pool.thy ===== *)
theory Client_Pool
  imports H12_Prelude "HOL-Library.Multiset"
begin

text \<open>
  The per-origin connection pool of the futures-based client
  (\<^verbatim>\<open>src/crates/h12tiny-client/src/pool.rs\<close>).  One definition per method; every method body that
  runs under the pool's mutex is one state transformation.

  The item type is a parameter (the trait \<^verbatim>\<open>Poolable\<close>): \<open>reserve\<close> and \<open>can_share\<close> are fixed for an
  item, while \<^verbatim>\<open>is_open\<close> asks the connection at the time of the call and is therefore an argument
  \<open>opn\<close> of each operation that asks.  One-shot channels are numbered; \<open>channels\<close> holds what the
  receiver of each would see.  A receiver can be dropped by its task between the moment \<^verbatim>\<open>put\<close>
  has seen it alive and the send; the argument \<open>raced\<close> says for which channels that happens.
  Instants and durations are numbers of milliseconds.  Poisoned mutexes are not modelled.
\<close>

section \<open>Items, reservations and events\<close>

datatype 'v reservation = Shared 'v 'v | Unique 'v

record 'v pool_item =
  reserve :: "'v \<Rightarrow> 'v reservation"
  can_share :: "'v \<Rightarrow> bool"

datatype protocol = ProtoAuto | ProtoHttp1 | ProtoHttp2

datatype connection_protocol = ConnHttp1 | ConnHttp2

datatype 'k debug_event =
    PoolCheckoutEvent 'k
  | ConnectionEstablished 'k connection_protocol
  | AlpnSelected 'k connection_protocol
  | ConnectionPooled 'k
  | PoolEvicted 'k
  | ConnectionClosed 'k
  | StaleRetry 'k

record pool_config =
  cfg_idle_timeout :: "duration option"
  cfg_max_idle_per_host :: nat
  cfg_max_h1_connections_per_host :: nat

definition config_enabled :: "pool_config \<Rightarrow> bool" where
  "config_enabled c \<longleftrightarrow> cfg_max_idle_per_host c > 0"

section \<open>State\<close>

record 'v idle_entry =
  idle_value :: 'v
  idle_at :: nat

datatype 'v channel = Waiting | Delivered 'v | SenderDropped | ReceiverDropped

record ('k, 'v) inner =
  connecting_set :: "'k set"
  h1_connections :: "'k \<Rightarrow> nat option"
  idle :: "'k \<Rightarrow> 'v idle_entry list option"
  max_idle_per_host :: nat
  max_h1_connections_per_host :: nat
  waiters :: "'k \<Rightarrow> nat list option"
  idle_interval :: "duration option"
  has_timer :: bool
  idle_timeout :: "duration option"
  channels :: "nat \<Rightarrow> 'v channel"
  next_channel :: nat

record ('k, 'v) pool =
  pool_inner :: "('k, 'v) inner option"
  debug_log :: "'k debug_event list option"

definition record_events :: "'k debug_event list \<Rightarrow> ('k, 'v) pool \<Rightarrow> ('k, 'v) pool" where
  "record_events evs p = p\<lparr>debug_log := map_option (\<lambda>l. l @ evs) (debug_log p)\<rparr>"

definition drain_events :: "('k, 'v) pool \<Rightarrow> 'k debug_event list option \<times> ('k, 'v) pool" where
  "drain_events p = (debug_log p, p\<lparr>debug_log := map_option (\<lambda>l. []) (debug_log p)\<rparr>)"

definition pool_new :: "pool_config \<Rightarrow> bool \<Rightarrow> bool \<Rightarrow> ('k, 'v) pool" where
  "pool_new c timer debug =
     \<lparr>pool_inner =
        (if config_enabled c then
           Some \<lparr>connecting_set = {}, h1_connections = (\<lambda>k. None), idle = (\<lambda>k. None),
                 max_idle_per_host = cfg_max_idle_per_host c,
                 max_h1_connections_per_host = cfg_max_h1_connections_per_host c,
                 waiters = (\<lambda>k. None), idle_interval = None, has_timer = timer,
                 idle_timeout = cfg_idle_timeout c, channels = (\<lambda>w. Waiting), next_channel = 0\<rparr>
         else None),
      debug_log = (if debug then Some [] else None)\<rparr>"

definition is_enabled :: "('k, 'v) pool \<Rightarrow> bool" where
  "is_enabled p \<longleftrightarrow> pool_inner p \<noteq> None"

record 'k connecting =
  cn_key :: 'k
  cn_pool :: bool
  cn_h1_slot :: bool

record ('k, 'v) pooled =
  pv_value :: 'v
  pv_is_reused :: bool
  pv_key :: 'k
  pv_pool :: bool
  pv_h1_slot :: bool

record 'k checkout =
  ck_key :: 'k
  ck_waiter :: "nat option"

datatype checkout_error = PoolDisabled | NoLongerWanted | ClosedValue

definition is_cancellation :: "checkout_error \<Rightarrow> bool" where
  "is_cancellation e \<longleftrightarrow> e = ClosedValue"

section \<open>Operations on the shared state\<close>

definition expires :: "duration option \<Rightarrow> nat \<Rightarrow> nat \<Rightarrow> bool" where
  "expires timeout at now = (case timeout of Some t \<Rightarrow> now - at > t | None \<Rightarrow> False)"

function idle_pop ::
  "'v pool_item \<Rightarrow> ('v \<Rightarrow> bool) \<Rightarrow> duration option \<Rightarrow> nat \<Rightarrow> 'v idle_entry list
     \<Rightarrow> 'v idle_entry option \<times> 'v idle_entry list \<times> nat" where
  "idle_pop P opn timeout now list =
     (if list = [] then (None, [], 0)
      else
        (let entry = last list; rest = butlast list in
         if \<not> opn (idle_value entry) \<or> expires timeout (idle_at entry) now then
           (case idle_pop P opn timeout now rest of (r, l, evicted) \<Rightarrow> (r, l, evicted + 1))
         else
           (case reserve P (idle_value entry) of
              Shared to_reinsert to_checkout \<Rightarrow>
                (Some \<lparr>idle_value = to_checkout, idle_at = idle_at entry\<rparr>,
                 rest @ [\<lparr>idle_value = to_reinsert, idle_at = now\<rparr>], 0)
            | Unique v \<Rightarrow> (Some \<lparr>idle_value = v, idle_at = idle_at entry\<rparr>, rest, 0))))"
  by pat_completeness auto
termination
  by (relation "measure (\<lambda>(P, opn, timeout, now, list). length list)") auto

declare idle_pop.simps [simp del]

fun put_waiters ::
  "'v pool_item \<Rightarrow> (nat \<Rightarrow> bool) \<Rightarrow> (nat \<Rightarrow> 'v channel) \<Rightarrow> 'v \<Rightarrow> nat list
     \<Rightarrow> 'v option \<times> nat list \<times> (nat \<Rightarrow> 'v channel)" where
  "put_waiters P raced ch v [] = (Some v, [], ch)"
| "put_waiters P raced ch v (w # ws) =
     (if ch w = ReceiverDropped then put_waiters P raced ch v ws
      else case reserve P v of
        Shared to_keep to_send \<Rightarrow>
          if raced w then put_waiters P raced (ch(w := ReceiverDropped)) to_send ws
          else put_waiters P raced (ch(w := Delivered to_send)) to_keep ws
      | Unique v' \<Rightarrow>
          if raced w then put_waiters P raced (ch(w := ReceiverDropped)) v' ws
          else (None, ws, ch(w := Delivered v')))"

definition spawn_idle_interval :: "('k, 'v) inner \<Rightarrow> ('k, 'v) inner" where
  "spawn_idle_interval i =
     (if idle_interval i \<noteq> None then i
      else case idle_timeout i of
        None \<Rightarrow> i
      | Some t \<Rightarrow> if t > 0 \<and> has_timer i then i\<lparr>idle_interval := Some (max t 90)\<rparr> else i)"

definition set_waiters :: "'k \<Rightarrow> nat list \<Rightarrow> ('k, 'v) inner \<Rightarrow> ('k, 'v) inner" where
  "set_waiters k ws i = i\<lparr>waiters := (waiters i)(k := if ws = [] then None else Some ws)\<rparr>"

definition put_serve ::
  "'v pool_item \<Rightarrow> (nat \<Rightarrow> bool) \<Rightarrow> 'k \<Rightarrow> 'v \<Rightarrow> ('k, 'v) inner \<Rightarrow> 'v option \<times> ('k, 'v) inner" where
  "put_serve P raced k v i =
     (case waiters i k of
        None \<Rightarrow> (Some v, i)
      | Some q \<Rightarrow>
          (case put_waiters P raced (channels i) v q of (rest, ws, ch) \<Rightarrow>
             (rest, set_waiters k ws (i\<lparr>channels := ch\<rparr>))))"

definition put_idle :: "nat \<Rightarrow> 'k \<Rightarrow> 'v \<Rightarrow> ('k, 'v) inner \<Rightarrow> bool \<times> ('k, 'v) inner" where
  "put_idle now k v i =
     (let list = (case idle i k of Some l \<Rightarrow> l | None \<Rightarrow> []) in
      if length list \<ge> max_idle_per_host i then (False, i\<lparr>idle := (idle i)(k \<mapsto> list)\<rparr>)
      else (True, spawn_idle_interval
              (i\<lparr>idle := (idle i)(k \<mapsto> list @ [\<lparr>idle_value = v, idle_at = now\<rparr>])\<rparr>)))"

definition put ::
  "'v pool_item \<Rightarrow> (nat \<Rightarrow> bool) \<Rightarrow> nat \<Rightarrow> 'k \<Rightarrow> 'v \<Rightarrow> ('k, 'v) inner \<Rightarrow> bool \<times> ('k, 'v) inner" where
  "put P raced now k v i =
     (if can_share P v \<and> idle i k \<noteq> None then (False, i)
      else case put_serve P raced k v i of
        (None, i') \<Rightarrow> (True, i')
      | (Some v', i') \<Rightarrow> put_idle now k v' i')"

definition reserve_h1_slot :: "'k \<Rightarrow> ('k, 'v) inner \<Rightarrow> bool \<times> ('k, 'v) inner" where
  "reserve_h1_slot k i =
     (let n = (case h1_connections i k of Some n \<Rightarrow> n | None \<Rightarrow> 0) in
      if n \<ge> max_h1_connections_per_host i
      then (False, i\<lparr>h1_connections := (h1_connections i)(k \<mapsto> n)\<rparr>)
      else (True, i\<lparr>h1_connections := (h1_connections i)(k \<mapsto> n + 1)\<rparr>))"

definition release_h1_slot :: "'k \<Rightarrow> ('k, 'v) inner \<Rightarrow> ('k, 'v) inner" where
  "release_h1_slot k i =
     (case h1_connections i k of
        None \<Rightarrow> i
      | Some n \<Rightarrow>
          i\<lparr>h1_connections := (h1_connections i)(k := if n - 1 = 0 then None else Some (n - 1))\<rparr>)"

text \<open>\<^verbatim>\<open>self.waiters.remove(key)\<close> drops the queued senders, which their receivers observe.\<close>

definition remove_waiters :: "'k \<Rightarrow> ('k, 'v) inner \<Rightarrow> ('k, 'v) inner" where
  "remove_waiters k i =
     (let ws = (case waiters i k of Some q \<Rightarrow> q | None \<Rightarrow> []) in
      i\<lparr>waiters := (waiters i)(k := None),
        channels := (\<lambda>w. if w \<in> set ws \<and> channels i w = Waiting then SenderDropped
                          else channels i w)\<rparr>)"

definition connected :: "'k \<Rightarrow> ('k, 'v) inner \<Rightarrow> ('k, 'v) inner" where
  "connected k i = remove_waiters k (i\<lparr>connecting_set := connecting_set i - {k}\<rparr>)"

definition connecting_cancelled :: "'k \<Rightarrow> bool \<Rightarrow> ('k, 'v) inner \<Rightarrow> ('k, 'v) inner" where
  "connecting_cancelled k h1_slot i =
     remove_waiters k
       (if h1_slot then release_h1_slot k i
        else i\<lparr>connecting_set := connecting_set i - {k}\<rparr>)"

definition clean_waiters :: "'k \<Rightarrow> ('k, 'v) inner \<Rightarrow> ('k, 'v) inner" where
  "clean_waiters k i =
     (case waiters i k of
        None \<Rightarrow> i
      | Some q \<Rightarrow> set_waiters k (filter (\<lambda>w. channels i w \<noteq> ReceiverDropped) q) i)"

definition keep_entry :: "('v \<Rightarrow> bool) \<Rightarrow> duration \<Rightarrow> nat \<Rightarrow> 'v idle_entry \<Rightarrow> bool" where
  "keep_entry opn timeout now entry \<longleftrightarrow> opn (idle_value entry) \<and> now - idle_at entry \<le> timeout"

text \<open>
  \<open>order\<close> lists the keys of the idle map in the order its iteration visits them; it only
  determines the order of the recorded events.
\<close>

definition clear_expired ::
  "('v \<Rightarrow> bool) \<Rightarrow> nat \<Rightarrow> 'k list \<Rightarrow> duration \<Rightarrow> ('k, 'v) inner \<Rightarrow> 'k debug_event list \<times> ('k, 'v) inner" where
  "clear_expired opn now order timeout i =
     (concat (map (\<lambda>k. case idle i k of
          Some l \<Rightarrow> map (\<lambda>e. PoolEvicted k) (filter (\<lambda>e. \<not> keep_entry opn timeout now e) l)
        | None \<Rightarrow> []) order),
      i\<lparr>idle := (\<lambda>k. case idle i k of
          Some l \<Rightarrow>
            (case filter (keep_entry opn timeout now) l of [] \<Rightarrow> None | l' \<Rightarrow> Some l')
        | None \<Rightarrow> None)\<rparr>)"

section \<open>Operations of the handles\<close>

definition pool_checkout :: "'k \<Rightarrow> ('k, 'v) pool \<Rightarrow> 'k checkout \<times> ('k, 'v) pool" where
  "pool_checkout k p = (\<lparr>ck_key = k, ck_waiter = None\<rparr>, record_events [PoolCheckoutEvent k] p)"

definition pool_connecting ::
  "'k \<Rightarrow> protocol \<Rightarrow> ('k, 'v) pool \<Rightarrow> 'k connecting option \<times> ('k, 'v) pool" where
  "pool_connecting k proto p =
     (case pool_inner p of
        None \<Rightarrow> (Some \<lparr>cn_key = k, cn_pool = False, cn_h1_slot = False\<rparr>, p)
      | Some i \<Rightarrow>
          if proto = ProtoHttp2 then
            if k \<in> connecting_set i then (None, p)
            else (Some \<lparr>cn_key = k, cn_pool = True, cn_h1_slot = False\<rparr>,
                  p\<lparr>pool_inner := Some (i\<lparr>connecting_set := insert k (connecting_set i)\<rparr>)\<rparr>)
          else
            (case reserve_h1_slot k i of (ok, i') \<Rightarrow>
               (if ok then Some \<lparr>cn_key = k, cn_pool = True, cn_h1_slot = True\<rparr> else None,
                p\<lparr>pool_inner := Some i'\<rparr>)))"

definition pool_pooled ::
  "'v pool_item \<Rightarrow> (nat \<Rightarrow> bool) \<Rightarrow> nat \<Rightarrow> 'k connecting \<Rightarrow> 'v \<Rightarrow> ('k, 'v) pool
     \<Rightarrow> ('k, 'v) pooled \<times> ('k, 'v) pool" where
  "pool_pooled P raced now c v p =
     (case pool_inner p of
        None \<Rightarrow>
          (\<lparr>pv_value = v, pv_is_reused = False, pv_key = cn_key c, pv_pool = False,
            pv_h1_slot = False\<rparr>, p)
      | Some i \<Rightarrow>
          (case reserve P v of
             Shared to_insert to_return \<Rightarrow>
               (case put P raced now (cn_key c) to_insert i of (inserted, i') \<Rightarrow>
                  (\<lparr>pv_value = to_return, pv_is_reused = False, pv_key = cn_key c, pv_pool = False,
                    pv_h1_slot = False\<rparr>,
                   record_events (if inserted then [ConnectionPooled (cn_key c)] else [])
                     (p\<lparr>pool_inner := Some (connected (cn_key c) i')\<rparr>)))
           | Unique v' \<Rightarrow>
               (\<lparr>pv_value = v', pv_is_reused = False, pv_key = cn_key c, pv_pool = True,
                 pv_h1_slot = cn_h1_slot c\<rparr>, p)))"

definition pool_reuse :: "'v pool_item \<Rightarrow> 'k \<Rightarrow> 'v \<Rightarrow> ('k, 'v) pool \<Rightarrow> ('k, 'v) pooled" where
  "pool_reuse P k v p =
     \<lparr>pv_value = v, pv_is_reused = True, pv_key = k,
      pv_pool = (\<not> can_share P v \<and> pool_inner p \<noteq> None), pv_h1_slot = (\<not> can_share P v)\<rparr>"

definition pooled_release :: "('k, 'v) pooled \<Rightarrow> ('k, 'v) pool \<Rightarrow> ('k, 'v) pool" where
  "pooled_release h p =
     (if pv_h1_slot h \<and> pv_pool h
      then p\<lparr>pool_inner := map_option (release_h1_slot (pv_key h)) (pool_inner p)\<rparr> else p)"

definition pooled_drop ::
  "'v pool_item \<Rightarrow> ('v \<Rightarrow> bool) \<Rightarrow> (nat \<Rightarrow> bool) \<Rightarrow> nat \<Rightarrow> ('k, 'v) pooled \<Rightarrow> ('k, 'v) pool \<Rightarrow> ('k, 'v) pool" where
  "pooled_drop P opn raced now h p =
     (if \<not> opn (pv_value h)
      then record_events [ConnectionClosed (pv_key h)] (pooled_release h p)
      else case (if pv_pool h then pool_inner p else None) of
        Some i \<Rightarrow>
          (case put P raced now (pv_key h) (pv_value h) i of (stored, i') \<Rightarrow>
             if stored then record_events [ConnectionPooled (pv_key h)] (p\<lparr>pool_inner := Some i'\<rparr>)
             else if pv_h1_slot h then p\<lparr>pool_inner := Some (release_h1_slot (pv_key h) i')\<rparr>
             else p\<lparr>pool_inner := Some i'\<rparr>)
      | None \<Rightarrow> pooled_release h p)"

definition set_channel :: "nat \<Rightarrow> 'v channel \<Rightarrow> ('k, 'v) inner \<Rightarrow> ('k, 'v) inner" where
  "set_channel w s i = i\<lparr>channels := (channels i)(w := s)\<rparr>"

definition poll_waiter ::
  "'v pool_item \<Rightarrow> ('v \<Rightarrow> bool) \<Rightarrow> 'k checkout \<Rightarrow> ('k, 'v) pool
     \<Rightarrow> (checkout_error, ('k, 'v) pooled) result option poll \<times> 'k checkout \<times> ('k, 'v) pool" where
  "poll_waiter P opn c p =
     (case (ck_waiter c, pool_inner p) of
        (Some w, Some i) \<Rightarrow>
          (let c' = c\<lparr>ck_waiter := None\<rparr>;
               p' = p\<lparr>pool_inner := Some (set_channel w ReceiverDropped i)\<rparr>
           in case channels i w of
                Delivered v \<Rightarrow>
                  if opn v then (Ready (Some (Inr (pool_reuse P (ck_key c) v p))), c', p')
                  else (Ready (Some (Inl ClosedValue)), c', p')
              | SenderDropped \<Rightarrow> (Ready (Some (Inl NoLongerWanted)), c', p')
              | _ \<Rightarrow> (Pending, c, p))
      | _ \<Rightarrow> (Ready None, c, p))"

definition checkout_idle ::
  "'v pool_item \<Rightarrow> ('v \<Rightarrow> bool) \<Rightarrow> nat \<Rightarrow> 'k \<Rightarrow> ('k, 'v) inner
     \<Rightarrow> 'v idle_entry option \<times> nat \<times> ('k, 'v) inner" where
  "checkout_idle P opn now k i =
     (case idle i k of
        None \<Rightarrow> (None, 0, i\<lparr>idle := (idle i)(k := None)\<rparr>)
      | Some entries \<Rightarrow>
          (case idle_pop P opn (idle_timeout i) now entries of (entry, l, evicted) \<Rightarrow>
             (entry, evicted,
              i\<lparr>idle := (idle i)(k := if entry = None \<or> l = [] then None else Some l)\<rparr>)))"

definition checkout_wait :: "'k checkout \<Rightarrow> ('k, 'v) inner \<Rightarrow> 'k checkout \<times> ('k, 'v) inner" where
  "checkout_wait c i =
     (if ck_waiter c = None then
        (c\<lparr>ck_waiter := Some (next_channel i)\<rparr>,
         i\<lparr>waiters := (waiters i)(ck_key c \<mapsto>
              (case waiters i (ck_key c) of Some q \<Rightarrow> q | None \<Rightarrow> []) @ [next_channel i]),
           channels := (channels i)(next_channel i := Waiting),
           next_channel := next_channel i + 1\<rparr>)
      else (c, i))"

definition checkout_checkout ::
  "'v pool_item \<Rightarrow> ('v \<Rightarrow> bool) \<Rightarrow> nat \<Rightarrow> 'k checkout \<Rightarrow> ('k, 'v) pool
     \<Rightarrow> ('k, 'v) pooled option \<times> 'k checkout \<times> ('k, 'v) pool" where
  "checkout_checkout P opn now c p =
     (case pool_inner p of
        None \<Rightarrow> (None, c, p)
      | Some i \<Rightarrow>
          (case checkout_idle P opn now (ck_key c) i of (entry, evicted, i1) \<Rightarrow>
             (let p1 = record_events (replicate evicted (PoolEvicted (ck_key c))) p in
              case entry of
                Some e \<Rightarrow> (Some (pool_reuse P (ck_key c) (idle_value e) p), c, p1\<lparr>pool_inner := Some i1\<rparr>)
              | None \<Rightarrow>
                  (case checkout_wait c i1 of (c', i2) \<Rightarrow> (None, c', p1\<lparr>pool_inner := Some i2\<rparr>)))))"

definition checkout_poll ::
  "'v pool_item \<Rightarrow> ('v \<Rightarrow> bool) \<Rightarrow> nat \<Rightarrow> 'k checkout \<Rightarrow> ('k, 'v) pool
     \<Rightarrow> (checkout_error, ('k, 'v) pooled) result poll \<times> 'k checkout \<times> ('k, 'v) pool" where
  "checkout_poll P opn now c0 p0 =
     (case poll_waiter P opn c0 p0 of
        (Ready (Some r), c, p) \<Rightarrow> (Ready r, c, p)
      | (_, c, p) \<Rightarrow>
          (case checkout_checkout P opn now c p of
             (Some h, c', p') \<Rightarrow> (Ready (Inr h), c', p')
           | (None, c', p') \<Rightarrow>
               (if \<not> is_enabled p' then Ready (Inl PoolDisabled) else Pending, c', p')))"

definition checkout_drop :: "'k checkout \<Rightarrow> ('k, 'v) pool \<Rightarrow> ('k, 'v) pool" where
  "checkout_drop c p =
     (case ck_waiter c of
        None \<Rightarrow> p
      | Some w \<Rightarrow>
          p\<lparr>pool_inner := map_option (\<lambda>i. clean_waiters (ck_key c) (set_channel w ReceiverDropped i))
              (pool_inner p)\<rparr>)"

definition alpn_h2 ::
  "'k connecting \<Rightarrow> ('k, 'v) pool \<Rightarrow> 'k connecting option \<times> ('k, 'v) pool" where
  "alpn_h2 c p =
     pool_connecting (cn_key c) ProtoHttp2
       (if cn_h1_slot c \<and> cn_pool c
        then p\<lparr>pool_inner := map_option (release_h1_slot (cn_key c)) (pool_inner p)\<rparr> else p)"

definition connecting_drop :: "'k connecting \<Rightarrow> ('k, 'v) pool \<Rightarrow> ('k, 'v) pool" where
  "connecting_drop c p =
     (if cn_pool c
      then p\<lparr>pool_inner := map_option (connecting_cancelled (cn_key c) (cn_h1_slot c)) (pool_inner p)\<rparr>
      else p)"

text \<open>One round of the background task, which runs only when a timeout is configured.\<close>

definition idle_task_tick :: "('v \<Rightarrow> bool) \<Rightarrow> nat \<Rightarrow> 'k list \<Rightarrow> ('k, 'v) pool \<Rightarrow> ('k, 'v) pool" where
  "idle_task_tick opn now order p =
     (case pool_inner p of
        Some i \<Rightarrow>
          (case (idle_interval i, idle_timeout i) of
             (Some _, Some timeout) \<Rightarrow>
               (case clear_expired opn now order timeout i of (evs, i') \<Rightarrow>
                  record_events evs (p\<lparr>pool_inner := Some i'\<rparr>))
           | _ \<Rightarrow> p)
      | None \<Rightarrow> p)"

text \<open>
  The background task (\<^verbatim>\<open>IdleTask::run\<close>) as polled by its executor.  It sleeps for its interval, counted
  from its first poll and then from each round, and ends when the pool is dropped, which it
  checks first.  Its interval is never zero (\<open>spawn_idle_interval\<close>), so a round leaves it asleep.
\<close>

datatype idle_task = ItStart duration | ItSleeping duration nat | ItDone

fun idle_task_poll ::
  "('v \<Rightarrow> bool) \<Rightarrow> nat \<Rightarrow> 'k list \<Rightarrow> bool \<Rightarrow> idle_task \<Rightarrow> ('k, 'v) pool
     \<Rightarrow> unit poll \<times> idle_task \<times> ('k, 'v) pool" where
  "idle_task_poll opn now order pool_dropped (ItStart d) p =
     (if pool_dropped then (Ready (), ItDone, p) else (Pending, ItSleeping d (now + d), p))"
| "idle_task_poll opn now order pool_dropped (ItSleeping d at) p =
     (if pool_dropped then (Ready (), ItDone, p)
      else if at \<le> now then (Pending, ItSleeping d (now + d), idle_task_tick opn now order p)
      else (Pending, ItSleeping d at, p))"
| "idle_task_poll opn now order pool_dropped ItDone p = (Pending, ItDone, p)"

end
