(* ===== verification/Client_Pool_Inv.thy ===== *)
theory Client_Pool_Inv
  imports Client_Pool
begin

text \<open>
  The pool as a state machine.  A world is the pool together with the handles its clients hold:
  establishment guards, checked-out connections and pending checkouts.  Each step is one call
  on the pool, with any outcome of the environment (which connections are open, which
  receivers are dropped concurrently, the clock).  The invariants are proved for every
  reachable world and every interleaving.
\<close>

section \<open>The contract of pool items\<close>

text \<open>
  The trait \<^verbatim>\<open>Poolable\<close>: a shareable item splits into two shareable ones, any other item is
  handed on as it is.
\<close>

locale poolable =
  fixes P :: "'v pool_item"
  assumes shared: "can_share P v \<Longrightarrow> \<exists>a b. reserve P v = Shared a b \<and> can_share P a \<and> can_share P b"
    and unique: "\<not> can_share P v \<Longrightarrow> reserve P v = Unique v"

section \<open>Worlds and steps\<close>

record ('k, 'v) world =
  w_pool :: "('k, 'v) pool"
  w_connecting :: "'k connecting multiset"
  w_pooled :: "('k, 'v) pooled multiset"
  w_checkouts :: "'k checkout multiset"

inductive pool_step :: "'v pool_item \<Rightarrow> ('k, 'v) world \<Rightarrow> ('k, 'v) world \<Rightarrow> bool"
  for P :: "'v pool_item" where
  new_checkout: "pool_checkout k (w_pool w) = (c, p') \<Longrightarrow>
    pool_step P w (w\<lparr>w_pool := p', w_checkouts := add_mset c (w_checkouts w)\<rparr>)"
| poll_pending: "w_checkouts w = add_mset c cs \<Longrightarrow>
    checkout_poll P opn now c (w_pool w) = (Pending, c', p') \<Longrightarrow>
    pool_step P w (w\<lparr>w_pool := p', w_checkouts := add_mset c' cs\<rparr>)"
| poll_ready: "w_checkouts w = add_mset c cs \<Longrightarrow>
    checkout_poll P opn now c (w_pool w) = (Ready (Inr h), c', p') \<Longrightarrow>
    pool_step P w (w\<lparr>w_pool := p', w_checkouts := add_mset c' cs,
                     w_pooled := add_mset h (w_pooled w)\<rparr>)"
| poll_failed: "w_checkouts w = add_mset c cs \<Longrightarrow>
    checkout_poll P opn now c (w_pool w) = (Ready (Inl e), c', p') \<Longrightarrow>
    pool_step P w (w\<lparr>w_pool := p', w_checkouts := add_mset c' cs\<rparr>)"
| drop_checkout: "w_checkouts w = add_mset c cs \<Longrightarrow>
    pool_step P w (w\<lparr>w_pool := checkout_drop c (w_pool w), w_checkouts := cs\<rparr>)"
| start_connecting: "pool_connecting k proto (w_pool w) = (r, p') \<Longrightarrow>
    pool_step P w (w\<lparr>w_pool := p',
      w_connecting := (case r of Some c \<Rightarrow> {#c#} | None \<Rightarrow> {#}) + w_connecting w\<rparr>)"
| negotiated_h2: "w_connecting w = add_mset c cs \<Longrightarrow> alpn_h2 c (w_pool w) = (r, p') \<Longrightarrow>
    pool_step P w (w\<lparr>w_pool := p',
      w_connecting := (case r of Some c' \<Rightarrow> {#c'#} | None \<Rightarrow> {#}) + cs\<rparr>)"
| drop_connecting: "w_connecting w = add_mset c cs \<Longrightarrow>
    pool_step P w (w\<lparr>w_pool := connecting_drop c (w_pool w), w_connecting := cs\<rparr>)"
| established: "w_connecting w = add_mset c cs \<Longrightarrow>
    (is_enabled (w_pool w) \<Longrightarrow> cn_h1_slot c \<longleftrightarrow> \<not> can_share P v) \<Longrightarrow>
    pool_pooled P raced now c v (w_pool w) = (h, p') \<Longrightarrow>
    pool_step P w (w\<lparr>w_pool := p', w_connecting := cs, w_pooled := add_mset h (w_pooled w)\<rparr>)"
| drop_pooled: "w_pooled w = add_mset h hs \<Longrightarrow>
    pool_step P w (w\<lparr>w_pool := pooled_drop P opn raced now h (w_pool w), w_pooled := hs\<rparr>)"
| tick: "pool_step P w (w\<lparr>w_pool := idle_task_tick opn now order (w_pool w)\<rparr>)"
| observe: "pool_step P w (w\<lparr>w_pool := record_events evs (w_pool w)\<rparr>)"

definition initial_world :: "pool_config \<Rightarrow> bool \<Rightarrow> bool \<Rightarrow> ('k, 'v) world" where
  "initial_world cfg timer debug =
     \<lparr>w_pool = pool_new cfg timer debug, w_connecting = {#}, w_pooled = {#}, w_checkouts = {#}\<rparr>"

inductive pool_reachable ::
  "'v pool_item \<Rightarrow> pool_config \<Rightarrow> bool \<Rightarrow> bool \<Rightarrow> ('k, 'v) world \<Rightarrow> bool"
  for P :: "'v pool_item" and cfg :: pool_config and timer debug :: bool where
  init: "pool_reachable P cfg timer debug (initial_world cfg timer debug)"
| step: "pool_reachable P cfg timer debug w \<Longrightarrow> pool_step P w w' \<Longrightarrow>
    pool_reachable P cfg timer debug w'"

section \<open>Quantities\<close>

definition slots_taken :: "('k, 'v) inner \<Rightarrow> 'k \<Rightarrow> nat" where
  "slots_taken i k = (case h1_connections i k of Some n \<Rightarrow> n | None \<Rightarrow> 0)"

definition establishing :: "'k connecting multiset \<Rightarrow> 'k \<Rightarrow> nat" where
  "establishing cs k = size (filter_mset (\<lambda>c. cn_key c = k \<and> cn_pool c \<and> cn_h1_slot c) cs)"

definition establishing_h2 :: "'k connecting multiset \<Rightarrow> 'k \<Rightarrow> nat" where
  "establishing_h2 cs k = size (filter_mset (\<lambda>c. cn_key c = k \<and> cn_pool c \<and> \<not> cn_h1_slot c) cs)"

definition in_use :: "('k, 'v) pooled multiset \<Rightarrow> 'k \<Rightarrow> nat" where
  "in_use hs k = size (filter_mset (\<lambda>h. pv_key h = k \<and> pv_pool h \<and> pv_h1_slot h) hs)"

definition idle_h1 :: "'v pool_item \<Rightarrow> ('k, 'v) inner \<Rightarrow> 'k \<Rightarrow> nat" where
  "idle_h1 P i k =
     (case idle i k of
        Some l \<Rightarrow> length (filter (\<lambda>e. \<not> can_share P (idle_value e)) l)
      | None \<Rightarrow> 0)"

fun holds_h1 :: "'v pool_item \<Rightarrow> 'v channel \<Rightarrow> bool" where
  "holds_h1 P (Delivered v) = (\<not> can_share P v)"
| "holds_h1 P _ = False"

definition carries_h1 :: "'v pool_item \<Rightarrow> ('k, 'v) inner \<Rightarrow> nat \<Rightarrow> bool" where
  "carries_h1 P i w = holds_h1 P (channels i w)"

definition handed_over :: "'v pool_item \<Rightarrow> ('k, 'v) inner \<Rightarrow> 'k checkout multiset \<Rightarrow> 'k \<Rightarrow> nat" where
  "handed_over P i cs k =
     size (filter_mset (\<lambda>c. ck_key c = k \<and>
       (case ck_waiter c of Some w \<Rightarrow> carries_h1 P i w | None \<Rightarrow> False)) cs)"

definition open_h1 :: "'v pool_item \<Rightarrow> ('k, 'v) inner \<Rightarrow> ('k, 'v) world \<Rightarrow> 'k \<Rightarrow> nat" where
  "open_h1 P i w k =
     establishing (w_connecting w) k + in_use (w_pooled w) k + idle_h1 P i k
     + handed_over P i (w_checkouts w) k"

lemmas quantity_defs = establishing_def establishing_h2_def in_use_def

section \<open>Effects of the operations on the quantities\<close>

text \<open>\<open>calm\<close>: an operation that neither hands a unique item over nor adds one to the idle list.\<close>

definition calm :: "'v pool_item \<Rightarrow> ('k, 'v) inner \<Rightarrow> ('k, 'v) inner \<Rightarrow> bool" where
  "calm P i i' \<longleftrightarrow> (\<forall>w. carries_h1 P i' w \<longrightarrow> carries_h1 P i w) \<and> (\<forall>k. idle_h1 P i' k \<le> idle_h1 P i k)"

text \<open>\<open>same_limits\<close>: the slot counters, markers and limits are untouched.\<close>

definition same_limits :: "('k, 'v) inner \<Rightarrow> ('k, 'v) inner \<Rightarrow> bool" where
  "same_limits i i' \<longleftrightarrow> h1_connections i' = h1_connections i \<and> connecting_set i' = connecting_set i
     \<and> max_h1_connections_per_host i' = max_h1_connections_per_host i
     \<and> max_idle_per_host i' = max_idle_per_host i"

lemma calm_refl [simp]: "calm P i i"
  by (simp add: calm_def)

lemma calm_trans: "calm P i j \<Longrightarrow> calm P j l \<Longrightarrow> calm P i l"
  unfolding calm_def by (meson order_trans)

lemma same_limits_refl [simp]: "same_limits i i"
  by (simp add: same_limits_def)

lemma same_limits_trans: "same_limits i j \<Longrightarrow> same_limits j l \<Longrightarrow> same_limits i l"
  by (simp add: same_limits_def)

lemma calm_channels_idle:
  assumes "\<And>w. holds_h1 P (channels i' w) \<Longrightarrow> holds_h1 P (channels i w)" "idle i' = idle i"
  shows "calm P i i'"
  using assms by (simp add: calm_def carries_h1_def idle_h1_def)

lemma spawn_idle_interval_fields [simp]:
  "channels (spawn_idle_interval i) = channels i" "idle (spawn_idle_interval i) = idle i"
  "waiters (spawn_idle_interval i) = waiters i" "next_channel (spawn_idle_interval i) = next_channel i"
  "same_limits i (spawn_idle_interval i)"
  by (auto simp: spawn_idle_interval_def same_limits_def split: option.splits)

lemma remove_waiters_effect [simp]:
  "calm P i (remove_waiters k i)" "same_limits i (remove_waiters k i)"
  "idle (remove_waiters k i) = idle i" "next_channel (remove_waiters k i) = next_channel i"
  by (rule calm_channels_idle)
    (auto simp: remove_waiters_def same_limits_def Let_def split: if_splits)

abbreviation h1_count :: "'v pool_item \<Rightarrow> 'v idle_entry list \<Rightarrow> nat" where
  "h1_count P l \<equiv> length (filter (\<lambda>e. \<not> can_share P (idle_value e)) l)"

lemma idle_pop_Nil: "idle_pop P opn t now [] = (None, [], 0)"
  by (simp add: idle_pop.simps)

lemma idle_pop_snoc:
  "idle_pop P opn t now (l @ [e]) =
     (if \<not> opn (idle_value e) \<or> expires t (idle_at e) now
      then (case idle_pop P opn t now l of (r, l', n) \<Rightarrow> (r, l', n + 1))
      else case reserve P (idle_value e) of
        Shared a b \<Rightarrow> (Some \<lparr>idle_value = b, idle_at = idle_at e\<rparr>, l @ [\<lparr>idle_value = a, idle_at = now\<rparr>], 0)
      | Unique v \<Rightarrow> (Some \<lparr>idle_value = v, idle_at = idle_at e\<rparr>, l, 0))"
  by (simp add: idle_pop.simps[of P opn t now "l @ [e]"] Let_def)

context poolable
begin

lemma reserve_cases:
  obtains a b where "reserve P v = Shared a b" "can_share P v" "can_share P a" "can_share P b"
  | "reserve P v = Unique v" "\<not> can_share P v"
  using shared unique by blast

lemma idle_pop_effect:
  "idle_pop P opn t now l = (r, l', n) \<Longrightarrow>
     h1_count P l' + (case r of Some e \<Rightarrow> if can_share P (idle_value e) then 0 else 1 | None \<Rightarrow> 0)
       \<le> h1_count P l \<and> length l' \<le> length l \<and> (r = None \<longrightarrow> l' = [])"
proof (induction l arbitrary: r l' n rule: rev_induct)
  case (snoc e l)
  show ?case
  proof (cases "\<not> opn (idle_value e) \<or> expires t (idle_at e) now")
    case True
    then obtain n' where "idle_pop P opn t now l = (r, l', n')"
      using snoc.prems by (auto simp: idle_pop_snoc split: prod.splits)
    then show ?thesis using snoc.IH by fastforce
  next
    case False
    then show ?thesis
      using snoc.prems by (cases rule: reserve_cases[of "idle_value e"]) (auto simp: idle_pop_snoc)
  qed
qed (simp add: idle_pop_Nil)

lemma put_waiters_shared:
  "can_share P v \<Longrightarrow> put_waiters P raced ch v q = (r, ws, ch') \<Longrightarrow>
     (\<exists>v'. r = Some v' \<and> can_share P v') \<and> set ws \<subseteq> set q \<and>
     (\<forall>w. holds_h1 P (ch' w) \<longrightarrow> holds_h1 P (ch w))"
proof (induction q arbitrary: v ch)
  case (Cons w q)
  obtain a b where ab: "reserve P v = Shared a b" "can_share P a" "can_share P b"
    using shared[OF Cons.prems(1)] by blast
  define ch1 where "ch1 = (if ch w = ReceiverDropped then ch
    else if raced w then ch(w := ReceiverDropped) else ch(w := Delivered b))"
  obtain u where u: "can_share P u" "put_waiters P raced ch1 u q = (r, ws, ch')"
    using Cons.prems ab by (auto simp: ch1_def split: if_splits)
  have "holds_h1 P (ch1 x) \<Longrightarrow> holds_h1 P (ch x)" for x
    using ab by (auto simp: ch1_def split: if_splits)
  with Cons.IH[OF u] show ?case by auto
qed auto

lemma put_waiters_unique:
  "\<not> can_share P v \<Longrightarrow> put_waiters P raced ch v q = (r, ws, ch') \<Longrightarrow>
     set ws \<subseteq> set q \<and>
     (r = Some v \<and> (\<forall>w. ch' w = ch w \<or> ch' w = ReceiverDropped) \<or>
      r = None \<and> (\<exists>w \<in> set q. ch w \<noteq> ReceiverDropped \<and> ch' w = Delivered v \<and>
         (\<forall>x. x \<noteq> w \<longrightarrow> ch' x = ch x \<or> ch' x = ReceiverDropped)))"
proof (induction q arbitrary: ch)
  case (Cons w q)
  show ?case
  proof (cases "ch w \<noteq> ReceiverDropped \<and> \<not> raced w")
    case True
    then show ?thesis using Cons.prems unique[OF Cons.prems(1)] by auto
  next
    case False
    define ch1 where "ch1 = (if ch w = ReceiverDropped then ch else ch(w := ReceiverDropped))"
    have "put_waiters P raced ch1 v q = (r, ws, ch')"
      using Cons.prems unique[OF Cons.prems(1)] False by (auto simp: ch1_def split: if_splits)
    from Cons.IH[OF Cons.prems(1) this] show ?thesis
      by (auto simp: ch1_def split: if_splits)
  qed
qed auto

end

section \<open>Checkouts and their channels\<close>

definition chan_inv :: "('k, 'v) inner \<Rightarrow> 'k checkout multiset \<Rightarrow> bool" where
  "chan_inv i cs \<longleftrightarrow>
     (\<forall>c w. c \<in># cs \<longrightarrow> ck_waiter c = Some w \<longrightarrow> w < next_channel i \<and>
        (\<forall>k q. waiters i k = Some q \<longrightarrow> w \<in> set q \<longrightarrow> k = ck_key c)) \<and>
     (\<forall>k q w. waiters i k = Some q \<longrightarrow> w \<in> set q \<longrightarrow> w < next_channel i) \<and>
     (\<forall>w. size (filter_mset (\<lambda>c. ck_waiter c = Some w) cs) \<le> 1)"

definition waiters_shrink :: "('k, 'v) inner \<Rightarrow> ('k, 'v) inner \<Rightarrow> bool" where
  "waiters_shrink i i' \<longleftrightarrow> next_channel i' = next_channel i \<and>
     (\<forall>k q'. waiters i' k = Some q' \<longrightarrow> (\<exists>q. waiters i k = Some q \<and> set q' \<subseteq> set q))"

lemma waiters_shrink_refl [simp]: "waiters_shrink i i"
  by (auto simp: waiters_shrink_def)

lemma waiters_shrink_trans: "waiters_shrink i j \<Longrightarrow> waiters_shrink j l \<Longrightarrow> waiters_shrink i l"
  unfolding waiters_shrink_def by (simp, blast)

lemma chan_inv_shrink:
  assumes "waiters_shrink i i'" "chan_inv i cs" shows "chan_inv i' cs"
proof -
  have q: "\<exists>q. waiters i k = Some q \<and> w \<in> set q" if "waiters i' k = Some q'" "w \<in> set q'" for k q' w
    using assms(1) that unfolding waiters_shrink_def by blast
  have n: "next_channel i' = next_channel i" using assms(1) by (simp add: waiters_shrink_def)
  show ?thesis
    using assms(2) q unfolding chan_inv_def n by - (intro conjI allI impI; blast)
qed

lemma size_filter_mono:
  "(\<And>x. x \<in># M \<Longrightarrow> A x \<Longrightarrow> B x) \<Longrightarrow> size (filter_mset A M) \<le> size (filter_mset B M)"
  by (induction M) (auto simp: le_SucI)

lemma size_filter_disj:
  "size (filter_mset (\<lambda>x. A x \<or> B x) M) \<le> size (filter_mset A M) + size (filter_mset B M)"
  by (induction M) auto

lemma chan_inv_sub:
  assumes "chan_inv i (add_mset c cs)" shows "chan_inv i cs"
proof -
  have "size (filter_mset (\<lambda>c. ck_waiter c = Some w) cs) \<le> 1" for w
  proof -
    have "size (filter_mset (\<lambda>c. ck_waiter c = Some w) cs)
        \<le> size (filter_mset (\<lambda>c. ck_waiter c = Some w) (add_mset c cs))" by simp
    also have "\<dots> \<le> 1" using assms unfolding chan_inv_def by blast
    finally show ?thesis .
  qed
  moreover have "c' \<in># add_mset c cs" if "c' \<in># cs" for c' using that by simp
  ultimately show ?thesis
    using assms unfolding chan_inv_def by - (intro conjI allI impI; blast)
qed

lemma chan_inv_no_waiter: "chan_inv i cs \<Longrightarrow> ck_waiter c = None \<Longrightarrow> chan_inv i (add_mset c cs)"
  unfolding chan_inv_def by auto

lemma handed_over_calm: "calm P i i' \<Longrightarrow> handed_over P i' cs k \<le> handed_over P i cs k"
  unfolding handed_over_def calm_def by (rule size_filter_mono) (auto split: option.splits)

lemma handed_over_cong:
  assumes "channels i' = channels i" shows "handed_over P i' cs k = handed_over P i cs k"
proof -
  have "carries_h1 P i' = carries_h1 P i" using assms by (simp add: carries_h1_def fun_eq_iff)
  then show ?thesis by (simp add: handed_over_def cong: option.case_cong)
qed

lemma handed_over_deliver:
  assumes "chan_inv i cs" "waiters i k = Some q" "w \<in> set q"
    and "\<And>x. x \<noteq> w \<Longrightarrow> carries_h1 P i' x \<Longrightarrow> carries_h1 P i x"
  shows "handed_over P i' cs k' \<le> handed_over P i cs k' + (if k' = k then 1 else 0)"
proof -
  let ?A = "\<lambda>c. ck_key c = k' \<and> (case ck_waiter c of Some w \<Rightarrow> carries_h1 P i w | None \<Rightarrow> False)"
  let ?B = "\<lambda>c. ck_key c = k' \<and> ck_waiter c = Some w"
  have "handed_over P i' cs k' \<le> size (filter_mset (\<lambda>c. ?A c \<or> ?B c) cs)"
    unfolding handed_over_def using assms(4) by (intro size_filter_mono) (auto split: option.splits)
  also have "\<dots> \<le> handed_over P i cs k' + size (filter_mset ?B cs)"
    unfolding handed_over_def by (rule size_filter_disj)
  also have "size (filter_mset ?B cs) \<le> (if k' = k then 1 else 0)"
  proof (cases "k' = k")
    case True
    have "size (filter_mset ?B cs) \<le> size (filter_mset (\<lambda>c. ck_waiter c = Some w) cs)"
      by (rule size_filter_mono) auto
    also have "\<dots> \<le> 1" using assms(1) unfolding chan_inv_def by blast
    finally show ?thesis using True by simp
  next
    case False
    then have "filter_mset ?B cs = {#}"
      using assms(1-3) by (auto simp: chan_inv_def filter_mset_eq_conv)
    then show ?thesis by (simp only: size_empty)
  qed
  finally show ?thesis by simp
qed

section \<open>The effect of returning a connection\<close>

definition idle_inv :: "('k, 'v) inner \<Rightarrow> bool" where
  "idle_inv i \<longleftrightarrow> 0 < max_idle_per_host i \<and>
     (\<forall>k l. idle i k = Some l \<longrightarrow> l \<noteq> [] \<and> length l \<le> max_idle_per_host i)"

lemma set_waiters_shrink:
  "waiters i k = Some q \<Longrightarrow> set ws \<subseteq> set q \<Longrightarrow> waiters_shrink i (set_waiters k ws (i\<lparr>channels := ch\<rparr>))"
  by (auto simp: waiters_shrink_def set_waiters_def)

lemma put_idle_effect:
  assumes "put_idle now k v i = (ok, i')" "idle_inv i"
  shows "same_limits i i'" "waiters_shrink i i'" "channels i' = channels i" "idle_inv i'"
    and "idle_h1 P i' k' \<le> idle_h1 P i k' + (if ok \<and> k' = k \<and> \<not> can_share P v then 1 else 0)"
proof -
  define l where "l = (case idle i k of Some l \<Rightarrow> l | None \<Rightarrow> [])"
  have l: "length l \<le> max_idle_per_host i" "0 < max_idle_per_host i" "idle i k = Some l \<or> l = [] \<and> idle i k = None"
    using assms(2) by (auto simp: idle_inv_def l_def split: option.splits)
  show "same_limits i i'" "waiters_shrink i i'" "channels i' = channels i"
    using assms(1) by (auto simp: put_idle_def Let_def same_limits_def spawn_idle_interval_def
        waiters_shrink_def split: if_splits option.splits)
  define j where "j = i\<lparr>idle := (idle i)(k \<mapsto> l @ [\<lparr>idle_value = v, idle_at = now\<rparr>])\<rparr>"
  have cases: "ok \<and> idle i' = idle j \<and> length l < max_idle_per_host i \<or>
      \<not> ok \<and> idle i' = (idle i)(k \<mapsto> l) \<and> l \<noteq> []"
    using assms(1) l by (auto simp: put_idle_def Let_def l_def[symmetric] j_def split: if_splits)
  have old: "l' \<noteq> [] \<and> length l' \<le> max_idle_per_host i" if "idle i k' = Some l'" for k' l'
    using assms(2) that by (auto simp: idle_inv_def)
  from cases show "idle_inv i'"
    using old l \<open>same_limits i i'\<close>
    by (auto simp: idle_inv_def same_limits_def j_def split: if_splits dest!: old)
  show "idle_h1 P i' k' \<le> idle_h1 P i k' + (if ok \<and> k' = k \<and> \<not> can_share P v then 1 else 0)"
    using cases l(3) by (auto simp: idle_h1_def j_def)
qed

context poolable
begin

lemma put_serve_shared:
  assumes "put_serve P raced k v i = (r, i')" "can_share P v"
  shows "\<exists>v'. r = Some v' \<and> can_share P v'" "calm P i i'" "same_limits i i'" "waiters_shrink i i'"
    "idle i' = idle i"
proof -
  have "(\<exists>v'. r = Some v' \<and> can_share P v') \<and> calm P i i' \<and> same_limits i i' \<and> waiters_shrink i i' \<and>
      idle i' = idle i"
  proof (cases "waiters i k")
    case None
    then show ?thesis using assms by (auto simp: put_serve_def)
  next
    case (Some q)
    obtain ws ch where pw: "put_waiters P raced (channels i) v q = (r, ws, ch)"
      and i': "i' = set_waiters k ws (i\<lparr>channels := ch\<rparr>)"
      using assms(1) Some by (auto simp: put_serve_def split: prod.splits)
    note e = put_waiters_shared[OF assms(2) pw]
    have "calm P i i'" using e by (intro calm_channels_idle) (auto simp: i' set_waiters_def)
    then show ?thesis
      using e set_waiters_shrink[OF Some, of ws ch] i' by (auto simp: same_limits_def set_waiters_def)
  qed
  then show "\<exists>v'. r = Some v' \<and> can_share P v'" "calm P i i'" "same_limits i i'" "waiters_shrink i i'"
    "idle i' = idle i" by auto
qed

lemma put_serve_unique:
  assumes "put_serve P raced k v i = (r, i')" "\<not> can_share P v" "chan_inv i cs"
  shows "same_limits i i'" "waiters_shrink i i'" "idle i' = idle i" "r = None \<or> r = Some v"
    "handed_over P i' cs k' \<le> handed_over P i cs k' + (if r = None \<and> k' = k then 1 else 0)"
proof -
  have "same_limits i i' \<and> waiters_shrink i i' \<and> idle i' = idle i \<and> (r = None \<or> r = Some v) \<and>
      handed_over P i' cs k' \<le> handed_over P i cs k' + (if r = None \<and> k' = k then 1 else 0)"
  proof (cases "waiters i k")
    case None
    then show ?thesis using assms by (auto simp: put_serve_def)
  next
    case (Some q)
    obtain ws ch where pw: "put_waiters P raced (channels i) v q = (r, ws, ch)"
      and i': "i' = set_waiters k ws (i\<lparr>channels := ch\<rparr>)"
      using assms(1) Some by (auto simp: put_serve_def split: prod.splits)
    note e = put_waiters_unique[OF assms(2) pw]
    have fields: "channels i' = ch" "idle i' = idle i" by (simp_all add: i' set_waiters_def)
    have "handed_over P i' cs k' \<le> handed_over P i cs k' + (if r = None \<and> k' = k then 1 else 0)"
    proof (cases r)
      case None
      then obtain w where w: "w \<in> set q" "\<forall>x. x \<noteq> w \<longrightarrow> ch x = channels i x \<or> ch x = ReceiverDropped"
        using e by auto
      have "carries_h1 P i' x \<Longrightarrow> carries_h1 P i x" if "x \<noteq> w" for x
        using w(2) that fields(1) by (auto simp: carries_h1_def)
      from handed_over_deliver[OF assms(3) Some w(1) this] show ?thesis using None by simp
    next
      case (Some v')
      then have "\<forall>x. ch x = channels i x \<or> ch x = ReceiverDropped" using e by auto
      then have "calm P i i'" using fields by (intro calm_channels_idle) (metis holds_h1.simps(4))+
      from handed_over_calm[OF this] show ?thesis using Some by simp
    qed
    then show ?thesis
      using e set_waiters_shrink[OF Some, of ws ch] fields i' by (auto simp: same_limits_def set_waiters_def)
  qed
  then show "same_limits i i'" "waiters_shrink i i'" "idle i' = idle i" "r = None \<or> r = Some v"
    "handed_over P i' cs k' \<le> handed_over P i cs k' + (if r = None \<and> k' = k then 1 else 0)" by auto
qed

lemma put_effect:
  assumes "put P raced now k v i = (ok, i')" "idle_inv i" "chan_inv i cs"
  shows "same_limits i i' \<and> waiters_shrink i i' \<and> idle_inv i' \<and>
    idle_h1 P i' k' + handed_over P i' cs k'
      \<le> idle_h1 P i k' + handed_over P i cs k' + (if ok \<and> k' = k \<and> \<not> can_share P v then 1 else 0)"
proof (cases "can_share P v \<and> idle i k \<noteq> None")
  case True
  then show ?thesis using assms(1,2) by (auto simp: put_def)
next
  case False
  obtain r i1 where ps: "put_serve P raced k v i = (r, i1)" by (cases "put_serve P raced k v i")
  have inv1: "idle_inv i1" if "same_limits i i1" "idle i1 = idle i"
    using assms(2) that by (simp add: idle_inv_def same_limits_def)
  show ?thesis
  proof (cases r)
    case None
    then have "\<not> can_share P v" using put_serve_shared(1)[OF ps] by auto
    note e = put_serve_unique[OF ps this assms(3)]
    show ?thesis
      using assms(1) ps None False e inv1 \<open>\<not> can_share P v\<close>
      by (auto simp: put_def idle_h1_def)
  next
    case (Some v')
    have pi: "put_idle now k v' i1 = (ok, i')" using assms(1) ps Some False by (auto simp: put_def split: if_splits)
    have e: "same_limits i i1" "waiters_shrink i i1" "idle i1 = idle i"
      "handed_over P i1 cs k' \<le> handed_over P i cs k'" "can_share P v' = can_share P v"
      using put_serve_shared[OF ps] handed_over_calm[of P i i1 cs k'] put_serve_unique(1-4)[OF ps _ assms(3)]
        put_serve_unique(5)[OF ps _ assms(3), of k'] Some
      by (cases "can_share P v"; auto)+
    note f = put_idle_effect(1-4)[OF pi inv1[OF e(1,3)]]
      put_idle_effect(5)[OF pi inv1[OF e(1,3)], of P k']
    have "handed_over P i' cs k' = handed_over P i1 cs k'"
      by (rule handed_over_cong[OF f(3)])
    moreover have "idle_h1 P i1 k' = idle_h1 P i k'" using e(3) by (simp add: idle_h1_def)
    moreover note same_limits_trans[OF e(1) f(1)] waiters_shrink_trans[OF e(2) f(2)]
    ultimately show ?thesis using e(4,5) f(4,5) by auto
  qed
qed

end

end
