(* ===== verification/Client_Pool_Safe.thy ===== *)
theory Client_Pool_Safe
  imports Client_Pool_Inv
begin

text \<open>
  Safety of the connection pool: the limits it documents hold in every reachable world, for
  every interleaving of its clients.
\<close>

section \<open>Effects of the remaining operations\<close>

lemma slots_release:
  "slots_taken (release_h1_slot k i) k' = (if k' = k then slots_taken i k - 1 else slots_taken i k')"
  by (auto simp: slots_taken_def release_h1_slot_def split: option.splits)

lemma release_fields [simp]:
  "channels (release_h1_slot k i) = channels i" "idle (release_h1_slot k i) = idle i"
  "waiters (release_h1_slot k i) = waiters i" "next_channel (release_h1_slot k i) = next_channel i"
  "connecting_set (release_h1_slot k i) = connecting_set i"
  "max_idle_per_host (release_h1_slot k i) = max_idle_per_host i"
  "max_h1_connections_per_host (release_h1_slot k i) = max_h1_connections_per_host i"
  by (auto simp: release_h1_slot_def split: option.splits)

lemma reserve_slot:
  assumes "reserve_h1_slot k i = (ok, i')"
  shows "slots_taken i' k' = slots_taken i k' + (if ok \<and> k' = k then 1 else 0)"
    "ok \<Longrightarrow> slots_taken i k < max_h1_connections_per_host i"
    "channels i' = channels i" "idle i' = idle i" "waiters i' = waiters i"
    "next_channel i' = next_channel i" "connecting_set i' = connecting_set i"
    "max_idle_per_host i' = max_idle_per_host i"
    "max_h1_connections_per_host i' = max_h1_connections_per_host i"
  using assms by (auto simp: reserve_h1_slot_def slots_taken_def Let_def split: if_splits option.splits)

lemma remove_waiters_shrink [simp]: "waiters_shrink i (remove_waiters k i)"
  by (auto simp: waiters_shrink_def remove_waiters_def Let_def)

lemma clean_waiters_effect:
  "calm P i (clean_waiters k (set_channel w ReceiverDropped i))"
  "same_limits i (clean_waiters k (set_channel w ReceiverDropped i))"
  "waiters_shrink i (clean_waiters k (set_channel w ReceiverDropped i))"
  "idle (clean_waiters k (set_channel w ReceiverDropped i)) = idle i"
  by (rule calm_channels_idle)
    (auto simp: clean_waiters_def set_waiters_def set_channel_def same_limits_def waiters_shrink_def
      split: option.splits if_splits)

lemma idle_inv_cong:
  "idle i' = idle i \<Longrightarrow> max_idle_per_host i' = max_idle_per_host i \<Longrightarrow> idle_inv i \<Longrightarrow> idle_inv i'"
  by (simp add: idle_inv_def)

lemma idle_h1_cong: "idle i' = idle i \<Longrightarrow> idle_h1 P i' k = idle_h1 P i k"
  by (simp add: idle_h1_def)

lemma chan_inv_cong:
  "waiters i' = waiters i \<Longrightarrow> next_channel i' = next_channel i \<Longrightarrow> chan_inv i cs \<Longrightarrow> chan_inv i' cs"
  by (simp add: chan_inv_def)

lemma handed_over_add:
  "handed_over P i (add_mset c cs) k = handed_over P i cs k +
     (if ck_key c = k \<and> (case ck_waiter c of Some w \<Rightarrow> carries_h1 P i w | None \<Rightarrow> False) then 1 else 0)"
  by (simp add: handed_over_def)

lemma clear_expired_effect:
  assumes "clear_expired opn now order t i = (evs, i')"
  shows "calm P i i'" "same_limits i i'" "waiters_shrink i i'" "idle_inv i \<Longrightarrow> idle_inv i'"
proof -
  have i': "i' = i\<lparr>idle := (\<lambda>k. case idle i k of
      Some l \<Rightarrow> (case filter (keep_entry opn t now) l of [] \<Rightarrow> None | l' \<Rightarrow> Some l') | None \<Rightarrow> None)\<rparr>"
    using assms by (simp add: clear_expired_def)
  have idle': "idle i' k = None \<or> (\<exists>l. idle i k = Some l \<and> filter (keep_entry opn t now) l \<noteq> [] \<and>
      idle i' k = Some (filter (keep_entry opn t now) l))" for k
    by (auto simp: i' split: option.splits list.splits)
  have "h1_count P (filter A l) \<le> h1_count P l" for A l
    by (induction l) (auto simp del: filter_filter)
  then have "idle_h1 P i' k \<le> idle_h1 P i k" for k
    using idle'[of k] by (auto simp: idle_h1_def simp del: filter_filter)
  then show "calm P i i'" by (simp add: calm_def carries_h1_def i')
  show "same_limits i i'" "waiters_shrink i i'" by (auto simp: i' same_limits_def waiters_shrink_def)
  have len: "length (filter (keep_entry opn t now) l) \<le> n" if "length l \<le> n" for l n
    using that by (meson length_filter_le order_trans)
  show "idle_inv i'" if "idle_inv i"
    unfolding idle_inv_def
  proof (intro conjI allI impI)
    show "0 < max_idle_per_host i'" using that by (simp add: i' idle_inv_def)
    fix k l' assume "idle i' k = Some l'"
    with idle'[of k] obtain l where "idle i k = Some l" "l' = filter (keep_entry opn t now) l" "l' \<noteq> []"
      by auto
    then show "l' \<noteq> []" "length l' \<le> max_idle_per_host i'"
      using that len[of l] by (auto simp: idle_inv_def i')
  qed
qed

lemma carries_dropped: "carries_h1 P (set_channel w ReceiverDropped i) x \<Longrightarrow> carries_h1 P i x"
  by (auto simp: carries_h1_def set_channel_def split: if_splits)

section \<open>Polling a checkout\<close>

definition slot_of :: "(checkout_error, ('k, 'v) pooled) result poll \<Rightarrow> 'k \<Rightarrow> nat" where
  "slot_of r k = (case r of Ready (Inr h) \<Rightarrow> if pv_key h = k \<and> pv_pool h \<and> pv_h1_slot h then 1 else 0 | _ \<Rightarrow> 0)"

text \<open>The pool before and after a poll, with the slots the result owns.\<close>

definition poll_sound ::
  "'v pool_item \<Rightarrow> 'k checkout multiset \<Rightarrow> ('k, 'v) inner \<Rightarrow> 'k checkout
     \<Rightarrow> (checkout_error, ('k, 'v) pooled) result poll \<Rightarrow> ('k, 'v) inner \<Rightarrow> 'k checkout \<Rightarrow> bool" where
  "poll_sound P cs i c r i' c' \<longleftrightarrow> same_limits i i' \<and> idle_inv i' \<and> chan_inv i' (add_mset c' cs) \<and>
     (\<forall>k. idle_h1 P i' k + handed_over P i' (add_mset c' cs) k + slot_of r k
        \<le> idle_h1 P i k + handed_over P i (add_mset c cs) k)"

lemma chan_inv_take_waiter:
  assumes "chan_inv i (add_mset c cs)"
  shows "chan_inv (set_channel w ReceiverDropped i) (add_mset (c\<lparr>ck_waiter := None\<rparr>) cs)"
  using chan_inv_no_waiter[OF chan_inv_sub[OF assms], of "c\<lparr>ck_waiter := None\<rparr>"]
  by (auto intro: chan_inv_cong[rotated 2] simp: set_channel_def)

lemma poll_waiter_sound:
  assumes "pool_inner p = Some i" "chan_inv i (add_mset c cs)" "idle_inv i"
    and "poll_waiter P opn c p = (Ready (Some r), c', p')"
  shows "\<exists>i'. pool_inner p' = Some i' \<and> poll_sound P cs i c (Ready r) i' c'"
proof -
  obtain w where w: "ck_waiter c = Some w"
    using assms(1,4) by (auto simp: poll_waiter_def split: option.splits)
  let ?i = "set_channel w ReceiverDropped i"
  have c': "c' = c\<lparr>ck_waiter := None\<rparr>" "pool_inner p' = Some ?i"
    using assms(1,4) w by (auto simp: poll_waiter_def Let_def split: channel.splits if_splits)
  have "handed_over P ?i cs k \<le> handed_over P i cs k" for k
    by (rule handed_over_calm) (auto simp: calm_def carries_dropped idle_h1_def set_channel_def
        intro: carries_dropped[unfolded set_channel_def])
  moreover have "slot_of (Ready r) k \<le> (if ck_key c = k \<and> carries_h1 P i w then 1 else 0)" for k
    using assms(1,4) w
    by (auto simp: poll_waiter_def Let_def slot_of_def pool_reuse_def carries_h1_def
        split: channel.splits if_splits)
  ultimately have "idle_h1 P ?i k + handed_over P ?i (add_mset c' cs) k + slot_of (Ready r) k
      \<le> idle_h1 P i k + handed_over P i (add_mset c cs) k" for k
    using w c'(1) by (auto simp: handed_over_add idle_h1_def set_channel_def add_mono)
  then show ?thesis
    using c' chan_inv_take_waiter[OF assms(2), of w] assms(3)
    by (auto simp: poll_sound_def same_limits_def set_channel_def idle_inv_def)
qed

lemma checkout_wait_sound:
  assumes "checkout_wait c i = (c', i')" "chan_inv i (add_mset c cs)"
  shows "same_limits i i'" "idle i' = idle i" "chan_inv i' (add_mset c' cs)"
    "handed_over P i' (add_mset c' cs) k \<le> handed_over P i (add_mset c cs) k"
proof -
  show limits: "same_limits i i'" "idle i' = idle i"
    using assms(1) by (auto simp: checkout_wait_def same_limits_def split: if_splits)
  have "chan_inv i' (add_mset c' cs) \<and>
      handed_over P i' (add_mset c' cs) k \<le> handed_over P i (add_mset c cs) k"
  proof (cases "ck_waiter c = None")
    case False
    then show ?thesis using assms by (auto simp: checkout_wait_def split: if_splits)
  next
    case True
    let ?n = "next_channel i"
    have c': "c' = c\<lparr>ck_waiter := Some ?n\<rparr>" and ch: "channels i' = (channels i)(?n := Waiting)"
      and nx: "next_channel i' = ?n + 1"
      and wt: "waiters i' = (waiters i)(ck_key c \<mapsto>
        (case waiters i (ck_key c) of Some q \<Rightarrow> q | None \<Rightarrow> []) @ [?n])"
      using assms(1) True by (auto simp: checkout_wait_def)
    note sub = chan_inv_sub[OF assms(2), unfolded chan_inv_def]
    have lt: "w < ?n" if "c1 \<in># cs" "ck_waiter c1 = Some w" for c1 w
      using sub that by blast
    have ltq: "w < ?n" if "waiters i k = Some q" "w \<in> set q" for k q w
      using sub that by blast
    have own: "k = ck_key c1" if "c1 \<in># cs" "ck_waiter c1 = Some w" "waiters i k = Some q" "w \<in> set q"
      for c1 w k q using sub that by blast
    have q': "w = ?n \<and> k = ck_key c \<or> (\<exists>q0. waiters i k = Some q0 \<and> w \<in> set q0)"
      if "waiters i' k = Some q" "w \<in> set q" for k q w
      using that by (auto simp: wt split: if_splits option.splits)
    have none: "filter_mset (\<lambda>c. ck_waiter c = Some ?n) cs = {#}"
      using lt by (auto simp: filter_mset_eq_conv)
    have "chan_inv i' (add_mset c' cs)"
      unfolding chan_inv_def
    proof (intro conjI allI impI)
      fix c1 w assume c1: "c1 \<in># add_mset c' cs" "ck_waiter c1 = Some w"
      then show "w < next_channel i'" using lt[of c1 w] by (auto simp: c' nx)
      fix k q assume "waiters i' k = Some q" "w \<in> set q"
      from q'[OF this] c1 show "k = ck_key c1"
        using lt[of c1 w] ltq[of k _ w] own[of c1 w k] by (auto simp: c')
    next
      fix k q w assume "waiters i' k = Some q" "w \<in> set q"
      from q'[OF this] show "w < next_channel i'" using ltq[of k _ w] by (auto simp: nx)
    next
      fix w show "size (filter_mset (\<lambda>c. ck_waiter c = Some w) (add_mset c' cs)) \<le> 1"
        using sub none by (auto simp: c')
    qed
    moreover have "handed_over P i' (add_mset c' cs) k \<le> handed_over P i (add_mset c cs) k"
    proof -
      have "calm P i i'"
        using limits(2) by (intro calm_channels_idle) (auto simp: ch split: if_splits)
      then have "handed_over P i' cs k \<le> handed_over P i cs k" by (rule handed_over_calm)
      then show ?thesis using True by (auto simp: handed_over_add c' carries_h1_def ch)
    qed
    ultimately show ?thesis by blast
  qed
  then show "chan_inv i' (add_mset c' cs)"
    "handed_over P i' (add_mset c' cs) k \<le> handed_over P i (add_mset c cs) k" by auto
qed

context poolable
begin

lemma checkout_idle_sound:
  assumes "checkout_idle P opn now k i = (r, n, i')" "idle_inv i"
  shows "same_limits i i'" "channels i' = channels i" "waiters i' = waiters i"
    "next_channel i' = next_channel i" "idle_inv i'"
    "idle_h1 P i' k' + (case r of Some e \<Rightarrow> if k' = k \<and> \<not> can_share P (idle_value e) then 1 else 0 | None \<Rightarrow> 0)
       \<le> idle_h1 P i k'"
proof -
  show "same_limits i i'" "channels i' = channels i" "waiters i' = waiters i"
    "next_channel i' = next_channel i"
    using assms(1) by (auto simp: checkout_idle_def same_limits_def split: option.splits prod.splits)
  have "idle_inv i' \<and> idle_h1 P i' k' +
      (case r of Some e \<Rightarrow> if k' = k \<and> \<not> can_share P (idle_value e) then 1 else 0 | None \<Rightarrow> 0)
       \<le> idle_h1 P i k'"
  proof (cases "idle i k")
    case None
    then have "(idle i)(k := None) = idle i" by (simp add: fun_upd_idem_iff)
    then show ?thesis using assms None by (auto simp: checkout_idle_def)
  next
    case (Some l)
    obtain l' where pop: "idle_pop P opn (idle_timeout i) now l = (r, l', n)"
      and i': "i' = i\<lparr>idle := (idle i)(k := if r = None \<or> l' = [] then None else Some l')\<rparr>"
      using assms(1) Some by (auto simp: checkout_idle_def split: prod.splits)
    note e = idle_pop_effect[OF pop]
    have old: "l0 \<noteq> [] \<and> length l0 \<le> max_idle_per_host i" if "idle i k0 = Some l0" for k0 l0
      using assms(2) that by (auto simp: idle_inv_def)
    have "idle_inv i'"
      using assms(2) e old[OF Some] by (auto simp: idle_inv_def i' split: if_splits dest!: old)
    moreover have "idle_h1 P i' k = (if r = None \<or> l' = [] then 0 else h1_count P l')"
      by (simp add: idle_h1_def i')
    moreover have "idle_h1 P i k = h1_count P l" by (simp add: idle_h1_def Some)
    moreover have "idle_h1 P i' k' = idle_h1 P i k'" if "k' \<noteq> k" using that by (simp add: idle_h1_def i')
    ultimately show ?thesis
      using e by (cases "k' = k") (auto split: option.splits if_splits)
  qed
  then show "idle_inv i'" "idle_h1 P i' k' +
      (case r of Some e \<Rightarrow> if k' = k \<and> \<not> can_share P (idle_value e) then 1 else 0 | None \<Rightarrow> 0)
       \<le> idle_h1 P i k'" by auto
qed

lemma checkout_checkout_sound:
  assumes "pool_inner p = Some i" "chan_inv i (add_mset c cs)" "idle_inv i"
    and "checkout_checkout P opn now c p = (r, c', p')"
  shows "\<exists>i'. pool_inner p' = Some i' \<and>
    poll_sound P cs i c (case r of Some h \<Rightarrow> Ready (Inr h) | None \<Rightarrow> Pending) i' c'"
proof -
  obtain e n i1 where ci: "checkout_idle P opn now (ck_key c) i = (e, n, i1)"
    by (cases "checkout_idle P opn now (ck_key c) i")
  note s = checkout_idle_sound(1-5)[OF ci assms(3)] and s6 = checkout_idle_sound(6)[OF ci assms(3)]
  have inv1: "chan_inv i1 (add_mset c cs)" using chan_inv_cong[OF s(3,4) assms(2)] .
  have hand: "handed_over P i1 (add_mset c cs) k = handed_over P i (add_mset c cs) k" for k
    by (rule handed_over_cong[OF s(2)])
  show ?thesis
  proof (cases e)
    case (Some x)
    then have r: "r = Some (pool_reuse P (ck_key c) (idle_value x) p)" "c' = c" "pool_inner p' = Some i1"
      using assms(1,4) ci by (auto simp: checkout_checkout_def Let_def)
    have slot: "slot_of (Ready (Inr (pool_reuse P (ck_key c) (idle_value x) p))) k \<le>
        (if k = ck_key c \<and> \<not> can_share P (idle_value x) then 1 else 0)" for k
      by (auto simp: slot_of_def pool_reuse_def)
    have "idle_h1 P i1 k +
        slot_of (Ready (Inr (pool_reuse P (ck_key c) (idle_value x) p))) k \<le> idle_h1 P i k" for k
      using slot[of k] s6[of k] Some by (auto split: if_splits)
    then show ?thesis using r s inv1 hand by (auto simp: poll_sound_def)
  next
    case None
    obtain i2 where cw: "checkout_wait c i1 = (c', i2)" "r = None" "pool_inner p' = Some i2"
      using assms(1,4) ci None by (auto simp: checkout_checkout_def Let_def split: prod.splits)
    note t = checkout_wait_sound(1-3)[OF cw(1) inv1] and t4 = checkout_wait_sound(4)[OF cw(1) inv1, of P]
    have "idle_h1 P i2 k + handed_over P i2 (add_mset c' cs) k
        \<le> idle_h1 P i k + handed_over P i (add_mset c cs) k" for k
      using t(2) t4[of k] s6[of k] None hand[of k] idle_h1_cong[OF t(2), of P k] by simp
    moreover have "idle_inv i2"
      using idle_inv_cong[OF t(2) _ s(5)] t(1) by (simp add: same_limits_def)
    ultimately show ?thesis
      using cw t same_limits_trans[OF s(1) t(1)] by (auto simp: poll_sound_def slot_of_def)
  qed
qed

lemma checkout_poll_sound:
  assumes "pool_inner p = Some i" "chan_inv i (add_mset c cs)" "idle_inv i"
    and "checkout_poll P opn now c p = (r, c', p')"
  shows "\<exists>i'. pool_inner p' = Some i' \<and> poll_sound P cs i c r i' c'"
proof (cases "\<exists>x c1 p1. poll_waiter P opn c p = (Ready (Some x), c1, p1)")
  case True
  then obtain x where "poll_waiter P opn c p = (Ready (Some x), c', p')" "r = Ready x"
    using assms(4) by (auto simp: checkout_poll_def)
  then show ?thesis using poll_waiter_sound[OF assms(1-3)] by blast
next
  case False
  then have same: "snd (poll_waiter P opn c p) = (c, p)"
    using assms(1) by (auto simp: poll_waiter_def Let_def split: option.splits channel.splits if_splits)
  obtain h where cc: "checkout_checkout P opn now c p = (h, c', p')"
    and r: "r = (case h of Some x \<Rightarrow> Ready (Inr x) | None \<Rightarrow>
        (if \<not> is_enabled p' then Ready (Inl PoolDisabled) else Pending))"
    using assms(4) False same
    by (cases "poll_waiter P opn c p")
      (auto simp: checkout_poll_def split: poll.splits option.splits prod.splits)
  from checkout_checkout_sound[OF assms(1-3) cc] r show ?thesis
    by (auto simp: is_enabled_def split: option.splits)
qed

end

section \<open>The invariant\<close>

definition pinv ::
  "'v pool_item \<Rightarrow> nat \<Rightarrow> nat \<Rightarrow> ('k, 'v) inner \<Rightarrow> 'k connecting multiset \<Rightarrow> ('k, 'v) pooled multiset
     \<Rightarrow> 'k checkout multiset \<Rightarrow> bool" where
  "pinv P M N i conn hs ks \<longleftrightarrow>
     max_h1_connections_per_host i = M \<and> max_idle_per_host i = N \<and>
     (\<forall>k. establishing conn k + in_use hs k + idle_h1 P i k + handed_over P i ks k \<le> slots_taken i k) \<and>
     (\<forall>k. slots_taken i k \<le> M) \<and>
     (\<forall>k. establishing_h2 conn k \<le> (if k \<in> connecting_set i then 1 else 0)) \<and>
     (\<forall>c \<in># conn. cn_pool c) \<and>
     (\<forall>h \<in># hs. pv_pool h \<longrightarrow> pv_h1_slot h \<and> \<not> can_share P (pv_value h)) \<and>
     idle_inv i \<and> chan_inv i ks"

definition pool_inv :: "'v pool_item \<Rightarrow> nat \<Rightarrow> nat \<Rightarrow> ('k, 'v) world \<Rightarrow> bool" where
  "pool_inv P M N w =
     (case pool_inner (w_pool w) of
        None \<Rightarrow> True
      | Some i \<Rightarrow> pinv P M N i (w_connecting w) (w_pooled w) (w_checkouts w))"

lemma pinv_calm:
  assumes "pinv P M N i conn hs ks" "calm P i i'" "same_limits i i'" "waiters_shrink i i'" "idle_inv i'"
  shows "pinv P M N i' conn hs ks"
proof -
  have "handed_over P i' ks k \<le> handed_over P i ks k" "idle_h1 P i' k \<le> idle_h1 P i k" for k
    using handed_over_calm[OF assms(2)] assms(2) by (auto simp: calm_def)
  then have "establishing conn k + in_use hs k + idle_h1 P i' k + handed_over P i' ks k \<le> slots_taken i k" for k
    using assms(1) unfolding pinv_def by (meson add_le_mono le_refl le_trans)
  moreover have "slots_taken i' k = slots_taken i k" for k
    using assms(3) by (simp add: slots_taken_def same_limits_def)
  ultimately show ?thesis
    using assms chan_inv_shrink[OF assms(4)] by (simp add: pinv_def same_limits_def)
qed

lemma pinv_same_idle:
  assumes "pinv P M N i conn hs ks" "calm P i i'" "same_limits i i'" "waiters_shrink i i'" "idle i' = idle i"
  shows "pinv P M N i' conn hs ks"
  using pinv_calm[OF assms(1-4)] idle_inv_cong[OF assms(5)] assms(1,3)
  by (simp add: pinv_def same_limits_def)

lemma pinvD:
  assumes "pinv P M N i conn hs ks"
  shows "max_h1_connections_per_host i = M" "max_idle_per_host i = N"
    "establishing conn k + in_use hs k + idle_h1 P i k + handed_over P i ks k \<le> slots_taken i k"
    "slots_taken i k \<le> M" "establishing_h2 conn k \<le> (if k \<in> connecting_set i then 1 else 0)"
    "c \<in># conn \<Longrightarrow> cn_pool c"
    "h \<in># hs \<Longrightarrow> pv_pool h \<Longrightarrow> pv_h1_slot h \<and> \<not> can_share P (pv_value h)"
    "idle_inv i" "chan_inv i ks"
  using assms unfolding pinv_def by blast+

lemma pinv_change:
  assumes "pinv P M N i conn hs ks" "chan_inv i' ks'" "idle_inv i'"
    and "max_h1_connections_per_host i' = M" "max_idle_per_host i' = N"
    and "\<And>k. establishing conn' k + in_use hs' k + idle_h1 P i' k + handed_over P i' ks' k + slots_taken i k
           \<le> establishing conn k + in_use hs k + idle_h1 P i k + handed_over P i ks k + slots_taken i' k"
    and "\<And>k. slots_taken i' k \<le> M"
    and "\<And>k. establishing_h2 conn' k \<le> (if k \<in> connecting_set i' then 1 else 0)"
    and "\<And>c. c \<in># conn' \<Longrightarrow> cn_pool c"
    and "\<And>h. h \<in># hs' \<Longrightarrow> pv_pool h \<Longrightarrow> pv_h1_slot h \<and> \<not> can_share P (pv_value h)"
  shows "pinv P M N i' conn' hs' ks'"
proof -
  have "establishing conn' k + in_use hs' k + idle_h1 P i' k + handed_over P i' ks' k \<le> slots_taken i' k" for k
    using assms(6)[of k] pinvD(3)[OF assms(1), of k] by linarith
  then show ?thesis using assms(2-5,7-10) by (simp add: pinv_def)
qed

lemma establishing_add:
  "establishing (add_mset c cs) k = establishing cs k + (if cn_key c = k \<and> cn_pool c \<and> cn_h1_slot c then 1 else 0)"
  "establishing_h2 (add_mset c cs) k = establishing_h2 cs k + (if cn_key c = k \<and> cn_pool c \<and> \<not> cn_h1_slot c then 1 else 0)"
  "in_use (add_mset h hs) k = in_use hs k + (if pv_key h = k \<and> pv_pool h \<and> pv_h1_slot h then 1 else 0)"
  by (simp_all add: quantity_defs)

lemma pinv_forget_conn:
  assumes "pinv P M N i (add_mset c conn) hs ks" shows "pinv P M N i conn hs ks"
proof (rule pinv_change[OF assms])
  show "establishing_h2 conn k \<le> (if k \<in> connecting_set i then 1 else 0)" for k
    using pinvD(5)[OF assms, of k] by (simp add: establishing_add split: if_splits)
qed (use pinvD[OF assms] in \<open>auto simp: establishing_add\<close>)

lemma pinv_forget_pooled:
  assumes "pinv P M N i conn (add_mset h hs) ks" shows "pinv P M N i conn hs ks"
  by (rule pinv_change[OF assms]) (use pinvD[OF assms] in \<open>auto simp: establishing_add\<close>)

lemma pinv_forget_checkout:
  assumes "pinv P M N i conn hs (add_mset d ks)" shows "pinv P M N i conn hs ks"
  by (rule pinv_change[OF assms])
    (use pinvD[OF assms] chan_inv_sub in \<open>auto simp: handed_over_add\<close>)

lemma pinv_release_conn:
  assumes "pinv P M N i (add_mset c conn) hs ks" "cn_h1_slot c"
  shows "pinv P M N (release_h1_slot (cn_key c) i) conn hs ks"
proof (rule pinv_change[OF assms(1)])
  have pool: "cn_pool c" using pinvD(6)[OF assms(1)] by simp
  show "establishing conn k + in_use hs k + idle_h1 P (release_h1_slot (cn_key c) i) k +
      handed_over P (release_h1_slot (cn_key c) i) ks k + slots_taken i k
      \<le> establishing (add_mset c conn) k + in_use hs k + idle_h1 P i k + handed_over P i ks k
        + slots_taken (release_h1_slot (cn_key c) i) k" for k
    using pool assms(2) idle_h1_cong[of "release_h1_slot (cn_key c) i" i P k]
      handed_over_cong[of "release_h1_slot (cn_key c) i" i P ks k]
    by (auto simp: slots_release establishing_add)
  show "establishing_h2 conn k \<le> (if k \<in> connecting_set (release_h1_slot (cn_key c) i) then 1 else 0)" for k
    using pinvD(5)[OF assms(1), of k] assms(2) by (simp add: establishing_add)
  show "slots_taken (release_h1_slot (cn_key c) i) k \<le> M" for k
    using pinvD(4)[OF assms(1), of k] by (auto simp: slots_release)
qed (use pinvD[OF assms(1)] in \<open>auto intro: chan_inv_cong[rotated 2] idle_inv_cong[rotated 2]\<close>)

lemma pinv_release_pooled:
  assumes "pinv P M N i conn (add_mset h hs) ks" "pv_h1_slot h" "pv_pool h"
  shows "pinv P M N (release_h1_slot (pv_key h) i) conn hs ks"
proof (rule pinv_change[OF assms(1)])
  show "establishing conn k + in_use hs k + idle_h1 P (release_h1_slot (pv_key h) i) k +
      handed_over P (release_h1_slot (pv_key h) i) ks k + slots_taken i k
      \<le> establishing conn k + in_use (add_mset h hs) k + idle_h1 P i k + handed_over P i ks k
        + slots_taken (release_h1_slot (pv_key h) i) k" for k
    using assms(2,3) idle_h1_cong[of "release_h1_slot (pv_key h) i" i P k]
      handed_over_cong[of "release_h1_slot (pv_key h) i" i P ks k]
    by (auto simp: slots_release establishing_add)
  show "slots_taken (release_h1_slot (pv_key h) i) k \<le> M" for k
    using pinvD(4)[OF assms(1), of k] by (auto simp: slots_release)
qed (use pinvD[OF assms(1)] in \<open>auto intro: chan_inv_cong[rotated 2] idle_inv_cong[rotated 2]\<close>)

lemma pinv_h2_done:
  assumes "pinv P M N i (add_mset c conn) hs ks" "\<not> cn_h1_slot c"
  shows "pinv P M N (i\<lparr>connecting_set := connecting_set i - {cn_key c}\<rparr>) conn hs ks"
proof (rule pinv_change[OF assms(1)])
  let ?i = "i\<lparr>connecting_set := connecting_set i - {cn_key c}\<rparr>"
  have pool: "cn_pool c" using pinvD(6)[OF assms(1)] by simp
  show "establishing_h2 conn k \<le> (if k \<in> connecting_set ?i then 1 else 0)" for k
    using pinvD(5)[OF assms(1), of k] pool assms(2) by (auto simp: establishing_add split: if_splits)
  show "establishing conn k + in_use hs k + idle_h1 P ?i k + handed_over P ?i ks k + slots_taken i k
      \<le> establishing (add_mset c conn) k + in_use hs k + idle_h1 P i k + handed_over P i ks k
        + slots_taken ?i k" for k
    using idle_h1_cong[of ?i i P k] handed_over_cong[of ?i i P ks k]
    by (simp add: establishing_add slots_taken_def)
  show "slots_taken ?i k \<le> M" for k using pinvD(4)[OF assms(1), of k] by (simp add: slots_taken_def)
qed (use pinvD[OF assms(1)] in \<open>auto intro: chan_inv_cong[rotated 2] idle_inv_cong[rotated 2]\<close>)

lemma pinv_reserve:
  assumes "pinv P M N i conn hs ks" "reserve_h1_slot k i = (ok, i')"
  shows "pinv P M N i'
    ((if ok then {#\<lparr>cn_key = k, cn_pool = True, cn_h1_slot = True\<rparr>#} else {#}) + conn) hs ks"
proof (rule pinv_change[OF assms(1)])
  note r = reserve_slot[OF assms(2)]
  let ?new = "(if ok then {#\<lparr>cn_key = k, cn_pool = True, cn_h1_slot = True\<rparr>#} else {#}) + conn"
  show "establishing ?new k' + in_use hs k' + idle_h1 P i' k' + handed_over P i' ks k' + slots_taken i k'
      \<le> establishing conn k' + in_use hs k' + idle_h1 P i k' + handed_over P i ks k' + slots_taken i' k'" for k'
    using r(1) idle_h1_cong[OF r(4), of P k'] handed_over_cong[OF r(3), of P ks k']
    by (auto simp: establishing_add)
  show "slots_taken i' k' \<le> M" for k'
    using r(1)[of k'] r(2) pinvD(4)[OF assms(1), of k'] pinvD(1)[OF assms(1)] by (auto split: if_splits)
  show "establishing_h2 ?new k' \<le> (if k' \<in> connecting_set i' then 1 else 0)" for k'
    using pinvD(5)[OF assms(1), of k'] r(7) by (auto simp: establishing_add)
  show "chan_inv i' ks" "idle_inv i'"
    using pinvD(8,9)[OF assms(1)] r chan_inv_cong idle_inv_cong by metis+
  show "max_h1_connections_per_host i' = M" "max_idle_per_host i' = N"
    using r(8,9) pinvD(1,2)[OF assms(1)] by auto
qed (use pinvD(6,7)[OF assms(1)] in \<open>auto split: if_splits\<close>)

lemma pinv_connecting:
  assumes "pinv P M N i conn hs ks" "pool_inner p = Some i" "pool_connecting k proto p = (r, p')"
  shows "\<exists>i'. pool_inner p' = Some i' \<and>
    pinv P M N i' ((case r of Some c \<Rightarrow> {#c#} | None \<Rightarrow> {#}) + conn) hs ks"
proof (cases "proto = ProtoHttp2")
  case False
  obtain ok i' where rs: "reserve_h1_slot k i = (ok, i')" by (cases "reserve_h1_slot k i")
  then show ?thesis
    using assms False pinv_reserve[OF assms(1) rs] by (auto simp: pool_connecting_def split: if_splits)
next
  case True
  show ?thesis
  proof (cases "k \<in> connecting_set i")
    case True
    then show ?thesis using assms \<open>proto = ProtoHttp2\<close> by (auto simp: pool_connecting_def)
  next
    case False
    let ?i = "i\<lparr>connecting_set := insert k (connecting_set i)\<rparr>"
    let ?c = "\<lparr>cn_key = k, cn_pool = True, cn_h1_slot = False\<rparr>"
    have "pinv P M N ?i (add_mset ?c conn) hs ks"
    proof (rule pinv_change[OF assms(1)])
      show "establishing (add_mset ?c conn) k' + in_use hs k' + idle_h1 P ?i k' + handed_over P ?i ks k'
          + slots_taken i k' \<le> establishing conn k' + in_use hs k' + idle_h1 P i k'
          + handed_over P i ks k' + slots_taken ?i k'" for k'
        using idle_h1_cong[of ?i i P k'] handed_over_cong[of ?i i P ks k']
        by (simp add: establishing_add slots_taken_def)
      show "establishing_h2 (add_mset ?c conn) k' \<le> (if k' \<in> connecting_set ?i then 1 else 0)" for k'
        using pinvD(5)[OF assms(1), of k'] False by (auto simp: establishing_add split: if_splits)
      show "slots_taken ?i k' \<le> M" for k' using pinvD(4)[OF assms(1), of k'] by (simp add: slots_taken_def)
    qed (use pinvD[OF assms(1)] in \<open>auto intro: chan_inv_cong[rotated 2] idle_inv_cong[rotated 2]\<close>)
    then show ?thesis using assms(2,3) \<open>proto = ProtoHttp2\<close> False by (auto simp: pool_connecting_def)
  qed
qed

lemma pinv_add_checkout:
  assumes "pinv P M N i conn hs ks" "ck_waiter c = None"
  shows "pinv P M N i conn hs (add_mset c ks)"
  by (rule pinv_change[OF assms(1)])
    (use pinvD[OF assms(1)] assms(2) chan_inv_no_waiter in \<open>auto simp: handed_over_add\<close>)

lemma pinv_add_free_pooled:
  assumes "pinv P M N i conn hs ks" "\<not> pv_pool h"
  shows "pinv P M N i conn (add_mset h hs) ks"
  by (rule pinv_change[OF assms(1)]) (use pinvD[OF assms(1)] assms(2) in \<open>auto simp: establishing_add\<close>)

lemma pinv_poll:
  assumes "pinv P M N i conn hs (add_mset c cs)" "poll_sound P cs i c r i' c'"
    and "\<And>h. r = Ready (Inr h) \<Longrightarrow> pv_pool h \<Longrightarrow> pv_h1_slot h \<and> \<not> can_share P (pv_value h)"
  shows "pinv P M N i' conn ((case r of Ready (Inr h) \<Rightarrow> {#h#} | _ \<Rightarrow> {#}) + hs) (add_mset c' cs)"
proof (rule pinv_change[OF assms(1)])
  let ?hs = "(case r of Ready (Inr h) \<Rightarrow> {#h#} | _ \<Rightarrow> {#}) + hs"
  note ps = assms(2)[unfolded poll_sound_def]
  have limits: "same_limits i i'" using ps by blast
  have use: "in_use ?hs k = in_use hs k + slot_of r k" for k
    by (auto simp: slot_of_def establishing_add split: poll.splits sum.splits)
  have st: "slots_taken i' k = slots_taken i k" for k
    using limits by (simp add: slots_taken_def same_limits_def)
  show "establishing conn k + in_use ?hs k + idle_h1 P i' k + handed_over P i' (add_mset c' cs) k + slots_taken i k
      \<le> establishing conn k + in_use hs k + idle_h1 P i k + handed_over P i (add_mset c cs) k + slots_taken i' k" for k
  proof -
    have "idle_h1 P i' k + handed_over P i' (add_mset c' cs) k + slot_of r k
        \<le> idle_h1 P i k + handed_over P i (add_mset c cs) k" using ps by blast
    then show ?thesis using use[of k] st[of k] by linarith
  qed
  show "slots_taken i' k \<le> M" for k using pinvD(4)[OF assms(1), of k] st by simp
  show "establishing_h2 conn k \<le> (if k \<in> connecting_set i' then 1 else 0)" for k
    using pinvD(5)[OF assms(1), of k] limits by (simp add: same_limits_def)
  show "pv_h1_slot h \<and> \<not> can_share P (pv_value h)" if "h \<in># ?hs" "pv_pool h" for h
    using that assms(3) pinvD(7)[OF assms(1)] by (auto split: poll.splits sum.splits)
qed (use assms(2) pinvD[OF assms(1)] in \<open>auto simp: poll_sound_def same_limits_def\<close>)

lemma checkout_poll_handle:
  assumes "checkout_poll P opn now c p = (Ready (Inr h), c', p')" "pv_pool h"
  shows "pv_h1_slot h \<and> \<not> can_share P (pv_value h)"
  using assms
  by (auto simp: checkout_poll_def poll_waiter_def checkout_checkout_def pool_reuse_def Let_def
      split: option.splits poll.splits prod.splits channel.splits if_splits)

context poolable
begin

lemma pinv_put:
  assumes "pinv P M N i conn hs ks" "put P raced now k v i = (ok, i')"
    and "\<And>k'. in_use hs' k' + (if ok \<and> k' = k \<and> \<not> can_share P v then 1 else 0) \<le> in_use hs k'"
    and "set_mset hs' \<subseteq> set_mset hs"
  shows "pinv P M N i' conn hs' ks"
proof (rule pinv_change[OF assms(1)])
  note e = put_effect[OF assms(2) pinvD(8,9)[OF assms(1)]]
  have limits: "same_limits i i'" using e by blast
  have st: "slots_taken i' k' = slots_taken i k'" for k'
    using limits by (simp add: slots_taken_def same_limits_def)
  show "establishing conn k' + in_use hs' k' + idle_h1 P i' k' + handed_over P i' ks k' + slots_taken i k'
      \<le> establishing conn k' + in_use hs k' + idle_h1 P i k' + handed_over P i ks k' + slots_taken i' k'" for k'
  proof -
    have "idle_h1 P i' k' + handed_over P i' ks k' \<le> idle_h1 P i k' + handed_over P i ks k'
        + (if ok \<and> k' = k \<and> \<not> can_share P v then 1 else 0)" using e by blast
    then show ?thesis using assms(3)[of k'] st[of k'] by linarith
  qed
  show "slots_taken i' k' \<le> M" for k' using pinvD(4)[OF assms(1), of k'] st by simp
  show "establishing_h2 conn k' \<le> (if k' \<in> connecting_set i' then 1 else 0)" for k'
    using pinvD(5)[OF assms(1), of k'] limits by (simp add: same_limits_def)
  show "chan_inv i' ks" using chan_inv_shrink pinvD(9)[OF assms(1)] e by blast
  show "idle_inv i'" using e by blast
qed (use put_effect[OF assms(2) pinvD(8,9)[OF assms(1)]] pinvD[OF assms(1)] assms(4)
      in \<open>auto simp: same_limits_def\<close>)

lemma pinv_drop_pooled:
  assumes "pinv P M N i conn (add_mset h hs) ks" "pool_inner p = Some i"
  shows "\<exists>i'. pool_inner (pooled_drop P opn raced now h p) = Some i' \<and> pinv P M N i' conn hs ks"
proof (cases "pv_pool h")
  case False
  then have "pool_inner (pooled_drop P opn raced now h p) = Some i"
    using assms(2) by (simp add: pooled_drop_def pooled_release_def record_events_def)
  then show ?thesis using pinv_forget_pooled[OF assms(1)] by blast
next
  case True
  then have h: "pv_h1_slot h" "\<not> can_share P (pv_value h)" using pinvD(7)[OF assms(1), of h] by auto
  show ?thesis
  proof (cases "opn (pv_value h)")
    case False
    then have "pool_inner (pooled_drop P opn raced now h p) = Some (release_h1_slot (pv_key h) i)"
      using True h(1) assms(2) by (simp add: pooled_drop_def pooled_release_def record_events_def)
    then show ?thesis using pinv_release_pooled[OF assms(1) h(1) True] by blast
  next
    case op: True
    obtain ok i' where put: "put P raced now (pv_key h) (pv_value h) i = (ok, i')"
      by (cases "put P raced now (pv_key h) (pv_value h) i")
    show ?thesis
    proof (cases ok)
      case True
      then have "pinv P M N i' conn hs ks"
        using \<open>pv_pool h\<close> h by (intro pinv_put[OF assms(1) put]) (auto simp: establishing_add)
      then show ?thesis
        using True op \<open>pv_pool h\<close> assms(2) put by (simp add: pooled_drop_def record_events_def)
    next
      case False
      then have "pinv P M N i' conn (add_mset h hs) ks"
        by (intro pinv_put[OF assms(1) put]) auto
      then show ?thesis
        using False op \<open>pv_pool h\<close> h(1) assms(2) put pinv_release_pooled
        by (simp add: pooled_drop_def)
    qed
  qed
qed

lemma pinv_established:
  assumes "pinv P M N i (add_mset c conn) hs ks" "pool_inner p = Some i"
    and "cn_h1_slot c \<longleftrightarrow> \<not> can_share P v" "pool_pooled P raced now c v p = (h, p')"
  shows "\<exists>i'. pool_inner p' = Some i' \<and> pinv P M N i' conn (add_mset h hs) ks"
proof (cases rule: reserve_cases[of v])
  case (1 a b)
  obtain ok i1 where put: "put P raced now (cn_key c) a i = (ok, i1)"
    by (cases "put P raced now (cn_key c) a i")
  let ?i = "i1\<lparr>connecting_set := connecting_set i1 - {cn_key c}\<rparr>"
  have "pinv P M N i1 (add_mset c conn) hs ks"
    using 1 by (intro pinv_put[OF assms(1) put]) auto
  then have "pinv P M N ?i conn hs ks" using assms(3) 1 by (intro pinv_h2_done) auto
  then have "pinv P M N (connected (cn_key c) i1) conn hs ks"
    unfolding connected_def by (rule pinv_same_idle) auto
  moreover have "\<not> pv_pool h" "pool_inner p' = Some (connected (cn_key c) i1)"
    using assms(2,4) 1 put by (auto simp: pool_pooled_def record_events_def)
  ultimately show ?thesis using pinv_add_free_pooled by blast
next
  case 2
  then have h: "h = \<lparr>pv_value = v, pv_is_reused = False, pv_key = cn_key c, pv_pool = True, pv_h1_slot = True\<rparr>"
    "p' = p" using assms(2-4) by (auto simp: pool_pooled_def)
  have pool: "cn_pool c" "cn_h1_slot c" using pinvD(6)[OF assms(1)] assms(3) 2 by auto
  have "pinv P M N i conn (add_mset h hs) ks"
  proof (rule pinv_change[OF assms(1)])
    show "establishing_h2 conn k \<le> (if k \<in> connecting_set i then 1 else 0)" for k
      using pinvD(5)[OF assms(1), of k] pool by (simp add: establishing_add)
  qed (use pinvD[OF assms(1)] pool 2 in \<open>auto simp: establishing_add h(1)\<close>)
  then show ?thesis using assms(2) h(2) by blast
qed

lemma pinv_checkout_poll:
  assumes "pinv P M N i conn hs (add_mset c cs)" "pool_inner p = Some i"
    and "checkout_poll P opn now c p = (r, c', p')"
  shows "\<exists>i'. pool_inner p' = Some i' \<and>
    pinv P M N i' conn ((case r of Ready (Inr h) \<Rightarrow> {#h#} | _ \<Rightarrow> {#}) + hs) (add_mset c' cs)"
proof -
  obtain i' where i': "pool_inner p' = Some i'" "poll_sound P cs i c r i' c'"
    using checkout_poll_sound[OF assms(2) pinvD(9)[OF assms(1)] pinvD(8)[OF assms(1)] assms(3)] by blast
  have "pv_h1_slot h \<and> \<not> can_share P (pv_value h)" if "r = Ready (Inr h)" "pv_pool h" for h
    using checkout_poll_handle assms(3) that by blast
  from pinv_poll[OF assms(1) i'(2) this] i'(1) show ?thesis by blast
qed

lemma pinv_tick:
  assumes "pinv P M N i conn hs ks" "pool_inner p = Some i"
  shows "\<exists>i'. pool_inner (idle_task_tick opn now order p) = Some i' \<and> pinv P M N i' conn hs ks"
proof (cases "idle_interval i = None \<or> idle_timeout i = None")
  case True
  then have "idle_task_tick opn now order p = p"
    using assms(2) by (auto simp: idle_task_tick_def split: option.splits)
  then show ?thesis using assms by simp
next
  case False
  then obtain a t where at: "idle_interval i = Some a" "idle_timeout i = Some t" by auto
  obtain evs i' where ce: "clear_expired opn now order t i = (evs, i')"
    by (cases "clear_expired opn now order t i")
  have "pinv P M N i' conn hs ks"
    using pinv_calm[OF assms(1) clear_expired_effect(1-3)[OF ce]] clear_expired_effect(4)[OF ce]
      pinvD(8)[OF assms(1)] by blast
  then show ?thesis using assms(2) at ce by (simp add: idle_task_tick_def record_events_def)
qed

lemma pinv_checkout_drop:
  assumes "pinv P M N i conn hs (add_mset c cs)" "pool_inner p = Some i"
  shows "\<exists>i'. pool_inner (checkout_drop c p) = Some i' \<and> pinv P M N i' conn hs cs"
  using assms(2) pinv_forget_checkout[OF assms(1)]
    pinv_same_idle[OF pinv_forget_checkout[OF assms(1)] clean_waiters_effect]
  by (auto simp: checkout_drop_def split: option.splits)

lemma pinv_alpn_h2:
  assumes "pinv P M N i (add_mset c cs) hs ks" "pool_inner p = Some i" "alpn_h2 c p = (r, p')"
  shows "\<exists>i'. pool_inner p' = Some i' \<and> pinv P M N i' ((case r of Some c' \<Rightarrow> {#c'#} | None \<Rightarrow> {#}) + cs) hs ks"
proof -
  let ?p = "if cn_h1_slot c \<and> cn_pool c
    then p\<lparr>pool_inner := map_option (release_h1_slot (cn_key c)) (pool_inner p)\<rparr> else p"
  obtain i1 where i1: "pool_inner ?p = Some i1" "pinv P M N i1 cs hs ks"
    using assms(2) pinv_release_conn[OF assms(1)] pinv_forget_conn[OF assms(1)]
    by (cases "cn_h1_slot c \<and> cn_pool c") auto
  show ?thesis using pinv_connecting[OF i1(2,1)] assms(3) unfolding alpn_h2_def by blast
qed

lemma pinv_connecting_drop:
  assumes "pinv P M N i (add_mset c cs) hs ks" "pool_inner p = Some i"
  shows "\<exists>i'. pool_inner (connecting_drop c p) = Some i' \<and> pinv P M N i' cs hs ks"
proof -
  define i1 where "i1 = (if cn_h1_slot c then release_h1_slot (cn_key c) i
    else i\<lparr>connecting_set := connecting_set i - {cn_key c}\<rparr>)"
  have "pinv P M N i1 cs hs ks"
    using pinv_release_conn[OF assms(1)] pinv_h2_done[OF assms(1)] by (simp add: i1_def)
  then have "pinv P M N (remove_waiters (cn_key c) i1) cs hs ks" by (rule pinv_same_idle) auto
  then show ?thesis
    using assms(2) pinvD(6)[OF assms(1), of c]
    by (simp add: connecting_drop_def connecting_cancelled_def i1_def)
qed

lemma pool_step_inv:
  assumes "pool_step P w w'" "pool_inv P M N w" "pool_inner (w_pool w) = Some i"
  shows "pool_inv P M N w' \<and> pool_inner (w_pool w') \<noteq> None"
proof -
  have inv: "pinv P M N i (w_connecting w) (w_pooled w) (w_checkouts w)"
    using assms(2,3) by (simp add: pool_inv_def)
  from assms(1) show ?thesis
  proof (cases rule: pool_step.cases)
    case (new_checkout k c p')
    then show ?thesis
      using assms(3) pinv_add_checkout[OF inv, of c]
      by (auto simp: pool_inv_def pool_checkout_def record_events_def)
  next
    case (poll_pending c cs opn now c' p')
    then show ?thesis
      using pinv_checkout_poll[OF inv[unfolded poll_pending(2)] assms(3) poll_pending(3)]
      by (auto simp: pool_inv_def)
  next
    case (poll_ready c cs opn now h c' p')
    then show ?thesis
      using pinv_checkout_poll[OF inv[unfolded poll_ready(2)] assms(3) poll_ready(3)]
      by (auto simp: pool_inv_def)
  next
    case (poll_failed c cs opn now e c' p')
    then show ?thesis
      using pinv_checkout_poll[OF inv[unfolded poll_failed(2)] assms(3) poll_failed(3)]
      by (auto simp: pool_inv_def)
  next
    case (drop_checkout c cs)
    then show ?thesis
      using pinv_checkout_drop[OF inv[unfolded drop_checkout(2)] assms(3)] by (auto simp: pool_inv_def)
  next
    case (start_connecting k proto r p')
    then show ?thesis
      using pinv_connecting[OF inv assms(3) start_connecting(2)] by (auto simp: pool_inv_def)
  next
    case (negotiated_h2 c cs r p')
    then show ?thesis
      using pinv_alpn_h2[OF inv[unfolded negotiated_h2(2)] assms(3) negotiated_h2(3)]
      by (auto simp: pool_inv_def)
  next
    case (drop_connecting c cs)
    then show ?thesis
      using pinv_connecting_drop[OF inv[unfolded drop_connecting(2)] assms(3)] by (auto simp: pool_inv_def)
  next
    case (established c cs v raced now h p')
    then show ?thesis
      using pinv_established[OF inv[unfolded established(2)] assms(3) _ established(4)] assms(3)
      by (auto simp: pool_inv_def is_enabled_def)
  next
    case (drop_pooled h hs opn raced now)
    then show ?thesis
      using pinv_drop_pooled[OF inv[unfolded drop_pooled(2)] assms(3), of opn raced now]
      by (auto simp: pool_inv_def)
  next
    case (tick opn now order)
    then show ?thesis using pinv_tick[OF inv assms(3), of opn now order] by (auto simp: pool_inv_def)
  next
    case (observe evs)
    then show ?thesis using inv assms(3) by (auto simp: pool_inv_def record_events_def)
  qed
qed

lemma pool_step_disabled:
  assumes "pool_step P w w'" "pool_inner (w_pool w) = None"
  shows "pool_inner (w_pool w') = None"
  using assms
  by (cases rule: pool_step.cases)
    (auto simp: pool_checkout_def record_events_def checkout_poll_def poll_waiter_def
      checkout_checkout_def checkout_drop_def pool_connecting_def alpn_h2_def connecting_drop_def
      pool_pooled_def pooled_drop_def pooled_release_def idle_task_tick_def
      split: option.splits poll.splits prod.splits if_splits)

lemma reachable_inv:
  "pool_reachable P cfg timer debug w \<Longrightarrow>
     pool_inv P (cfg_max_h1_connections_per_host cfg) (cfg_max_idle_per_host cfg) w"
proof (induction rule: pool_reachable.induct)
  case init
  show ?case
    by (auto simp: pool_inv_def initial_world_def pool_new_def pinv_def idle_inv_def chan_inv_def
        quantity_defs idle_h1_def handed_over_def slots_taken_def config_enabled_def)
next
  case (step w w')
  then show ?case
    using pool_step_inv[OF step.hyps(2) step.IH] pool_step_disabled[OF step.hyps(2)]
    by (cases "pool_inner (w_pool w)") (auto simp: pool_inv_def)
qed

end

end
