(* ===== verification/Client_Pool_Props.thy ===== *)
theory Client_Pool_Props
  imports Client_Pool_Safe
begin

text \<open>
  The client's pool item (\<^verbatim>\<open>PoolClient\<close> in \<^verbatim>\<open>src/crates/h12tiny-client/src/lib.rs\<close>) as an instance of
  the pool's item contract, and the properties of the pool it lives in.
\<close>

section \<open>The pool item of the client\<close>

text \<open>
  \<open>'a\<close> and \<open>'b\<close> are the request senders of the HTTP library for HTTP/1 and HTTP/2; \<open>clone\<close> is the
  library's clone of an HTTP/2 sender.
\<close>

record 'addr connection_info =
  ci_protocol :: connection_protocol
  ci_local_addr :: "'addr option"
  ci_peer_addr :: "'addr option"
  ci_connect_duration :: "duration option"
  ci_handshake_duration :: "duration option"

definition connection_info_new :: "connection_protocol \<Rightarrow> 'addr connection_info" where
  "connection_info_new p =
     \<lparr>ci_protocol = p, ci_local_addr = None, ci_peer_addr = None, ci_connect_duration = None,
      ci_handshake_duration = None\<rparr>"

datatype ('a, 'b) sender = SenderHttp1 'a | SenderHttp2 'b

record ('a, 'b, 'addr) pool_client =
  pc_sender :: "('a, 'b) sender"
  pc_connection_info :: "'addr connection_info"

definition pc_is_http2 :: "('a, 'b, 'addr) pool_client \<Rightarrow> bool" where
  "pc_is_http2 c = (case pc_sender c of SenderHttp1 _ \<Rightarrow> False | SenderHttp2 _ \<Rightarrow> True)"

definition pc_is_http1 :: "('a, 'b, 'addr) pool_client \<Rightarrow> bool" where
  "pc_is_http1 c \<longleftrightarrow> \<not> pc_is_http2 c"

definition pc_is_ready ::
  "('a \<Rightarrow> bool) \<Rightarrow> ('b \<Rightarrow> bool) \<Rightarrow> ('a, 'b, 'addr) pool_client \<Rightarrow> bool" where
  "pc_is_ready ready1 ready2 c =
     (case pc_sender c of SenderHttp1 s \<Rightarrow> ready1 s | SenderHttp2 s \<Rightarrow> ready2 s)"

definition pc_reserve :: "('b \<Rightarrow> 'b) \<Rightarrow> ('a, 'b, 'addr) pool_client \<Rightarrow> ('a, 'b, 'addr) pool_client reservation" where
  "pc_reserve clone c =
     (case pc_sender c of
        SenderHttp1 s \<Rightarrow> Unique \<lparr>pc_sender = SenderHttp1 s, pc_connection_info = pc_connection_info c\<rparr>
      | SenderHttp2 s \<Rightarrow>
          Shared \<lparr>pc_sender = SenderHttp2 (clone s), pc_connection_info = pc_connection_info c\<rparr>
                 \<lparr>pc_sender = SenderHttp2 s, pc_connection_info = pc_connection_info c\<rparr>)"

definition pool_client_item :: "('b \<Rightarrow> 'b) \<Rightarrow> ('a, 'b, 'addr) pool_client pool_item" where
  "pool_client_item clone = \<lparr>reserve = pc_reserve clone, can_share = pc_is_http2\<rparr>"

interpretation pc: poolable "pool_client_item clone" for clone :: "'b \<Rightarrow> 'b"
proof
  fix v :: "('a, 'b, 'addr) pool_client"
  show "can_share (pool_client_item clone) v \<Longrightarrow>
      \<exists>a b. reserve (pool_client_item clone) v = Shared a b \<and> can_share (pool_client_item clone) a \<and>
        can_share (pool_client_item clone) b"
    by (auto simp: pool_client_item_def pc_is_http2_def pc_reserve_def split: sender.splits)
  show "\<not> can_share (pool_client_item clone) v \<Longrightarrow> reserve (pool_client_item clone) v = Unique v"
    by (auto simp: pool_client_item_def pc_is_http2_def pc_reserve_def split: sender.splits)
qed

section \<open>Limits\<close>

definition demo_cfg :: pool_config where
  "demo_cfg = \<lparr>cfg_idle_timeout = Some 1000, cfg_max_idle_per_host = 2, cfg_max_h1_connections_per_host = 1\<rparr>"

type_synonym demo_conn = "(nat, nat, nat) pool_client"

abbreviation demo_item :: "demo_conn pool_item" where
  "demo_item \<equiv> pool_client_item (\<lambda>n. n)"

definition h1_conn :: "nat \<Rightarrow> demo_conn" where
  "h1_conn n = \<lparr>pc_sender = SenderHttp1 n, pc_connection_info = connection_info_new ConnHttp1\<rparr>"

text \<open>
  Concrete runs.  \<open>run_connecting\<close>, \<open>run_established\<close> and \<open>run_drop\<close> are steps of the pool as
  functions on worlds, for a single handle of the kind they consume.
\<close>

definition run_connecting :: "string \<Rightarrow> (string, demo_conn) world \<Rightarrow> (string, demo_conn) world" where
  "run_connecting k w =
     (case pool_connecting k ProtoHttp1 (w_pool w) of
        (r, p) \<Rightarrow> w\<lparr>w_pool := p, w_connecting := (case r of Some c \<Rightarrow> {#c#} | None \<Rightarrow> {#}) + w_connecting w\<rparr>)"

definition run_established :: "string connecting \<Rightarrow> demo_conn \<Rightarrow> (string, demo_conn) world \<Rightarrow> (string, demo_conn) world" where
  "run_established c v w =
     (case pool_pooled demo_item (\<lambda>n. False) 0 c v (w_pool w) of
        (h, p) \<Rightarrow> w\<lparr>w_pool := p, w_connecting := w_connecting w - {#c#}, w_pooled := add_mset h (w_pooled w)\<rparr>)"

definition run_drop :: "bool \<Rightarrow> (string, demo_conn) pooled \<Rightarrow> (string, demo_conn) world \<Rightarrow> (string, demo_conn) world" where
  "run_drop alive h w =
     w\<lparr>w_pool := pooled_drop demo_item (\<lambda>v. alive) (\<lambda>n. False) 5 h (w_pool w),
       w_pooled := w_pooled w - {#h#}\<rparr>"

abbreviation demo_reachable :: "(string, demo_conn) world \<Rightarrow> bool" where
  "demo_reachable \<equiv> pool_reachable demo_item demo_cfg True False"

lemma run_connecting_reachable: "demo_reachable w \<Longrightarrow> demo_reachable (run_connecting k w)"
  by (auto simp: run_connecting_def split: prod.splits
      intro: pool_reachable.step[OF _ pool_step.start_connecting])

lemma run_established_reachable:
  assumes "demo_reachable w" "c \<in># w_connecting w" "cn_h1_slot c" "pc_is_http1 v"
  shows "demo_reachable (run_established c v w)"
proof -
  obtain h p where "pool_pooled demo_item (\<lambda>n. False) 0 c v (w_pool w) = (h, p)"
    by (cases "pool_pooled demo_item (\<lambda>n. False) 0 c v (w_pool w)")
  moreover have "cn_h1_slot c \<longleftrightarrow> \<not> can_share demo_item v"
    using assms(3,4) by (simp add: pool_client_item_def pc_is_http1_def)
  moreover obtain cs where "w_connecting w = add_mset c cs" using assms(2) by (rule mset_add)
  ultimately show ?thesis
    using pool_reachable.step[OF assms(1) pool_step.established[of w c cs demo_item v "\<lambda>n. False" 0 h p]]
    by (simp add: run_established_def)
qed

lemma run_drop_reachable:
  assumes "demo_reachable w" "h \<in># w_pooled w" shows "demo_reachable (run_drop alive h w)"
proof -
  obtain hs where "w_pooled w = add_mset h hs" using assms(2) by (rule mset_add)
  then show ?thesis
    using pool_reachable.step[OF assms(1) pool_step.drop_pooled[of w h hs demo_item "\<lambda>v. alive" "\<lambda>n. False" 5]]
    by (simp add: run_drop_def)
qed

definition o_guard :: "string connecting" where
  "o_guard = \<lparr>cn_key = ''o'', cn_pool = True, cn_h1_slot = True\<rparr>"

definition o_handle :: "(string, demo_conn) pooled" where
  "o_handle = \<lparr>pv_value = h1_conn 7, pv_is_reused = False, pv_key = ''o'', pv_pool = True, pv_h1_slot = True\<rparr>"

definition granted_world :: "(string, demo_conn) world" where
  "granted_world = run_connecting ''o'' (initial_world demo_cfg True False)"

definition in_use_world :: "(string, demo_conn) world" where
  "in_use_world = run_established o_guard (h1_conn 7) granted_world"

definition idle_world :: "(string, demo_conn) world" where
  "idle_world = run_drop True o_handle in_use_world"

lemmas run_defs = run_connecting_def run_established_def run_drop_def initial_world_def pool_new_def
  config_enabled_def demo_cfg_def pool_connecting_def reserve_h1_slot_def o_guard_def o_handle_def
  pool_pooled_def pool_client_item_def pc_reserve_def h1_conn_def pc_is_http2_def pc_is_http1_def

lemma granted_reachable: "demo_reachable granted_world"
  unfolding granted_world_def by (intro run_connecting_reachable pool_reachable.init)

lemma granted_facts:
  "w_connecting granted_world = {#o_guard#}" "w_pooled granted_world = {#}" "w_checkouts granted_world = {#}"
  "\<exists>i. pool_inner (w_pool granted_world) = Some i \<and> slots_taken i ''o'' = 1"
  by (simp_all add: granted_world_def run_defs slots_taken_def)

lemma in_use_reachable: "demo_reachable in_use_world"
  unfolding in_use_world_def
  by (rule run_established_reachable[OF granted_reachable])
    (simp_all add: granted_facts o_guard_def h1_conn_def pc_is_http1_def pc_is_http2_def)

lemma in_use_facts:
  "w_connecting in_use_world = {#}" "w_pooled in_use_world = {#o_handle#}" "w_checkouts in_use_world = {#}"
  "w_pool in_use_world = w_pool granted_world"
  by (simp_all add: in_use_world_def granted_world_def run_defs)

lemma idle_reachable: "demo_reachable idle_world"
  unfolding idle_world_def by (rule run_drop_reachable[OF in_use_reachable]) (simp add: in_use_facts)

definition idle_inner :: "(string, demo_conn) inner" where
  "idle_inner =
     \<lparr>connecting_set = {}, h1_connections = [''o'' \<mapsto> 1],
      idle = [''o'' \<mapsto> [\<lparr>idle_value = h1_conn 7, idle_at = 5\<rparr>]],
      max_idle_per_host = 2, max_h1_connections_per_host = 1, waiters = (\<lambda>k. None),
      idle_interval = Some 1000, has_timer = True, idle_timeout = Some 1000,
      channels = (\<lambda>w. Waiting), next_channel = 0\<rparr>"

lemma idle_facts:
  "w_connecting idle_world = {#}" "w_pooled idle_world = {#}" "w_checkouts idle_world = {#}"
  "w_pool idle_world = \<lparr>pool_inner = Some idle_inner, debug_log = None\<rparr>"
  by (simp_all add: idle_world_def in_use_world_def granted_world_def run_defs pooled_drop_def put_def
      put_serve_def put_idle_def spawn_idle_interval_def record_events_def idle_inner_def)

text \<open>
  C13. The HTTP/1 connection bound.  In every reachable state of the client's pool, for every
  origin, the HTTP/1 sockets being established, in use, idle in the pool and in the hands of
  the hand-over channels together never exceed the configured bound, and neither does the
  pool's own counter, which is never below their number.
\<close>

theorem h1_connections_bounded:
  assumes "pool_reachable (pool_client_item clone) cfg timer debug w" "pool_inner (w_pool w) = Some i"
  shows "open_h1 (pool_client_item clone) i w k \<le> slots_taken i k \<and>
         slots_taken i k \<le> cfg_max_h1_connections_per_host cfg"
  using pc.reachable_inv[OF assms(1)] assms(2) by (simp add: pool_inv_def pinv_def open_h1_def)

theorem h1_connections_bounded_witness:
  "\<exists>i. pool_inner (w_pool granted_world) = Some i \<and> slots_taken i ''o'' = 1 \<and>
     open_h1 demo_item i granted_world ''o'' \<le> slots_taken i ''o'' \<and> slots_taken i ''o'' \<le> 1"
  using granted_facts(4) h1_connections_bounded[OF granted_reachable, of _ "''o''"]
  by (auto simp: demo_cfg_def)

text \<open>
  C14. One HTTP/2 establishment per origin.  In every reachable state at most one task holds
  the guard of an HTTP/2 establishment for an origin, and only while the origin is marked.
\<close>

theorem one_h2_establishment:
  assumes "pool_reachable (pool_client_item clone) cfg timer debug w" "pool_inner (w_pool w) = Some i"
  shows "establishing_h2 (w_connecting w) k \<le> (if k \<in> connecting_set i then 1 else 0)"
  using pc.reachable_inv[OF assms(1)] assms(2) by (simp add: pool_inv_def pinv_def)

theorem one_h2_establishment_witness:
  "\<exists>i. pool_inner (w_pool granted_world) = Some i \<and>
     establishing_h2 (w_connecting granted_world) ''o'' \<le> (if ''o'' \<in> connecting_set i then 1 else 0)"
  using granted_facts(4) one_h2_establishment[OF granted_reachable, of _ "''o''"] by auto

text \<open>
  The idle bound.  In every reachable state the pool keeps at most the configured number
  of idle connections of an origin, and never an empty list.
\<close>

theorem idle_bounded:
  assumes "pool_reachable (pool_client_item clone) cfg timer debug w" "pool_inner (w_pool w) = Some i"
    and "idle i k = Some l"
  shows "l \<noteq> [] \<and> length l \<le> cfg_max_idle_per_host cfg"
  using pc.reachable_inv[OF assms(1)] assms(2,3) by (auto simp: pool_inv_def pinv_def idle_inv_def)

theorem idle_bounded_witness:
  "\<exists>i l. pool_inner (w_pool idle_world) = Some i \<and> idle i ''o'' = Some l \<and> l \<noteq> [] \<and> length l \<le> 2"
  using idle_bounded[OF idle_reachable, of idle_inner "''o''"] idle_facts
  by (simp add: idle_inner_def demo_cfg_def)

text \<open>
  C15. No double release.  In every reachable state a checked-out HTTP/1 connection, or a guard
  of an HTTP/1 establishment, has a slot to give back: the pool's assertion that a slot is
  never released twice cannot fail.
\<close>

theorem slot_never_released_twice:
  assumes "pool_reachable (pool_client_item clone) cfg timer debug w" "pool_inner (w_pool w) = Some i"
  shows "(\<forall>h \<in># w_pooled w. pv_pool h \<and> pv_h1_slot h \<longrightarrow> 0 < slots_taken i (pv_key h)) \<and>
         (\<forall>c \<in># w_connecting w. cn_pool c \<and> cn_h1_slot c \<longrightarrow> 0 < slots_taken i (cn_key c))"
proof -
  have le: "establishing (w_connecting w) k + in_use (w_pooled w) k \<le> slots_taken i k" for k
    using pc.reachable_inv[OF assms(1)] assms(2) pinvD(3)[of "pool_client_item clone" _ _ i _ _ _ k]
    by (fastforce simp: pool_inv_def)
  have a: "0 < in_use (w_pooled w) (pv_key h)" if "h \<in># w_pooled w" "pv_pool h" "pv_h1_slot h" for h
    using that by (auto simp: in_use_def filter_mset_eq_conv nonempty_has_size[symmetric])
  have b: "0 < establishing (w_connecting w) (cn_key c)"
    if "c \<in># w_connecting w" "cn_pool c" "cn_h1_slot c" for c
    using that by (auto simp: establishing_def filter_mset_eq_conv nonempty_has_size[symmetric])
  show ?thesis
  proof (intro conjI ballI impI)
    fix h assume "h \<in># w_pooled w" "pv_pool h \<and> pv_h1_slot h"
    then show "0 < slots_taken i (pv_key h)" using a[of h] le[of "pv_key h"] by linarith
  next
    fix c assume "c \<in># w_connecting w" "cn_pool c \<and> cn_h1_slot c"
    then show "0 < slots_taken i (cn_key c)" using b[of c] le[of "cn_key c"] by linarith
  qed
qed

theorem slot_never_released_twice_witness:
  "\<exists>i. pool_inner (w_pool in_use_world) = Some i \<and> 0 < slots_taken i ''o''"
proof -
  obtain i where i: "pool_inner (w_pool in_use_world) = Some i"
    using granted_facts(4) in_use_facts(4) by auto
  from slot_never_released_twice[OF in_use_reachable i] have "0 < slots_taken i ''o''"
    by (simp add: in_use_facts o_handle_def)
  with i show ?thesis by blast
qed

section \<open>Hand-over\<close>

lemma put_waiters_skip:
  "list_all (\<lambda>x. ch x = ReceiverDropped) gone \<Longrightarrow>
     put_waiters P raced ch v (gone @ q) = put_waiters P raced ch v q"
  by (induction gone) auto

text \<open>
  First come, first served.  When a live HTTP/1 connection is returned to the pool while
  checkouts wait for its origin, the oldest waiter whose task is still there receives it, the
  waiters behind it keep their places, nothing is added to the idle list, and its next poll
  yields exactly that connection, marked as reused and owning the slot.
\<close>

theorem returned_connection_goes_to_oldest_waiter:
  assumes "pc_is_http1 v" "opn v" "pool_inner p = Some i"
    and "h = \<lparr>pv_value = v, pv_is_reused = r, pv_key = k, pv_pool = True, pv_h1_slot = True\<rparr>"
    and "waiters i k = Some (gone @ w # behind)"
    and "list_all (\<lambda>x. channels i x = ReceiverDropped) gone" "channels i w = Waiting" "\<not> raced w"
  shows "\<exists>i'. pool_inner (pooled_drop (pool_client_item clone) opn raced now h p) = Some i' \<and>
     waiters i' k = (if behind = [] then None else Some behind) \<and> idle i' = idle i \<and>
     h1_connections i' = h1_connections i \<and>
     fst (poll_waiter (pool_client_item clone) opn \<lparr>ck_key = k, ck_waiter = Some w\<rparr>
            (pooled_drop (pool_client_item clone) opn raced now h p)) =
       Ready (Some (Inr \<lparr>pv_value = v, pv_is_reused = True, pv_key = k, pv_pool = True, pv_h1_slot = True\<rparr>))"
proof -
  let ?P = "pool_client_item clone"
  have v: "\<not> can_share ?P v" using assms(1) by (simp add: pool_client_item_def pc_is_http1_def)
  have "put_waiters ?P raced (channels i) v (gone @ w # behind) =
      (None, behind, (channels i)(w := Delivered v))"
    using pc.unique[OF v] assms(6-8) by (simp add: put_waiters_skip)
  then have "put ?P raced now k v i =
      (True, set_waiters k behind (i\<lparr>channels := (channels i)(w := Delivered v)\<rparr>))"
    using v assms(5) by (simp add: put_def put_serve_def)
  then show ?thesis
    using assms(2-4) v
    by (simp add: pooled_drop_def record_events_def set_waiters_def poll_waiter_def pool_reuse_def)
qed

definition waiting_pool :: "(string, demo_conn) pool" where
  "waiting_pool = \<lparr>pool_inner = Some (idle_inner\<lparr>idle := (\<lambda>k. None), waiters := [''o'' \<mapsto> [3, 4]],
     channels := (\<lambda>w. if w = 3 then ReceiverDropped else Waiting), next_channel := 5\<rparr>), debug_log = None\<rparr>"

theorem returned_connection_goes_to_oldest_waiter_witness:
  "fst (poll_waiter demo_item (\<lambda>v. True) \<lparr>ck_key = ''o'', ck_waiter = Some 4\<rparr>
          (pooled_drop demo_item (\<lambda>v. True) (\<lambda>x. False) 9 o_handle waiting_pool)) =
     Ready (Some (Inr (o_handle\<lparr>pv_is_reused := True\<rparr>)))"
proof -
  let ?i = "idle_inner\<lparr>idle := (\<lambda>k. None), waiters := [''o'' \<mapsto> [3, 4]],
     channels := (\<lambda>w. if w = 3 then ReceiverDropped else Waiting), next_channel := 5\<rparr>"
  have "pc_is_http1 (h1_conn 7)" by (simp add: h1_conn_def pc_is_http1_def pc_is_http2_def)
  from returned_connection_goes_to_oldest_waiter[OF this, of "\<lambda>v. True" waiting_pool ?i o_handle False "''o''"
      "[3]" 4 "[]" "\<lambda>x. False" "\<lambda>n. n" 9]
  show ?thesis by (auto simp: waiting_pool_def o_handle_def)
qed

text \<open>
  C16. A cancelled establishment strands nobody.  When the guard of an establishment is dropped,
  every checkout that waits for its origin is released: its next poll completes with the error
  that makes the client retry, and the origin's queue is empty.
\<close>

theorem cancelled_establishment_wakes_waiters:
  assumes "pool_inner p = Some i" "cn_pool c" "waiters i (cn_key c) = Some q" "w \<in> set q"
    and "channels i w = Waiting"
  shows "fst (checkout_poll P opn now \<lparr>ck_key = cn_key c, ck_waiter = Some w\<rparr> (connecting_drop c p)) =
           Ready (Inl NoLongerWanted) \<and>
         (\<exists>i'. pool_inner (connecting_drop c p) = Some i' \<and> waiters i' (cn_key c) = None)"
  using assms
  by (simp add: connecting_drop_def connecting_cancelled_def remove_waiters_def checkout_poll_def
      poll_waiter_def Let_def)

theorem cancelled_establishment_wakes_waiters_witness:
  "fst (checkout_poll demo_item (\<lambda>v. True) 9 \<lparr>ck_key = ''o'', ck_waiter = Some 4\<rparr>
          (connecting_drop o_guard waiting_pool)) = Ready (Inl NoLongerWanted)"
  using cancelled_establishment_wakes_waiters[of waiting_pool _ o_guard "[3, 4]" 4 demo_item "\<lambda>v. True" 9]
  by (simp add: waiting_pool_def o_guard_def)

section \<open>Freshness\<close>

lemma idle_pop_fresh:
  "idle_pop P opn t now l = (Some e, l', n) \<Longrightarrow>
     \<exists>e0 \<in> set l. opn (idle_value e0) \<and> \<not> expires t (idle_at e0) now \<and> idle_at e = idle_at e0 \<and>
       (reserve P (idle_value e0) = Unique (idle_value e) \<or>
        (\<exists>a. reserve P (idle_value e0) = Shared a (idle_value e)))"
proof (induction l arbitrary: n rule: rev_induct)
  case (snoc e0 l)
  then show ?case
    by (auto simp: idle_pop_snoc split: if_splits prod.splits reservation.splits)
qed (simp add: idle_pop_Nil)

lemma pc_reserved:
  "reserve (pool_client_item clone) x = Unique v \<or> (\<exists>a. reserve (pool_client_item clone) x = Shared a v)
     \<Longrightarrow> x = v"
  by (cases x) (auto simp: pool_client_item_def pc_reserve_def split: sender.splits)

text \<open>
  C17. Only live, unexpired connections are handed out.  Whenever polling a checkout yields a
  connection, it was open at that moment, and if it came from the idle list it had been idle
  no longer than the configured timeout.
\<close>

theorem checkout_yields_fresh:
  assumes "checkout_poll (pool_client_item clone) opn now c p = (Ready (Inr h), c', p')"
    and "pool_inner p = Some i"
  shows "opn (pv_value h) \<and> pv_is_reused h \<and> pv_key h = ck_key c \<and>
     ((\<exists>w. ck_waiter c = Some w \<and> channels i w = Delivered (pv_value h)) \<or>
      (\<exists>l e. idle i (ck_key c) = Some l \<and> e \<in> set l \<and> idle_value e = pv_value h \<and>
         (\<forall>t. idle_timeout i = Some t \<longrightarrow> now - idle_at e \<le> t)))"
proof -
  let ?P = "pool_client_item clone"
  from assms consider
    (waiter) w where "ck_waiter c = Some w" "channels i w = Delivered (pv_value h)" "opn (pv_value h)"
      "pv_is_reused h" "pv_key h = ck_key c"
  | (idle) l e l' n where "idle i (ck_key c) = Some l" "idle_pop ?P opn (idle_timeout i) now l = (Some e, l', n)"
      "h = pool_reuse ?P (ck_key c) (idle_value e) p"
    by (auto simp: checkout_poll_def poll_waiter_def checkout_checkout_def checkout_idle_def pool_reuse_def
        Let_def split: option.splits poll.splits prod.splits channel.splits if_splits)
  then show ?thesis
  proof cases
    case waiter
    then show ?thesis by blast
  next
    case idle
    from idle_pop_fresh[OF idle(2)] obtain e0 where "e0 \<in> set l" "opn (idle_value e0)"
      "\<not> expires (idle_timeout i) (idle_at e0) now" "idle_value e0 = idle_value e"
      using pc_reserved by metis
    then show ?thesis using idle by (auto simp: pool_reuse_def expires_def)
  qed
qed

theorem checkout_yields_fresh_witness:
  "\<exists>h c' p'. checkout_poll demo_item (\<lambda>v. True) 900 \<lparr>ck_key = ''o'', ck_waiter = None\<rparr> (w_pool idle_world) =
       (Ready (Inr h), c', p') \<and> pv_value h = h1_conn 7 \<and> pv_is_reused h"
proof -
  let ?c = "\<lparr>ck_key = ''o'', ck_waiter = None\<rparr>"
  obtain h c' p' where run: "checkout_poll demo_item (\<lambda>v. True) 900 ?c (w_pool idle_world) = (Ready (Inr h), c', p')"
    and v: "pv_value h = h1_conn 7"
    by (simp add: idle_facts idle_inner_def checkout_poll_def poll_waiter_def checkout_checkout_def
        checkout_idle_def idle_pop.simps expires_def pool_client_item_def pc_reserve_def h1_conn_def
        pool_reuse_def Let_def)
  have "pool_inner (w_pool idle_world) = Some idle_inner" by (simp add: idle_facts)
  from checkout_yields_fresh[OF run this] run v show ?thesis by blast
qed

section \<open>Idle eviction\<close>

text \<open>The background task acts on the pool by rounds of its state machine only.\<close>

lemma idle_task_poll_step:
  assumes "idle_task_poll opn now order gone t (w_pool w) = (r, t', p')"
  shows "p' = w_pool w \<or> pool_step P w (w\<lparr>w_pool := p'\<rparr>)"
  using assms
  by (cases "(opn, now, order, gone, t, w_pool w)" rule: idle_task_poll.cases)
    (auto split: if_splits intro: pool_step.tick)

text \<open>
  A poll of the background task at or after its deadline leaves only open connections in the
  idle list, none idle for longer than the timeout, and the next deadline is one interval later.
  So no connection stays idle for longer than the timeout and one interval.
\<close>

lemma idle_task_evicts:
  assumes "at \<le> now" "pool_inner p = Some i" "idle_interval i \<noteq> None" "idle_timeout i = Some timeout"
  obtains p' i' where "idle_task_poll opn now order False (ItSleeping d at) p = (Pending, ItSleeping d (now + d), p')"
    "pool_inner p' = Some i'"
    "\<And>k l e. idle i' k = Some l \<Longrightarrow> e \<in> set l \<Longrightarrow> opn (idle_value e) \<and> now - idle_at e \<le> timeout"
proof -
  obtain evs i' where ce: "clear_expired opn now order timeout i = (evs, i')" by fastforce
  have "opn (idle_value e) \<and> now - idle_at e \<le> timeout" if "idle i' k = Some l" "e \<in> set l" for k l e
  proof -
    have "set l \<subseteq> Collect (keep_entry opn timeout now)"
      using ce that(1) by (auto simp: clear_expired_def split: option.splits list.splits dest: sym)
    then show ?thesis using that(2) by (auto simp: keep_entry_def)
  qed
  moreover have "idle_task_poll opn now order False (ItSleeping d at) p =
      (Pending, ItSleeping d (now + d), record_events evs (p\<lparr>pool_inner := Some i'\<rparr>))"
    using assms ce by (auto simp: idle_task_tick_def)
  ultimately show thesis by (intro that) (auto simp: record_events_def)
qed

lemma idle_interval_positive: "idle_interval (spawn_idle_interval i) = Some d \<Longrightarrow> idle_interval i = None \<Longrightarrow> 90 \<le> d"
  by (auto simp: spawn_idle_interval_def split: option.splits if_splits)

section \<open>Defects\<close>

text \<open>
  Evicting an idle HTTP/1 connection leaks its slot.  A state is reachable in which no
  connection is being established, in use, idle or waited for, and yet, with a bound of one
  connection, no connection may ever be established to the origin again.
\<close>

definition leaked_world :: "(string, demo_conn) world" where
  "leaked_world = idle_world\<lparr>w_pool := idle_task_tick (\<lambda>v. False) 2000 [''o''] (w_pool idle_world)\<rparr>"

theorem idle_eviction_leaks_slot:
  "\<exists>w i. pool_reachable demo_item demo_cfg True False (w :: (string, demo_conn) world) \<and>
     pool_inner (w_pool w) = Some i \<and>
     w_connecting w = {#} \<and> w_pooled w = {#} \<and> w_checkouts w = {#} \<and> idle i ''o'' = None \<and>
     fst (pool_connecting ''o'' ProtoHttp1 (w_pool w)) = None"
proof -
  have "demo_reachable leaked_world"
    unfolding leaked_world_def by (rule pool_reachable.step[OF idle_reachable pool_step.tick])
  moreover have "\<exists>i. pool_inner (w_pool leaked_world) = Some i \<and> idle i ''o'' = None"
    "w_connecting leaked_world = {#}" "w_pooled leaked_world = {#}" "w_checkouts leaked_world = {#}"
    "fst (pool_connecting ''o'' ProtoHttp1 (w_pool leaked_world)) = None"
    by (simp_all add: leaked_world_def idle_facts idle_task_tick_def idle_inner_def clear_expired_def
        keep_entry_def record_events_def pool_connecting_def reserve_h1_slot_def)
  ultimately show ?thesis by blast
qed

lemma poll_stuck:
  assumes "pool_inner p = Some i" "ck_waiter c = Some w" "channels i w = Waiting" "idle i (ck_key c) = None"
  shows "checkout_poll P opn now c p = (Pending, c, p)"
proof -
  have "(idle i)(ck_key c := None) = idle i" using assms(4) by (simp add: fun_upd_idem_iff)
  then show ?thesis
    using assms
    by (simp add: checkout_poll_def poll_waiter_def checkout_checkout_def checkout_idle_def
        checkout_wait_def record_events_def is_enabled_def option.map_ident)
qed

text \<open>
  A closed connection strands the waiters of its origin.  A state is reachable, with a
  bound of one connection, in which a checkout waits, the slot of the origin is free, nobody
  holds a connection or an establishment guard, and no poll of the checkout, at any time,
  makes progress: releasing a slot does not wake the waiters.
\<close>

definition o_checkout :: "string checkout" where
  "o_checkout = \<lparr>ck_key = ''o'', ck_waiter = None\<rparr>"

definition waiting_world :: "(string, demo_conn) world" where
  "waiting_world = in_use_world\<lparr>
     w_pool := snd (snd (checkout_poll demo_item (\<lambda>v. True) 1 o_checkout (w_pool in_use_world))),
     w_checkouts := {#o_checkout\<lparr>ck_waiter := Some 0\<rparr>#}\<rparr>"

lemma waiting_reachable: "demo_reachable waiting_world"
proof -
  let ?w1 = "in_use_world\<lparr>w_pool := w_pool in_use_world, w_checkouts := add_mset o_checkout (w_checkouts in_use_world)\<rparr>"
  have "pool_checkout ''o'' (w_pool in_use_world) = (o_checkout, w_pool in_use_world)"
    by (simp add: pool_checkout_def o_checkout_def record_events_def in_use_facts granted_world_def run_defs)
  from pool_reachable.step[OF in_use_reachable pool_step.new_checkout[OF this]]
  have r1: "demo_reachable ?w1" .
  have poll: "checkout_poll demo_item (\<lambda>v. True) 1 o_checkout (w_pool ?w1) =
      (Pending, o_checkout\<lparr>ck_waiter := Some 0\<rparr>, w_pool waiting_world)"
    by (simp add: waiting_world_def in_use_facts granted_world_def run_defs o_checkout_def checkout_poll_def
        poll_waiter_def checkout_checkout_def checkout_idle_def checkout_wait_def record_events_def
        is_enabled_def Let_def)
  have "w_checkouts ?w1 = add_mset o_checkout {#}" by (simp add: in_use_facts)
  from pool_reachable.step[OF r1 pool_step.poll_pending[OF this poll]] show ?thesis
    by (simp add: waiting_world_def)
qed

definition stranded_world :: "(string, demo_conn) world" where
  "stranded_world = run_drop False o_handle waiting_world"

theorem closed_connection_strands_waiter:
  "\<exists>w i c. pool_reachable demo_item demo_cfg True False (w :: (string, demo_conn) world) \<and>
     pool_inner (w_pool w) = Some i \<and> w_connecting w = {#} \<and> w_pooled w = {#} \<and> w_checkouts w = {#c#} \<and>
     slots_taken i (ck_key c) = 0 \<and>
     (\<forall>opn now. checkout_poll demo_item opn now c (w_pool w) = (Pending, c, w_pool w))"
proof -
  have "demo_reachable stranded_world"
    unfolding stranded_world_def
    by (rule run_drop_reachable[OF waiting_reachable]) (simp add: waiting_world_def in_use_facts)
  moreover have "w_connecting stranded_world = {#}" "w_pooled stranded_world = {#}"
    "w_checkouts stranded_world = {#o_checkout\<lparr>ck_waiter := Some 0\<rparr>#}"
    by (simp_all add: stranded_world_def run_drop_def waiting_world_def in_use_facts)
  moreover obtain i where i: "pool_inner (w_pool stranded_world) = Some i" "slots_taken i ''o'' = 0"
    "channels i 0 = Waiting" "idle i ''o'' = None"
    by (simp add: stranded_world_def waiting_world_def in_use_facts granted_world_def run_defs o_checkout_def
        checkout_poll_def poll_waiter_def checkout_checkout_def checkout_idle_def checkout_wait_def
        record_events_def pooled_drop_def pooled_release_def release_h1_slot_def slots_taken_def Let_def)
  moreover have "checkout_poll demo_item opn now (o_checkout\<lparr>ck_waiter := Some 0\<rparr>) (w_pool stranded_world) =
      (Pending, o_checkout\<lparr>ck_waiter := Some 0\<rparr>, w_pool stranded_world)" for opn now
    using i by (intro poll_stuck[of _ i _ 0]) (auto simp: o_checkout_def)
  ultimately show ?thesis by (intro exI[of _ stranded_world] exI[of _ i] exI) (auto simp: o_checkout_def)
qed

text \<open>
  A connection handed to a waiter whose request is cancelled before it looks is closed without
  releasing its slot: the channel holds the bare connection, not the handle that owns the slot.
\<close>

definition delivered_world :: "(string, demo_conn) world" where
  "delivered_world = run_drop True o_handle waiting_world"

definition cancelled_world :: "(string, demo_conn) world" where
  "cancelled_world = delivered_world\<lparr>
     w_pool := checkout_drop (o_checkout\<lparr>ck_waiter := Some 0\<rparr>) (w_pool delivered_world), w_checkouts := {#}\<rparr>"

lemma cancelled_waiter_leaks_slot:
  "\<exists>w i. pool_reachable demo_item demo_cfg True False (w :: (string, demo_conn) world) \<and>
     pool_inner (w_pool w) = Some i \<and>
     w_connecting w = {#} \<and> w_pooled w = {#} \<and> w_checkouts w = {#} \<and> idle i ''o'' = None \<and>
     fst (pool_connecting ''o'' ProtoHttp1 (w_pool w)) = None"
proof -
  have r1: "demo_reachable delivered_world"
    unfolding delivered_world_def
    by (rule run_drop_reachable[OF waiting_reachable]) (simp add: waiting_world_def in_use_facts)
  have "w_checkouts delivered_world = add_mset (o_checkout\<lparr>ck_waiter := Some 0\<rparr>) {#}"
    by (simp add: delivered_world_def run_drop_def waiting_world_def)
  then have "demo_reachable cancelled_world"
    unfolding cancelled_world_def by (rule pool_reachable.step[OF r1 pool_step.drop_checkout])
  moreover have "w_connecting cancelled_world = {#}" "w_pooled cancelled_world = {#}"
    "w_checkouts cancelled_world = {#}"
    by (simp_all add: cancelled_world_def delivered_world_def run_drop_def waiting_world_def in_use_facts)
  moreover have "\<exists>i. pool_inner (w_pool cancelled_world) = Some i \<and> idle i ''o'' = None"
    "fst (pool_connecting ''o'' ProtoHttp1 (w_pool cancelled_world)) = None"
    by (simp_all add: cancelled_world_def delivered_world_def waiting_world_def in_use_facts granted_world_def
        run_defs o_checkout_def checkout_poll_def poll_waiter_def checkout_checkout_def checkout_idle_def
        checkout_wait_def record_events_def pooled_drop_def put_def put_serve_def set_waiters_def
        checkout_drop_def clean_waiters_def set_channel_def Let_def)
  ultimately show ?thesis by blast
qed

end
