(* ===== verification/Tls_Config.thy ===== *)
theory Tls_Config
  imports H12_Prelude
begin

text \<open>
  The Rustls configuration builders of the two clients (\<^verbatim>\<open>ClientTlsConfigBuilder\<close> in
  \<^verbatim>\<open>src/crates/h12tiny-client/src/connect.rs\<close> and in \<^verbatim>\<open>src/crates/h12tiny-client-sync/src/lib.rs\<close>).
  Rustls itself is a parameter.
\<close>

datatype ('cert, 'key) client_authentication = NoClientAuth | Certificates "'cert list" 'key

record ('p, 'r, 'v, 'cert, 'key) tls_builder =
  provider :: 'p
  roots :: 'r
  alpn_offer :: "bytes list"
  versions :: "'v list option"
  client_auth :: "('cert, 'key) client_authentication"

record 'core tls_config =
  tls_core :: 'core
  alpn_protocols :: "bytes list"

record ('p, 'r, 'v, 'cert, 'key, 'b, 'core) rustls_ops =
  default_roots :: 'r
  roots_add :: "'r \<Rightarrow> 'cert \<Rightarrow> (string, 'r) result"
  with_protocol_versions :: "'p \<Rightarrow> 'v list \<Rightarrow> (string, 'b) result"
  with_safe_default_versions :: "'p \<Rightarrow> (string, 'b) result"
  finish_no_auth :: "'b \<Rightarrow> 'r \<Rightarrow> 'core"
  finish_client_auth :: "'b \<Rightarrow> 'r \<Rightarrow> 'cert list \<Rightarrow> 'key \<Rightarrow> (string, 'core) result"

abbreviation h2_alpn :: bytes where "h2_alpn \<equiv> ''h2''"
abbreviation http1_alpn :: bytes where "http1_alpn \<equiv> ''http/1.1''"

definition tls_with_provider ::
  "('p, 'r, 'v, 'cert, 'key, 'b, 'core) rustls_ops \<Rightarrow> 'p \<Rightarrow> ('p, 'r, 'v, 'cert, 'key) tls_builder" where
  "tls_with_provider R p =
     \<lparr>provider = p, roots = default_roots R, alpn_offer = [h2_alpn, http1_alpn], versions = None,
      client_auth = NoClientAuth\<rparr>"

definition tls_root_certificates :: "('p, 'r, 'v, 'cert, 'key) tls_builder \<Rightarrow> 'r \<Rightarrow> ('p, 'r, 'v, 'cert, 'key) tls_builder" where
  "tls_root_certificates b r = b\<lparr>roots := r\<rparr>"

definition tls_add_root_certificate ::
  "('p, 'r, 'v, 'cert, 'key, 'b, 'core) rustls_ops \<Rightarrow> ('p, 'r, 'v, 'cert, 'key) tls_builder \<Rightarrow> 'cert
     \<Rightarrow> (string, ('p, 'r, 'v, 'cert, 'key) tls_builder) result" where
  "tls_add_root_certificate R b c = map_sum id (\<lambda>r. b\<lparr>roots := r\<rparr>) (roots_add R (roots b) c)"

definition tls_alpn_protocols :: "('p, 'r, 'v, 'cert, 'key) tls_builder \<Rightarrow> bytes list \<Rightarrow> ('p, 'r, 'v, 'cert, 'key) tls_builder" where
  "tls_alpn_protocols b ps = b\<lparr>alpn_offer := ps\<rparr>"

definition tls_protocol_versions :: "('p, 'r, 'v, 'cert, 'key) tls_builder \<Rightarrow> 'v list \<Rightarrow> ('p, 'r, 'v, 'cert, 'key) tls_builder" where
  "tls_protocol_versions b vs = b\<lparr>versions := Some vs\<rparr>"

definition tls_no_client_auth :: "('p, 'r, 'v, 'cert, 'key) tls_builder \<Rightarrow> ('p, 'r, 'v, 'cert, 'key) tls_builder" where
  "tls_no_client_auth b = b\<lparr>client_auth := NoClientAuth\<rparr>"

definition tls_client_auth ::
  "('p, 'r, 'v, 'cert, 'key) tls_builder \<Rightarrow> 'cert list \<Rightarrow> 'key \<Rightarrow> ('p, 'r, 'v, 'cert, 'key) tls_builder" where
  "tls_client_auth b chain key = b\<lparr>client_auth := Certificates chain key\<rparr>"

definition tls_core_build ::
  "('p, 'r, 'v, 'cert, 'key, 'b, 'core) rustls_ops \<Rightarrow> 'p \<Rightarrow> 'r \<Rightarrow> 'v list option
     \<Rightarrow> ('cert, 'key) client_authentication \<Rightarrow> (string, 'core) result" where
  "tls_core_build R p r vs auth =
     (case (case vs of
              Some vs \<Rightarrow> with_protocol_versions R p vs
            | None \<Rightarrow> with_safe_default_versions R p) of
        Inl e \<Rightarrow> Inl e
      | Inr builder \<Rightarrow>
          (case auth of
             NoClientAuth \<Rightarrow> Inr (finish_no_auth R builder r)
           | Certificates chain key \<Rightarrow> finish_client_auth R builder r chain key))"

definition tls_build ::
  "('p, 'r, 'v, 'cert, 'key, 'b, 'core) rustls_ops \<Rightarrow> ('p, 'r, 'v, 'cert, 'key) tls_builder
     \<Rightarrow> (string, 'core tls_config) result" where
  "tls_build R b =
     map_sum id (\<lambda>core. \<lparr>tls_core = core, alpn_protocols = alpn_offer b\<rparr>)
       (tls_core_build R (provider b) (roots b) (versions b) (client_auth b))"

text \<open>The blocking client's builder has no ALPN setting: it always offers HTTP/1.1 only.\<close>

record ('p, 'r, 'v, 'cert, 'key) sync_tls_builder =
  st_provider :: 'p
  st_roots :: 'r
  st_versions :: "'v list option"
  st_client_auth :: "('cert, 'key) client_authentication"

definition sync_tls_with_provider ::
  "('p, 'r, 'v, 'cert, 'key, 'b, 'core) rustls_ops \<Rightarrow> 'p \<Rightarrow> ('p, 'r, 'v, 'cert, 'key) sync_tls_builder" where
  "sync_tls_with_provider R p =
     \<lparr>st_provider = p, st_roots = default_roots R, st_versions = None, st_client_auth = NoClientAuth\<rparr>"

definition sync_tls_root_certificates ::
  "('p, 'r, 'v, 'cert, 'key) sync_tls_builder \<Rightarrow> 'r \<Rightarrow> ('p, 'r, 'v, 'cert, 'key) sync_tls_builder" where
  "sync_tls_root_certificates b r = b\<lparr>st_roots := r\<rparr>"

definition sync_tls_add_root_certificate ::
  "('p, 'r, 'v, 'cert, 'key, 'b, 'core) rustls_ops \<Rightarrow> ('p, 'r, 'v, 'cert, 'key) sync_tls_builder \<Rightarrow> 'cert
     \<Rightarrow> (string, ('p, 'r, 'v, 'cert, 'key) sync_tls_builder) result" where
  "sync_tls_add_root_certificate R b c = map_sum id (\<lambda>r. b\<lparr>st_roots := r\<rparr>) (roots_add R (st_roots b) c)"

definition sync_tls_protocol_versions ::
  "('p, 'r, 'v, 'cert, 'key) sync_tls_builder \<Rightarrow> 'v list \<Rightarrow> ('p, 'r, 'v, 'cert, 'key) sync_tls_builder" where
  "sync_tls_protocol_versions b vs = b\<lparr>st_versions := Some vs\<rparr>"

definition sync_tls_no_client_auth ::
  "('p, 'r, 'v, 'cert, 'key) sync_tls_builder \<Rightarrow> ('p, 'r, 'v, 'cert, 'key) sync_tls_builder" where
  "sync_tls_no_client_auth b = b\<lparr>st_client_auth := NoClientAuth\<rparr>"

definition sync_tls_client_auth ::
  "('p, 'r, 'v, 'cert, 'key) sync_tls_builder \<Rightarrow> 'cert list \<Rightarrow> 'key
     \<Rightarrow> ('p, 'r, 'v, 'cert, 'key) sync_tls_builder" where
  "sync_tls_client_auth b chain key = b\<lparr>st_client_auth := Certificates chain key\<rparr>"

definition sync_tls_build ::
  "('p, 'r, 'v, 'cert, 'key, 'b, 'core) rustls_ops \<Rightarrow> ('p, 'r, 'v, 'cert, 'key) sync_tls_builder
     \<Rightarrow> (string, 'core tls_config) result" where
  "sync_tls_build R b =
     map_sum id (\<lambda>core. \<lparr>tls_core = core, alpn_protocols = [http1_alpn]\<rparr>)
       (tls_core_build R (st_provider b) (st_roots b) (st_versions b) (st_client_auth b))"

definition force_http1 :: "'core tls_config \<Rightarrow> 'core tls_config" where
  "force_http1 c = c\<lparr>alpn_protocols := [http1_alpn]\<rparr>"

text \<open>
  The blocking client's TLS configuration is the asynchronous client's configuration for the
  same provider, roots, versions and client authentication with the ALPN offer reduced to
  HTTP/1.1, and both builders fail on the same settings.
\<close>

theorem sync_tls_is_http1_restriction:
  "sync_tls_build R b =
     map_sum id force_http1
       (tls_build R \<lparr>provider = st_provider b, roots = st_roots b, alpn_offer = offer,
                     versions = st_versions b, client_auth = st_client_auth b\<rparr>)"
  by (cases "tls_core_build R (st_provider b) (st_roots b) (st_versions b) (st_client_auth b)")
     (simp_all add: sync_tls_build_def tls_build_def force_http1_def)

end
