(* ===== verification/Client_Connect.thy ===== *)
theory Client_Connect
  imports Http_Api Client_Pool_Props Tls_Config
begin

text \<open>
  Connection establishment of the futures-based client (\<^verbatim>\<open>src/crates/h12tiny-client/src/connect.rs\<close>):
  ordering and racing of resolved addresses, TCP and TLS establishment, and protocol selection.

  A future that the code awaits is represented by its result; resolvers, dialers and the TLS
  library are parameters.  The race between connection attempts and the delay timer is a
  function of the sequence of events that complete.
\<close>

section \<open>Address order\<close>

datatype socket_addr = V4 nat u16 | V6 nat u16

fun is_ipv6 :: "socket_addr \<Rightarrow> bool" where
  "is_ipv6 (V6 a p) = True"
| "is_ipv6 (V4 a p) = False"

definition is_ipv4 :: "socket_addr \<Rightarrow> bool" where
  "is_ipv4 a \<longleftrightarrow> \<not> is_ipv6 a"

fun interleave_loop :: "socket_addr list \<Rightarrow> socket_addr list \<Rightarrow> socket_addr list" where
  "interleave_loop [] ipv4 = ipv4"
| "interleave_loop (a # ipv6) [] = a # interleave_loop ipv6 []"
| "interleave_loop (a # ipv6) (b # ipv4) = a # b # interleave_loop ipv6 ipv4"

definition interleave_address_families :: "socket_addr list \<Rightarrow> socket_addr list" where
  "interleave_address_families addresses =
     interleave_loop (filter is_ipv6 addresses) (filter (\<lambda>a. \<not> is_ipv6 a) addresses)"

definition has_both_address_families :: "socket_addr list \<Rightarrow> bool" where
  "has_both_address_families addresses \<longleftrightarrow> list_ex is_ipv6 addresses \<and> list_ex is_ipv4 addresses"

definition no_connected_address :: "io_error option \<Rightarrow> io_error" where
  "no_connected_address last_error =
     (case last_error of
        Some e \<Rightarrow> e
      | None \<Rightarrow> IoError InvalidInput ''could not connect to any of the resolved addresses'')"

section \<open>Racing connection attempts\<close>

text \<open>
  \<open>Finished a r\<close>: the attempt to connect to \<open>a\<close> completes with \<open>r\<close>.  \<open>DelayElapsed\<close>: the delay
  timer fires first.
\<close>

datatype 's race_event = Finished socket_addr "(io_error, 's) result" | DelayElapsed

record race =
  not_started :: "socket_addr list"
  in_flight :: "socket_addr list"
  race_error :: "io_error option"

datatype 's race_state = Racing race | Won 's | Lost io_error

fun race_step :: "'s race_event \<Rightarrow> race \<Rightarrow> 's race_state" where
  "race_step (Finished a (Inr s)) r = (if a \<in> set (in_flight r) then Won s else Racing r)"
| "race_step (Finished a (Inl e)) r =
     (if a \<notin> set (in_flight r) then Racing r
      else case not_started r of
        next # rest \<Rightarrow>
          Racing \<lparr>not_started = rest, in_flight = remove1 a (in_flight r) @ [next], race_error = Some e\<rparr>
      | [] \<Rightarrow>
          if remove1 a (in_flight r) = [] then Lost (no_connected_address (Some e))
          else Racing (r\<lparr>in_flight := remove1 a (in_flight r), race_error := Some e\<rparr>))"
| "race_step DelayElapsed r =
     (case not_started r of
        next # rest \<Rightarrow> Racing (r\<lparr>not_started := rest, in_flight := in_flight r @ [next]\<rparr>)
      | [] \<Rightarrow> Racing r)"

fun run_race :: "'s race_event list \<Rightarrow> 's race_state \<Rightarrow> 's race_state" where
  "run_race [] st = st"
| "run_race (ev # evs) (Racing r) = run_race evs (race_step ev r)"
| "run_race (ev # evs) st = st"

fun serial_connect ::
  "(socket_addr \<Rightarrow> (io_error, 's) result) \<Rightarrow> io_error option \<Rightarrow> socket_addr list \<Rightarrow> (io_error, 's) result" where
  "serial_connect attempt last_error [] = Inl (no_connected_address last_error)"
| "serial_connect attempt last_error (a # as) =
     (case attempt a of Inr s \<Rightarrow> Inr s | Inl e \<Rightarrow> serial_connect attempt (Some e) as)"

text \<open>
  \<open>evs d\<close> is the sequence of completions observed with delay timers of length \<open>d\<close>; None means the sequence ends before
  the race is decided.
\<close>

definition connect_resolved_addresses ::
  "(socket_addr \<Rightarrow> (io_error, 's) result) \<Rightarrow> (duration \<Rightarrow> 's race_event list) \<Rightarrow> duration option \<Rightarrow> socket_addr list
     \<Rightarrow> (io_error, 's) result option" where
  "connect_resolved_addresses attempt evs delay addresses0 =
     (let addresses = interleave_address_families addresses0 in
      case delay of
        None \<Rightarrow> Some (serial_connect attempt None addresses)
      | Some d \<Rightarrow>
      if \<not> has_both_address_families addresses then Some (serial_connect attempt None addresses)
      else case addresses of
        [] \<Rightarrow> Some (Inl (no_connected_address None))
      | first # rest \<Rightarrow>
          (case run_race (evs d) (Racing \<lparr>not_started = rest, in_flight = [first], race_error = None\<rparr>) of
             Won s \<Rightarrow> Some (Inr s)
           | Lost e \<Rightarrow> Some (Inl e)
           | Racing _ \<Rightarrow> None))"

section \<open>Errors\<close>

datatype client_error_kind =
    Canceled | UnsupportedScheme | Connect | Tls | Alpn | Handshake | SendRequest
  | UnsupportedMethod | UnsupportedVersion | AbsoluteUriRequired | ProtocolUnavailable

datatype connect_error =
    MissingHost
  | CUnsupportedScheme string
  | TlsDisabled
  | CInvalidServerName string
  | UnexpectedAlpn bytes
  | RequiredHttp2NotNegotiated
  | ConnectIo io_error
  | ResolveError string
  | CustomError string
  | ConnectTimeout
  | TlsIo io_error

fun connect_error_kind :: "connect_error \<Rightarrow> client_error_kind" where
  "connect_error_kind (CUnsupportedScheme s) = UnsupportedScheme"
| "connect_error_kind (UnexpectedAlpn p) = Alpn"
| "connect_error_kind RequiredHttp2NotNegotiated = Alpn"
| "connect_error_kind (CInvalidServerName h) = Tls"
| "connect_error_kind (TlsIo e) = Tls"
| "connect_error_kind TlsDisabled = Tls"
| "connect_error_kind MissingHost = Connect"
| "connect_error_kind (ConnectIo e) = Connect"
| "connect_error_kind (ResolveError e) = Connect"
| "connect_error_kind (CustomError e) = Connect"
| "connect_error_kind ConnectTimeout = Connect"

section \<open>Establishment\<close>

text \<open>A stream as the connector returns it: plain, through TLS, or of a custom dialer.\<close>

datatype ('s, 'tls) established_io = PlainIo 's | TlsStream 'tls | CustomIo 's

record ('s, 'tls) connected =
  cd_io :: "('s, 'tls) established_io"
  cd_protocol :: connection_protocol
  cd_info :: "socket_addr connection_info"

definition connected_new :: "('s, 'tls) established_io \<Rightarrow> connection_protocol \<Rightarrow> ('s, 'tls) connected" where
  "connected_new io p = \<lparr>cd_io = io, cd_protocol = p, cd_info = connection_info_new p\<rparr>"

definition with_addresses ::
  "('s, 'tls) connected \<Rightarrow> socket_addr option \<Rightarrow> socket_addr option \<Rightarrow> ('s, 'tls) connected" where
  "with_addresses c l p = c\<lparr>cd_info := (cd_info c)\<lparr>ci_local_addr := l, ci_peer_addr := p\<rparr>\<rparr>"

record 's tcp_connected =
  tc_io :: 's
  tc_local_addr :: "socket_addr option"
  tc_peer_addr :: "socket_addr option"

definition tcp_connected_new :: "'s \<Rightarrow> 's tcp_connected" where
  "tcp_connected_new io = \<lparr>tc_io = io, tc_local_addr = None, tc_peer_addr = None\<rparr>"

definition tcp_with_addresses ::
  "'s tcp_connected \<Rightarrow> socket_addr option \<Rightarrow> socket_addr option \<Rightarrow> 's tcp_connected" where
  "tcp_with_addresses c l p = c\<lparr>tc_local_addr := l, tc_peer_addr := p\<rparr>"

text \<open>
  The connector.  The dialers and the resolver are parameters, as are the crypto configuration
  \<open>'core\<close> and the timer \<open>'tm\<close>.  \<open>kn_tls\<close> is None in a build without the \<^verbatim>\<open>tls\<close> feature.
\<close>

datatype ('u, 's, 'tls) connector_kind =
    DefaultDialer
  | CustomDialer "'u \<Rightarrow> bool \<Rightarrow> (string, ('s, 'tls) connected) result"
  | TcpDialer "'u \<Rightarrow> (string, 's tcp_connected) result"

type_synonym resolver = "string \<Rightarrow> u16 \<Rightarrow> (string, socket_addr list) result"

record ('u, 's, 'tls, 'core, 'tm) connector =
  kn_kind :: "('u, 's, 'tls) connector_kind"
  kn_resolver :: resolver
  happy_eyeballs_timeout :: "duration option"
  kn_connect_timeout :: "duration option"
  kn_timer :: 'tm
  kn_tls :: "'core tls_config option"

text \<open>
  The network under the connector: the result of each TCP attempt, the order in which attempts
  and a timer's delays complete, whether a timer fires before the establishment is done, the
  socket's addresses, and the TLS library.
\<close>

record ('s, 'tls, 'core, 'tm) net_ops =
  attempt :: "socket_addr \<Rightarrow> (io_error, 's) result"
  race_events :: "'tm \<Rightarrow> duration \<Rightarrow> 's race_event list"
  timer_first :: "'tm \<Rightarrow> duration \<Rightarrow> bool"
  socket_addresses :: "'s \<Rightarrow> socket_addr option \<times> socket_addr option"
  valid_server_name :: "string \<Rightarrow> bool"
  tls_connect :: "'core tls_config \<Rightarrow> string \<Rightarrow> 's \<Rightarrow> (io_error, 'tls \<times> bytes option) result"

subsection \<open>Configuration\<close>

definition with_tls_config :: "resolver \<Rightarrow> 'tm \<Rightarrow> 'core tls_config \<Rightarrow> ('u, 's, 'tls, 'core, 'tm) connector" where
  "with_tls_config system_resolver async_io_timer config =
     \<lparr>kn_kind = DefaultDialer, kn_resolver = system_resolver, happy_eyeballs_timeout = Some 250,
      kn_connect_timeout = None, kn_timer = async_io_timer, kn_tls = Some config\<rparr>"

definition connector_without_tls :: "resolver \<Rightarrow> 'tm \<Rightarrow> ('u, 's, 'tls, 'core, 'tm) connector" where
  "connector_without_tls system_resolver async_io_timer =
     \<lparr>kn_kind = DefaultDialer, kn_resolver = system_resolver, happy_eyeballs_timeout = Some 250,
      kn_connect_timeout = None, kn_timer = async_io_timer, kn_tls = None\<rparr>"

definition with_tls_provider ::
  "('p, 'r, 'v, 'cert, 'key, 'b, 'core) rustls_ops \<Rightarrow> resolver \<Rightarrow> 'tm \<Rightarrow> 'p
     \<Rightarrow> (string, ('u, 's, 'tls, 'core, 'tm) connector) result" where
  "with_tls_provider R system_resolver async_io_timer p =
     map_sum id (with_tls_config system_resolver async_io_timer) (tls_build R (tls_with_provider R p))"

definition cb_resolver :: "resolver \<Rightarrow> ('u, 's, 'tls, 'core, 'tm) connector \<Rightarrow> ('u, 's, 'tls, 'core, 'tm) connector" where
  "cb_resolver r k = k\<lparr>kn_resolver := r\<rparr>"

definition cb_happy_eyeballs_timeout ::
  "duration option \<Rightarrow> ('u, 's, 'tls, 'core, 'tm) connector \<Rightarrow> ('u, 's, 'tls, 'core, 'tm) connector" where
  "cb_happy_eyeballs_timeout t k = k\<lparr>happy_eyeballs_timeout := t\<rparr>"

definition cb_dialer ::
  "('u \<Rightarrow> bool \<Rightarrow> (string, ('s, 'tls) connected) result)
     \<Rightarrow> ('u, 's, 'tls, 'core, 'tm) connector \<Rightarrow> ('u, 's, 'tls, 'core, 'tm) connector" where
  "cb_dialer d k = k\<lparr>kn_kind := CustomDialer d\<rparr>"

definition cb_tcp_dialer ::
  "('u \<Rightarrow> (string, 's tcp_connected) result)
     \<Rightarrow> ('u, 's, 'tls, 'core, 'tm) connector \<Rightarrow> ('u, 's, 'tls, 'core, 'tm) connector" where
  "cb_tcp_dialer d k = k\<lparr>kn_kind := TcpDialer d\<rparr>"

definition cb_connect_timeout ::
  "duration \<Rightarrow> ('u, 's, 'tls, 'core, 'tm) connector \<Rightarrow> ('u, 's, 'tls, 'core, 'tm) connector" where
  "cb_connect_timeout t k = k\<lparr>kn_connect_timeout := Some t\<rparr>"

definition cb_timer :: "'tm \<Rightarrow> ('u, 's, 'tls, 'core, 'tm) connector \<Rightarrow> ('u, 's, 'tls, 'core, 'tm) connector" where
  "cb_timer t k = k\<lparr>kn_timer := t\<rparr>"

definition cb_tls_config ::
  "'core tls_config \<Rightarrow> ('u, 's, 'tls, 'core, 'tm) connector \<Rightarrow> ('u, 's, 'tls, 'core, 'tm) connector" where
  "cb_tls_config c k = k\<lparr>kn_tls := Some c\<rparr>"

definition cb_tls_provider ::
  "('p, 'r, 'v, 'cert, 'key, 'b, 'core) rustls_ops \<Rightarrow> 'p \<Rightarrow> ('u, 's, 'tls, 'core, 'tm) connector
     \<Rightarrow> (string, ('u, 's, 'tls, 'core, 'tm) connector) result" where
  "cb_tls_provider R p k = map_sum id (\<lambda>c. cb_tls_config c k) (tls_build R (tls_with_provider R p))"

text \<open>
  The default connector of a build with or without the \<^verbatim>\<open>tls\<close> feature; \<open>config\<close> is the default TLS
  configuration, when the feature is there.
\<close>

definition connector_new :: "resolver \<Rightarrow> 'tm \<Rightarrow> 'core tls_config option \<Rightarrow> ('u, 's, 'tls, 'core, 'tm) connector" where
  "connector_new system_resolver async_io_timer config =
     (case config of
        Some c \<Rightarrow> with_tls_config system_resolver async_io_timer c
      | None \<Rightarrow> connector_without_tls system_resolver async_io_timer)"

definition with_dialer ::
  "resolver \<Rightarrow> 'tm \<Rightarrow> 'core tls_config option \<Rightarrow> ('u \<Rightarrow> bool \<Rightarrow> (string, ('s, 'tls) connected) result)
     \<Rightarrow> ('u, 's, 'tls, 'core, 'tm) connector" where
  "with_dialer system_resolver async_io_timer config d = cb_dialer d (connector_new system_resolver async_io_timer config)"

definition with_tcp_dialer ::
  "resolver \<Rightarrow> 'tm \<Rightarrow> 'core tls_config option \<Rightarrow> ('u \<Rightarrow> (string, 's tcp_connected) result)
     \<Rightarrow> ('u, 's, 'tls, 'core, 'tm) connector" where
  "with_tcp_dialer system_resolver async_io_timer config d =
     cb_tcp_dialer d (connector_new system_resolver async_io_timer config)"

definition with_resolver ::
  "resolver \<Rightarrow> 'tm \<Rightarrow> 'core tls_config option \<Rightarrow> resolver \<Rightarrow> ('u, 's, 'tls, 'core, 'tm) connector" where
  "with_resolver system_resolver async_io_timer config r =
     cb_resolver r (connector_new system_resolver async_io_timer config)"

definition connector_force_http1 :: "('u, 's, 'tls, 'core, 'tm) connector \<Rightarrow> ('u, 's, 'tls, 'core, 'tm) connector" where
  "connector_force_http1 k = k\<lparr>kn_tls := map_option force_http1 (kn_tls k)\<rparr>"

subsection \<open>Connecting\<close>

definition client_connect_tcp ::
  "('u, 's, 'tls, 'core, 'tm) connector \<Rightarrow> ('s, 'tls, 'core, 'tm) net_ops \<Rightarrow> string \<Rightarrow> u16 \<Rightarrow> (connect_error, 's) result option" where
  "client_connect_tcp k E host port =
     (case kn_resolver k host port of
        Inl e \<Rightarrow> Some (Inl (ResolveError e))
      | Inr addresses \<Rightarrow>
          map_option (map_sum ConnectIo id)
            (connect_resolved_addresses (attempt E) (race_events E (kn_timer k)) (happy_eyeballs_timeout k)
               addresses))"

definition dial_default ::
  "('u, 's, 'tls, 'core, 'tm) connector \<Rightarrow> ('s, 'tls, 'core, 'tm) net_ops \<Rightarrow> string \<Rightarrow> u16
     \<Rightarrow> (connect_error, 's tcp_connected) result option" where
  "dial_default k E host port =
     map_option (map_sum id (\<lambda>s. case socket_addresses E s of (l, p) \<Rightarrow>
        \<lparr>tc_io = s, tc_local_addr = l, tc_peer_addr = p\<rparr>))
       (client_connect_tcp k E host port)"

definition select_alpn :: "bool \<Rightarrow> bytes option \<Rightarrow> (connect_error, connection_protocol) result" where
  "select_alpn require_h2 alpn =
     (case alpn of
        Some p \<Rightarrow>
          if p = h2_alpn then Inr ConnHttp2
          else if p = http1_alpn \<and> \<not> require_h2 then Inr ConnHttp1
          else Inl (UnexpectedAlpn p)
      | None \<Rightarrow> if \<not> require_h2 then Inr ConnHttp1 else Inl RequiredHttp2NotNegotiated)"

definition client_connect_tls ::
  "('u, 's, 'tls, 'core, 'tm) connector \<Rightarrow> ('s, 'tls, 'core, 'tm) net_ops \<Rightarrow> string \<Rightarrow> u16 \<Rightarrow> bool \<Rightarrow> 's tcp_connected option
     \<Rightarrow> (connect_error, ('s, 'tls) connected) result option" where
  "client_connect_tls k E host port require_h2 custom_tcp =
     (case kn_tls k of
        None \<Rightarrow> Some (Inl TlsDisabled)
      | Some config \<Rightarrow>
      case (case custom_tcp of Some tcp \<Rightarrow> Some (Inr tcp) | None \<Rightarrow> dial_default k E host port) of
        None \<Rightarrow> None
      | Some (Inl e) \<Rightarrow> Some (Inl e)
      | Some (Inr tcp) \<Rightarrow>
          Some
            (if \<not> valid_server_name E host then Inl (CInvalidServerName host)
             else case tls_connect E config host (tc_io tcp) of
               Inl e \<Rightarrow> Inl (TlsIo e)
             | Inr (tls, alpn) \<Rightarrow>
                 map_sum id
                   (\<lambda>protocol. with_addresses (connected_new (TlsStream tls) protocol)
                      (tc_local_addr tcp) (tc_peer_addr tcp))
                   (select_alpn require_h2 alpn)))"

definition strip_host_brackets :: "string \<Rightarrow> string" where
  "strip_host_brackets host =
     (case Option.bind (strip_prefix ''['' host) (strip_suffix '']'') of
        Some inner \<Rightarrow> inner
      | None \<Rightarrow> host)"

definition connect_without_timeout ::
  "'u uri_ops \<Rightarrow> ('u, 's, 'tls, 'core, 'tm) connector \<Rightarrow> ('s, 'tls, 'core, 'tm) net_ops \<Rightarrow> 'u \<Rightarrow> bool
     \<Rightarrow> (connect_error, ('s, 'tls) connected) result option" where
  "connect_without_timeout U k E uri require_h2 =
     (case kn_kind k of
        CustomDialer dialer \<Rightarrow> Some (map_sum CustomError id (dialer uri require_h2))
      | kind \<Rightarrow>
          (case uri_host U uri of
             None \<Rightarrow> Some (Inl MissingHost)
           | Some host0 \<Rightarrow>
          (let host = strip_host_brackets host0;
               port = (\<lambda>d. case uri_port U uri of Some p \<Rightarrow> snd p | None \<Rightarrow> d) in
           case uri_scheme U uri of
             None \<Rightarrow> Some (Inl (CUnsupportedScheme []))
           | Some scheme \<Rightarrow>
               if scheme \<noteq> ''http'' \<and> scheme \<noteq> ''https'' then Some (Inl (CUnsupportedScheme scheme))
               else if scheme = ''https'' \<and> kn_tls k = None then Some (Inl TlsDisabled)
               else
                 (case (case kind of
                          TcpDialer dialer \<Rightarrow> map_sum CustomError Some (dialer uri)
                        | _ \<Rightarrow> Inr None) of
                    Inl e \<Rightarrow> Some (Inl e)
                  | Inr tcp \<Rightarrow>
                      if scheme = ''https'' then client_connect_tls k E host (port 443) require_h2 tcp
                      else
                        map_option (map_sum id (\<lambda>t.
                            with_addresses
                              (connected_new (PlainIo (tc_io t)) (if require_h2 then ConnHttp2 else ConnHttp1))
                              (tc_local_addr t) (tc_peer_addr t)))
                          (case tcp of Some t \<Rightarrow> Some (Inr t) | None \<Rightarrow> dial_default k E host (port 80))))))"

definition client_connect ::
  "'u uri_ops \<Rightarrow> ('u, 's, 'tls, 'core, 'tm) connector \<Rightarrow> ('s, 'tls, 'core, 'tm) net_ops \<Rightarrow> 'u \<Rightarrow> bool
     \<Rightarrow> (connect_error, ('s, 'tls) connected) result option" where
  "client_connect U k E uri require_h2 =
     (case kn_connect_timeout k of
        None \<Rightarrow> connect_without_timeout U k E uri require_h2
      | Some timeout \<Rightarrow>
          if timer_first E (kn_timer k) timeout then Some (Inl ConnectTimeout)
          else connect_without_timeout U k E uri require_h2)"

section \<open>The order of attempts\<close>

lemma interleave_loop_mset [simp]: "mset (interleave_loop xs ys) = mset xs + mset ys"
  by (induction xs ys rule: interleave_loop.induct) auto

lemma interleave_loop_set [simp]: "set (interleave_loop xs ys) = set xs \<union> set ys"
  by (induction xs ys rule: interleave_loop.induct) auto

lemma interleave_loop_filter:
  assumes "list_all P xs" and "list_all (\<lambda>a. \<not> P a) ys"
  shows "filter P (interleave_loop xs ys) = xs \<and> filter (\<lambda>a. \<not> P a) (interleave_loop xs ys) = ys"
  using assms by (induction xs ys rule: interleave_loop.induct) (auto simp: list_all_iff filter_empty_conv)

lemma interleave_loop_alternates:
  "take (2 * min (length xs) (length ys)) (interleave_loop xs ys) = concat (map2 (\<lambda>a b. [a, b]) xs ys)"
  by (induction xs ys rule: interleave_loop.induct) auto

lemma interleave_set [simp]: "set (interleave_address_families as) = set as"
  by (auto simp: interleave_address_families_def)

text \<open>
  The order in which resolved addresses are tried is a permutation of them, keeps the
  resolver's order within each family, and alternates IPv6 and IPv4 as long as both last.
\<close>

theorem interleave_order:
  "mset (interleave_address_families as) = mset as
   \<and> filter is_ipv6 (interleave_address_families as) = filter is_ipv6 as
   \<and> filter is_ipv4 (interleave_address_families as) = filter is_ipv4 as
   \<and> take (2 * min (length (filter is_ipv6 as)) (length (filter is_ipv4 as))) (interleave_address_families as)
       = concat (map2 (\<lambda>a b. [a, b]) (filter is_ipv6 as) (filter is_ipv4 as))"
proof -
  have v4: "is_ipv4 = (\<lambda>a. \<not> is_ipv6 a)"
    by (auto simp: is_ipv4_def)
  have "filter is_ipv6 (interleave_address_families as) = filter is_ipv6 as
      \<and> filter (\<lambda>a. \<not> is_ipv6 a) (interleave_address_families as) = filter (\<lambda>a. \<not> is_ipv6 a) as"
    unfolding interleave_address_families_def by (rule interleave_loop_filter) (auto simp: list_all_iff)
  then show ?thesis
    by (simp add: v4 interleave_address_families_def interleave_loop_alternates mset_filter)
qed

section \<open>The race\<close>

lemma remove1_Nil_set: "remove1 a xs = [] \<Longrightarrow> set xs \<subseteq> {a}"
  by (cases xs) (auto split: if_splits)

lemma serial_connect_ok:
  "serial_connect att err as = Inr s \<Longrightarrow> \<exists>a \<in> set as. att a = Inr s"
  by (induction as arbitrary: err) (auto split: sum.splits)

lemma serial_connect_fail:
  "serial_connect att err as = Inl e \<Longrightarrow> a \<in> set as \<Longrightarrow> \<exists>e. att a = Inl e"
  by (induction as arbitrary: err) (auto split: sum.splits)

text \<open>An address is settled when an event reports its failure, and open when it is queued or in flight.\<close>

definition failed_in :: "'s race_event list \<Rightarrow> socket_addr set" where
  "failed_in evs = {a. \<exists>e. Finished a (Inl e) \<in> set evs}"

lemma run_race_decided [simp]:
  "run_race evs (Won s) = Won s" "run_race evs (Lost e) = Lost e"
  by (cases evs; simp)+

lemma race_step_open:
  "race_step ev r = Racing r'
   \<Longrightarrow> set (in_flight r') \<union> set (not_started r') \<subseteq> set (in_flight r) \<union> set (not_started r)"
  by (cases "(ev, r)" rule: race_step.cases)
     (auto split: if_splits list.splits dest: set_remove1_subset[THEN subsetD])

lemma race_step_settles:
  "race_step ev r = Racing r'
   \<Longrightarrow> set (in_flight r) \<union> set (not_started r)
       \<subseteq> set (in_flight r') \<union> set (not_started r') \<union> failed_in [ev]"
  by (cases "(ev, r)" rule: race_step.cases)
     (auto simp: failed_in_def in_set_remove1 split: if_splits list.splits dest: remove1_Nil_set)

lemma run_race_won:
  "run_race evs (Racing r) = Won s
   \<Longrightarrow> \<exists>a \<in> set (in_flight r) \<union> set (not_started r). Finished a (Inr s) \<in> set evs"
proof (induction evs arbitrary: r)
  case (Cons ev evs)
  show ?case
  proof (cases "race_step ev r")
    case (Racing r')
    with Cons obtain a where "a \<in> set (in_flight r') \<union> set (not_started r')" "Finished a (Inr s) \<in> set evs"
      by auto
    then show ?thesis
      using race_step_open[OF Racing] by auto
  next
    case (Won s')
    then show ?thesis
      using Cons.prems by (cases "(ev, r)" rule: race_step.cases) (auto split: if_splits list.splits)
  qed (use Cons in simp)
qed simp

lemma run_race_lost:
  "run_race evs (Racing r) = Lost e \<Longrightarrow> set (in_flight r) \<union> set (not_started r) \<subseteq> failed_in evs"
proof (induction evs arbitrary: r)
  case (Cons ev evs)
  have sub: "failed_in (ev # evs) = failed_in [ev] \<union> failed_in evs"
    by (auto simp: failed_in_def)
  show ?case
  proof (cases "race_step ev r")
    case (Racing r')
    with Cons have "set (in_flight r') \<union> set (not_started r') \<subseteq> failed_in evs"
      by simp
    then show ?thesis
      using race_step_settles[OF Racing] unfolding sub by blast
  next
    case (Lost e')
    then show ?thesis
      by (cases "(ev, r)" rule: race_step.cases)
         (auto simp: sub failed_in_def in_set_remove1 split: if_splits list.splits
           dest: remove1_Nil_set)
  qed (use Cons in simp)
qed simp

abbreviation race_result :: "(io_error, 's) result \<Rightarrow> 's race_state" where
  "race_result res \<equiv> (case res of Inr s \<Rightarrow> Won s | Inl e \<Rightarrow> Lost e)"

lemma serial_outcome:
  assumes "res = serial_connect att None (interleave_address_families as)"
  shows "case res of
           Inr s \<Rightarrow> \<exists>a \<in> set as. att a = Inr s
         | Inl e \<Rightarrow> \<forall>a \<in> set as. \<exists>e. att a = Inl e"
proof (cases res)
  case (Inl e)
  then show ?thesis using serial_connect_fail[of att None "interleave_address_families as" e] assms by simp
next
  case (Inr s)
  then show ?thesis using serial_connect_ok[of att None "interleave_address_families as" s] assms by simp
qed

lemma raced_outcome:
  assumes run: "run_race evs (Racing \<lparr>not_started = rest, in_flight = [first], race_error = None\<rparr>) = race_result res"
    and as: "set as = insert first (set rest)"
    and evs: "\<forall>a r. Finished a r \<in> set evs \<longrightarrow> r = att a"
  shows "case res of
           Inr s \<Rightarrow> \<exists>a \<in> set as. att a = Inr s
         | Inl e \<Rightarrow> \<forall>a \<in> set as. \<exists>e. att a = Inl e"
proof (cases res)
  case (Inl e)
  with run have "set as \<subseteq> failed_in evs"
    using run_race_lost[of evs "\<lparr>not_started = rest, in_flight = [first], race_error = None\<rparr>" e] as by simp
  then have "\<forall>a \<in> set as. \<exists>e. att a = Inl e"
    using evs by (intro ballI) (drule (1) subsetD, auto simp: failed_in_def)
  then show ?thesis using Inl by simp
next
  case (Inr s)
  with run obtain a where "a \<in> set as" "Finished a (Inr s) \<in> set evs"
    using run_race_won[of evs "\<lparr>not_started = rest, in_flight = [first], race_error = None\<rparr>" s] as by auto
  then show ?thesis using Inr evs by (auto intro!: bexI[of _ a] dest: sym)
qed

text \<open>
  C20. The outcome of connecting to resolved addresses, serial or raced, is justified by the
  attempts: a stream comes from one of the addresses, and an error is returned only when every
  address was attempted and failed.
\<close>

theorem connect_outcome_justified:
  assumes "connect_resolved_addresses att evs delay as = Some res"
    and "\<forall>d a r. Finished a r \<in> set (evs d) \<longrightarrow> r = att a"
  shows "case res of
           Inr s \<Rightarrow> \<exists>a \<in> set as. att a = Inr s
         | Inl e \<Rightarrow> \<forall>a \<in> set as. \<exists>e. att a = Inl e"
proof (cases "\<exists>d. delay = Some d \<and> has_both_address_families (interleave_address_families as)")
  case False
  then have "res = serial_connect att None (interleave_address_families as)"
    using assms(1) by (auto simp: connect_resolved_addresses_def Let_def split: option.splits)
  then show ?thesis
    by (rule serial_outcome)
next
  case True
  then obtain d where d: "delay = Some d" "has_both_address_families (interleave_address_families as)"
    by blast
  then obtain first rest where as: "interleave_address_families as = first # rest"
    by (cases "interleave_address_families as") (auto simp: has_both_address_families_def)
  have "run_race (evs d) (Racing \<lparr>not_started = rest, in_flight = [first], race_error = None\<rparr>) = race_result res"
    using assms(1) d as
    by (simp add: connect_resolved_addresses_def split: race_state.splits) (auto split: sum.split)
  moreover have "set as = insert first (set rest)"
    using arg_cong[OF as, of set] by simp
  ultimately show ?thesis
    using raced_outcome assms(2) by blast
qed

theorem connect_outcome_justified_witness:
  "connect_resolved_addresses
       (\<lambda>a. if is_ipv6 a then Inl (IoError ConnectionRefused ''refused'') else Inr (7 :: nat))
       (\<lambda>d. [DelayElapsed, Finished (V4 1 80) (Inr 7)]) (Some 250) [V4 1 80, V6 2 80] = Some (Inr 7)
   \<and> (\<exists>a \<in> set [V4 1 80, V6 2 80].
        (if is_ipv6 a then Inl (IoError ConnectionRefused ''refused'') else Inr (7 :: nat)) = Inr 7)"
proof -
  have run: "connect_resolved_addresses
       (\<lambda>a. if is_ipv6 a then Inl (IoError ConnectionRefused ''refused'') else Inr (7 :: nat))
       (\<lambda>d. [DelayElapsed, Finished (V4 1 80) (Inr 7)]) (Some 250) [V4 1 80, V6 2 80] = Some (Inr 7)"
    by code_simp
  show ?thesis
    using run connect_outcome_justified[OF run] by simp
qed

text \<open>Raced without the delay ever elapsing, the attempts run in the order of the serial loop.\<close>

lemma run_race_serial:
  "run_race (map (\<lambda>a. Finished a (att a)) (a # rest))
     (Racing \<lparr>not_started = rest, in_flight = [a], race_error = err\<rparr>)
   = race_result (serial_connect att err (a # rest))"
proof (induction rest arbitrary: a err)
  case (Cons b rest)
  then show ?case by (cases "att a") simp_all
qed (simp split: sum.split)

text \<open>
  Racing refines the serial loop: when every attempt completes before the delay elapses, a
  dual-stack race returns exactly what trying the addresses one after the other returns.
\<close>

theorem race_without_delay_is_serial:
  "connect_resolved_addresses att
     (\<lambda>_. map (\<lambda>a. Finished a (att a)) (interleave_address_families as)) delay as
   = Some (serial_connect att None (interleave_address_families as))"
proof (cases "interleave_address_families as")
  case Nil
  then show ?thesis
    by (simp add: connect_resolved_addresses_def split: option.split)
next
  case (Cons a rest)
  then show ?thesis
    using run_race_serial[of att a rest None]
    by (cases "serial_connect att None (a # rest)")
       (simp_all add: connect_resolved_addresses_def Let_def split: option.split)
qed

text \<open>
  An event is enabled when the code waits for it: an attempt in flight, or the delay timer while
  addresses are queued.
\<close>

fun race_enabled :: "'s race_event \<Rightarrow> race \<Rightarrow> bool" where
  "race_enabled (Finished a res) r \<longleftrightarrow> a \<in> set (in_flight r)"
| "race_enabled DelayElapsed r \<longleftrightarrow> not_started r \<noteq> []"

fun enabled_run :: "'s race_event list \<Rightarrow> 's race_state \<Rightarrow> bool" where
  "enabled_run [] st = True"
| "enabled_run (ev # evs) (Racing r) \<longleftrightarrow> race_enabled ev r \<and> enabled_run evs (race_step ev r)"
| "enabled_run (ev # evs) st = False"

definition race_work :: "race \<Rightarrow> nat" where
  "race_work r = 2 * length (not_started r) + length (in_flight r)"

lemma race_step_decreases:
  "race_enabled ev r \<Longrightarrow> race_step ev r = Racing r' \<Longrightarrow> race_work r' < race_work r \<and> in_flight r' \<noteq> []"
  by (cases "(ev, r)" rule: race_step.cases)
     (auto simp: race_work_def length_remove1 intro!: diff_less split: if_splits list.splits)

lemma enabled_run_bound:
  "enabled_run evs (Racing r) \<Longrightarrow> run_race evs (Racing r) = Racing r' \<Longrightarrow> in_flight r \<noteq> []
   \<Longrightarrow> length evs + 1 \<le> race_work r"
proof (induction evs arbitrary: r)
  case Nil
  then show ?case by (cases "in_flight r") (auto simp: race_work_def)
next
  case (Cons ev evs)
  show ?case
  proof (cases "race_step ev r")
    case (Racing r1)
    with Cons.prems have dec: "race_work r1 < race_work r" "in_flight r1 \<noteq> []"
      using race_step_decreases[of ev r r1] by auto
    with Cons.prems Racing have "length evs + 1 \<le> race_work r1"
      by (intro Cons.IH) simp_all
    with dec show ?thesis by simp
  qed (use Cons.prems in simp_all)
qed

text \<open>
  C21. The race always ends: over \<open>n\<close> addresses it is decided after at most \<open>2 n - 1\<close> of the events
  it waits for, whatever their order.
\<close>

theorem race_is_decided:
  assumes "enabled_run evs (Racing \<lparr>not_started = rest, in_flight = [first], race_error = None\<rparr>)"
    and "2 * length (first # rest) - 1 \<le> length evs"
  shows "\<exists>res. run_race evs (Racing \<lparr>not_started = rest, in_flight = [first], race_error = None\<rparr>) = race_result res"
proof (cases "run_race evs (Racing \<lparr>not_started = rest, in_flight = [first], race_error = None\<rparr>)")
  case (Racing r')
  then show ?thesis
    using enabled_run_bound[OF assms(1) Racing] assms(2) by (simp add: race_work_def)
next
  case (Won s)
  then show ?thesis by (intro exI[of _ "Inr s"]) simp
next
  case (Lost e)
  then show ?thesis by (intro exI[of _ "Inl e"]) simp
qed

theorem race_is_decided_witness:
  "enabled_run [DelayElapsed, Finished (V6 2 80) (Inl (IoError ConnectionRefused [])),
                Finished (V4 1 80) (Inl (IoError ConnectionRefused []))]
     (Racing \<lparr>not_started = [V4 1 80], in_flight = [V6 2 80], race_error = None\<rparr> :: nat race_state)
   \<and> (\<exists>res. run_race [DelayElapsed, Finished (V6 2 80) (Inl (IoError ConnectionRefused [])),
                Finished (V4 1 80) (Inl (IoError ConnectionRefused []))]
     (Racing \<lparr>not_started = [V4 1 80], in_flight = [V6 2 80], race_error = None\<rparr> :: nat race_state) = race_result res)"
proof -
  let ?evs = "[DelayElapsed, Finished (V6 2 80) (Inl (IoError ConnectionRefused [])),
                Finished (V4 1 80) (Inl (IoError ConnectionRefused []))] :: nat race_event list"
  have run: "enabled_run ?evs
     (Racing \<lparr>not_started = [V4 1 80], in_flight = [V6 2 80], race_error = None\<rparr>)"
    by simp
  show ?thesis
    using run race_is_decided[OF run] by simp
qed

section \<open>Protocol selection\<close>

lemma map_sum_eq_Inr: "map_sum f g x = Inr y \<longleftrightarrow> (\<exists>z. x = Inr z \<and> y = g z)"
  by (cases x) auto

text \<open>Rustls reports as the negotiated ALPN protocol only one that the configuration offered.\<close>

definition alpn_laws :: "('s, 'tls, 'core, 'tm) net_ops \<Rightarrow> bool" where
  "alpn_laws E \<longleftrightarrow>
     (\<forall>config host s tls p. tls_connect E config host s = Inr (tls, Some p) \<longrightarrow> p \<in> set (alpn_protocols config))"

lemma select_alpn_h2:
  "select_alpn require_h2 alpn = Inr p \<Longrightarrow> require_h2 \<Longrightarrow> p = ConnHttp2"
  by (auto simp: select_alpn_def split: option.splits if_splits)

lemma select_alpn_http1_only:
  "select_alpn require_h2 alpn = Inr p \<Longrightarrow> alpn \<noteq> Some h2_alpn \<Longrightarrow> p = ConnHttp1 \<and> \<not> require_h2"
  by (auto simp: select_alpn_def split: option.splits if_splits)

lemma connected_new_simps [simp]:
  "cd_io (with_addresses (connected_new io p) l q) = io"
  "cd_protocol (with_addresses (connected_new io p) l q) = p"
  "ci_local_addr (cd_info (with_addresses c l q)) = l"
  "ci_peer_addr (cd_info (with_addresses c l q)) = q"
  by (simp_all add: with_addresses_def connected_new_def)

lemma client_connect_tls_ok:
  assumes "client_connect_tls k E host port require_h2 tcp = Some (Inr c)"
  obtains config tls s alpn where "kn_tls k = Some config" "cd_io c = TlsStream tls"
    "valid_server_name E host" "tls_connect E config host s = Inr (tls, alpn)"
    "select_alpn require_h2 alpn = Inr (cd_protocol c)"
  using assms
  by (auto simp: client_connect_tls_def map_sum_eq_Inr split: option.splits sum.splits if_splits prod.splits)

lemma client_connect_ok:
  "client_connect U k E uri require_h2 = Some (Inr c)
   \<Longrightarrow> connect_without_timeout U k E uri require_h2 = Some (Inr c)"
  by (auto simp: client_connect_def split: option.splits if_splits)

lemma connect_https_ok:
  assumes "connect_without_timeout U k E uri require_h2 = Some (Inr c)"
    and "uri_scheme U uri = Some ''https''" and "\<nexists>d. kn_kind k = CustomDialer d"
  obtains host port tcp where "client_connect_tls k E (strip_host_brackets host) port require_h2 tcp = Some (Inr c)"
    "uri_host U uri = Some host"
  using assms
  by (auto simp: connect_without_timeout_def Let_def split: connector_kind.splits option.splits sum.splits if_splits)

lemma connect_scheme_ok:
  assumes "connect_without_timeout U k E uri require_h2 = Some (Inr c)" and "\<nexists>d. kn_kind k = CustomDialer d"
  shows "uri_scheme U uri = Some ''https''
    \<or> uri_scheme U uri = Some ''http'' \<and> cd_protocol c = (if require_h2 then ConnHttp2 else ConnHttp1)
        \<and> (\<exists>s. cd_io c = PlainIo s)"
  using assms
  by (auto simp: connect_without_timeout_def Let_def map_sum_eq_Inr split: connector_kind.splits option.splits sum.splits if_splits)

text \<open>
  C18. Protocol policy of the built-in transports: an \<^verbatim>\<open>https\<close> URI is only ever connected through
  TLS, under a server name accepted for the URI's host and with the configuration of the
  connector, and with a protocol its ALPN result allows; a plain connection is only made for
  \<^verbatim>\<open>http\<close>; and a caller that requires HTTP/2 never gets an HTTP/1 connection.
\<close>

theorem connect_protocol_policy:
  assumes "client_connect U k E uri require_h2 = Some (Inr c)" and "\<nexists>d. kn_kind k = CustomDialer d"
  shows "(require_h2 \<longrightarrow> cd_protocol c = ConnHttp2)
    \<and> (case uri_scheme U uri of
         None \<Rightarrow> False
       | Some scheme \<Rightarrow>
           if scheme = ''https''
           then \<exists>config host tls s alpn. kn_tls k = Some config \<and> uri_host U uri = Some host
             \<and> valid_server_name E (strip_host_brackets host)
             \<and> tls_connect E config (strip_host_brackets host) s = Inr (tls, alpn)
             \<and> cd_io c = TlsStream tls \<and> select_alpn require_h2 alpn = Inr (cd_protocol c)
           else scheme = ''http'' \<and> (\<exists>s. cd_io c = PlainIo s)
             \<and> cd_protocol c = (if require_h2 then ConnHttp2 else ConnHttp1))"
proof -
  note conn = client_connect_ok[OF assms(1)]
  from connect_scheme_ok[OF conn assms(2)] show ?thesis
  proof
    assume https: "uri_scheme U uri = Some ''https''"
    from conn https assms(2) obtain host port tcp where
      "client_connect_tls k E (strip_host_brackets host) port require_h2 tcp = Some (Inr c)"
      "uri_host U uri = Some host"
      by (rule connect_https_ok)
    from client_connect_tls_ok[OF this(1)] this(2) https show ?thesis
      using select_alpn_h2 by (simp, metis)
  qed simp
qed

text \<open>A network with one reachable address, whose TLS server prefers HTTP/2.\<close>

definition demo_connector :: "(demo_uri, nat, nat, unit, unit) connector" where
  "demo_connector =
     with_tls_config (\<lambda>host port. Inr [V4 1 port]) () \<lparr>tls_core = (), alpn_protocols = [h2_alpn, http1_alpn]\<rparr>"

definition demo_transport :: "(nat, nat, unit, unit) net_ops" where
  "demo_transport =
     \<lparr>attempt = (\<lambda>a. Inr 5), race_events = (\<lambda>_ _. []), timer_first = (\<lambda>_ _. False),
      socket_addresses = (\<lambda>_. (None, Some (V4 1 443))), valid_server_name = (\<lambda>h. h \<noteq> []),
      tls_connect = (\<lambda>config host s. Inr (s + 1,
         if h2_alpn \<in> set (alpn_protocols config) then Some h2_alpn
         else if http1_alpn \<in> set (alpn_protocols config) then Some http1_alpn else None))\<rparr>"

theorem connect_protocol_policy_witness:
  "\<exists>c. client_connect demo_uris demo_connector demo_transport (Some ''https'', Some ''h'', Some ''/'') True = Some (Inr c)
       \<and> cd_protocol c = ConnHttp2"
proof -
  let ?u = "(Some ''https'', Some ''h'', Some ''/'') :: demo_uri"
  let ?c = "with_addresses (connected_new (TlsStream 6) ConnHttp2) None (Some (V4 1 443))"
  have run: "client_connect demo_uris demo_connector demo_transport ?u True = Some (Inr ?c)"
    by code_simp
  have "\<nexists>d. kn_kind demo_connector = CustomDialer d"
    by (simp add: demo_connector_def with_tls_config_def)
  from connect_protocol_policy[OF run this] run show ?thesis by blast
qed

text \<open>A connector restricted to HTTP/1 never yields HTTP/2 over TLS.\<close>

lemma forced_http1_never_h2:
  assumes "alpn_laws E" and "uri_scheme U uri = Some ''https''" and "\<nexists>d. kn_kind k = CustomDialer d"
    and "client_connect U (connector_force_http1 k) E uri require_h2 = Some (Inr c)"
  shows "cd_protocol c = ConnHttp1 \<and> \<not> require_h2"
proof -
  have "\<nexists>d. kn_kind (connector_force_http1 k) = CustomDialer d"
    using assms(3) by (simp add: connector_force_http1_def)
  from client_connect_ok[OF assms(4)] assms(2) this obtain host port tcp where
    "client_connect_tls (connector_force_http1 k) E (strip_host_brackets host) port require_h2 tcp = Some (Inr c)"
    by (rule connect_https_ok)
  then obtain config tls s alpn where sel: "kn_tls (connector_force_http1 k) = Some config"
    "tls_connect E config (strip_host_brackets host) s = Inr (tls, alpn)"
    "select_alpn require_h2 alpn = Inr (cd_protocol c)"
    by (rule client_connect_tls_ok)
  from sel(1) have "alpn_protocols config = [http1_alpn]"
    by (auto simp: connector_force_http1_def force_http1_def)
  with assms(1) sel(2) have "alpn \<noteq> Some h2_alpn"
    unfolding alpn_laws_def by fastforce
  with sel(3) show ?thesis
    by (rule select_alpn_http1_only)
qed

end
