(* ===== verification/Client_Request.thy ===== *)
theory Client_Request
  imports Client_Normalize Client_Connect
begin

text \<open>
  The request path of the futures-based client (\<^verbatim>\<open>src/crates/h12tiny-client/src/lib.rs\<close>): the
  builder, connection establishment and its race against the pool, dispatch and retry.

  An \<^verbatim>\<open>async\<close> function that touches the pool is a task: a datatype of the points where it waits,
  and a function that polls it.  What the awaited futures of the network and the HTTP library
  have delivered when the task is polled is an argument.
\<close>

section \<open>Errors\<close>

datatype client_error_source =
    ConnectSource connect_error
  | NormalizeSource normalize_error
  | CheckoutSource checkout_error
  | HyperSource string

record client_error =
  ce_kind :: client_error_kind
  ce_source :: "client_error_source option"

definition client_error_new :: "client_error_kind \<Rightarrow> client_error" where
  "client_error_new k = \<lparr>ce_kind = k, ce_source = None\<rparr>"

definition client_error_with_source :: "client_error_kind \<Rightarrow> client_error_source \<Rightarrow> client_error" where
  "client_error_with_source k s = \<lparr>ce_kind = k, ce_source = Some s\<rparr>"

datatype connection_error = ConnectionFinal client_error | ConnectionRetry

datatype 'r try_send_error = Retryable 'r client_error bool | FinalError client_error

section \<open>HTTP/2 settings\<close>

record http2_settings =
  hs_initial_stream_window_size :: "nat option"
  hs_initial_connection_window_size :: "nat option"
  hs_adaptive_window :: "bool option"
  hs_max_frame_size :: "nat option"
  hs_max_header_list_size :: "nat option"
  hs_header_table_size :: "nat option"
  hs_keep_alive_interval :: "duration option"
  hs_keep_alive_timeout :: "duration option"
  hs_keep_alive_while_idle :: "bool option"

definition http2_settings_new :: http2_settings where
  "http2_settings_new =
     \<lparr>hs_initial_stream_window_size = None, hs_initial_connection_window_size = None,
      hs_adaptive_window = None, hs_max_frame_size = None, hs_max_header_list_size = None,
      hs_header_table_size = None, hs_keep_alive_interval = None, hs_keep_alive_timeout = None,
      hs_keep_alive_while_idle = None\<rparr>"

definition set_initial_stream_window_size :: "nat \<Rightarrow> http2_settings \<Rightarrow> http2_settings" where
  "set_initial_stream_window_size v s = s\<lparr>hs_initial_stream_window_size := Some v\<rparr>"

definition set_initial_connection_window_size :: "nat \<Rightarrow> http2_settings \<Rightarrow> http2_settings" where
  "set_initial_connection_window_size v s = s\<lparr>hs_initial_connection_window_size := Some v\<rparr>"

definition set_adaptive_window :: "bool \<Rightarrow> http2_settings \<Rightarrow> http2_settings" where
  "set_adaptive_window v s = s\<lparr>hs_adaptive_window := Some v\<rparr>"

definition set_max_frame_size :: "nat \<Rightarrow> http2_settings \<Rightarrow> http2_settings" where
  "set_max_frame_size v s = s\<lparr>hs_max_frame_size := Some v\<rparr>"

definition set_max_header_list_size :: "nat \<Rightarrow> http2_settings \<Rightarrow> http2_settings" where
  "set_max_header_list_size v s = s\<lparr>hs_max_header_list_size := Some v\<rparr>"

definition set_header_table_size :: "nat \<Rightarrow> http2_settings \<Rightarrow> http2_settings" where
  "set_header_table_size v s = s\<lparr>hs_header_table_size := Some v\<rparr>"

definition set_keep_alive_interval :: "duration \<Rightarrow> http2_settings \<Rightarrow> http2_settings" where
  "set_keep_alive_interval v s = s\<lparr>hs_keep_alive_interval := Some v\<rparr>"

definition set_keep_alive_timeout :: "duration \<Rightarrow> http2_settings \<Rightarrow> http2_settings" where
  "set_keep_alive_timeout v s = s\<lparr>hs_keep_alive_timeout := Some v\<rparr>"

definition set_keep_alive_while_idle :: "bool \<Rightarrow> http2_settings \<Rightarrow> http2_settings" where
  "set_keep_alive_while_idle v s = s\<lparr>hs_keep_alive_while_idle := Some v\<rparr>"

text \<open>The setters of the HTTP library's HTTP/2 builder.\<close>

record 'b h2_builder_ops =
  h2b_initial_stream_window_size :: "nat \<Rightarrow> 'b \<Rightarrow> 'b"
  h2b_initial_connection_window_size :: "nat \<Rightarrow> 'b \<Rightarrow> 'b"
  h2b_max_frame_size :: "nat \<Rightarrow> 'b \<Rightarrow> 'b"
  h2b_max_header_list_size :: "nat \<Rightarrow> 'b \<Rightarrow> 'b"
  h2b_header_table_size :: "nat \<Rightarrow> 'b \<Rightarrow> 'b"
  h2b_keep_alive_interval :: "duration \<Rightarrow> 'b \<Rightarrow> 'b"
  h2b_keep_alive_timeout :: "duration \<Rightarrow> 'b \<Rightarrow> 'b"
  h2b_keep_alive_while_idle :: "bool \<Rightarrow> 'b \<Rightarrow> 'b"
  h2b_adaptive_window :: "bool \<Rightarrow> 'b \<Rightarrow> 'b"

definition if_some :: "('x \<Rightarrow> 'b \<Rightarrow> 'b) \<Rightarrow> 'x option \<Rightarrow> 'b \<Rightarrow> 'b" where
  "if_some f x b = (case x of Some v \<Rightarrow> f v b | None \<Rightarrow> b)"

definition http2_settings_apply :: "'b h2_builder_ops \<Rightarrow> http2_settings \<Rightarrow> 'b \<Rightarrow> 'b" where
  "http2_settings_apply B s b0 =
     (let b1 = if_some (h2b_initial_stream_window_size B) (hs_initial_stream_window_size s) b0;
          b2 = if_some (h2b_initial_connection_window_size B) (hs_initial_connection_window_size s) b1;
          b3 = if_some (h2b_max_frame_size B) (hs_max_frame_size s) b2;
          b4 = if_some (h2b_max_header_list_size B) (hs_max_header_list_size s) b3;
          b5 = if_some (h2b_header_table_size B) (hs_header_table_size s) b4;
          b6 = if_some (h2b_keep_alive_interval B) (hs_keep_alive_interval s) b5;
          b7 = if_some (h2b_keep_alive_timeout B) (hs_keep_alive_timeout s) b6;
          b8 = if_some (h2b_keep_alive_while_idle B) (hs_keep_alive_while_idle s) b7
      in if_some (h2b_adaptive_window B) (hs_adaptive_window s) b8)"

text \<open>
  An explicit adaptive window is the last setting applied, whatever was set before or after it, so
  that no window size overrides it.
\<close>

lemma adaptive_window_wins:
  assumes "hs_adaptive_window s = Some enabled"
  shows "http2_settings_apply B s b =
     h2b_adaptive_window B enabled (http2_settings_apply B (s\<lparr>hs_adaptive_window := None\<rparr>) b)"
  using assms by (simp add: http2_settings_apply_def if_some_def Let_def)

section \<open>Client and builder\<close>

record client_config =
  cf_retry_canceled_requests :: bool
  cf_set_host :: bool
  cf_protocol :: protocol

text \<open>
  \<open>'n\<close> is a connector, \<open>'h1\<close> and \<open>'h2\<close> are the HTTP library's protocol builders, absent in a build
  without the feature.  The pool, which all clones share, is threaded through the operations.
\<close>

record ('n, 'h1, 'h2) client =
  cl_config :: client_config
  cl_connector :: 'n
  cl_h1_builder :: "'h1 option"
  cl_h2_builder :: "'h2 option"

record ('n, 'h1, 'h2) client_builder =
  bd_config :: client_config
  bd_connector :: 'n
  bd_h1_builder :: "'h1 option"
  bd_h2_builder :: "'h2 option"
  bd_pool_config :: pool_config
  bd_pool_timer :: bool
  bd_debug_events :: bool

definition builder_new :: "'n \<Rightarrow> 'h1 option \<Rightarrow> 'h2 option \<Rightarrow> ('n, 'h1, 'h2) client_builder" where
  "builder_new connector h1 h2 =
     \<lparr>bd_config = \<lparr>cf_retry_canceled_requests = True, cf_set_host = True, cf_protocol = ProtoAuto\<rparr>,
      bd_connector = connector, bd_h1_builder = h1, bd_h2_builder = h2,
      bd_pool_config = \<lparr>cfg_idle_timeout = Some 90000, cfg_max_idle_per_host = usize_max,
                        cfg_max_h1_connections_per_host = usize_max\<rparr>,
      bd_pool_timer = True, bd_debug_events = False\<rparr>"

definition bd_set_connector :: "('n \<Rightarrow> 'n) \<Rightarrow> 'n \<Rightarrow> ('n, 'h1, 'h2) client_builder \<Rightarrow> ('n, 'h1, 'h2) client_builder" where
  "bd_set_connector force k b =
     b\<lparr>bd_connector := (if cf_protocol (bd_config b) = ProtoHttp1 then force k else k)\<rparr>"

definition bd_pool_idle_timeout :: "duration option \<Rightarrow> ('n, 'h1, 'h2) client_builder \<Rightarrow> ('n, 'h1, 'h2) client_builder" where
  "bd_pool_idle_timeout t b = b\<lparr>bd_pool_config := (bd_pool_config b)\<lparr>cfg_idle_timeout := t\<rparr>\<rparr>"

definition bd_pool_max_idle_per_host :: "nat \<Rightarrow> ('n, 'h1, 'h2) client_builder \<Rightarrow> ('n, 'h1, 'h2) client_builder" where
  "bd_pool_max_idle_per_host n b = b\<lparr>bd_pool_config := (bd_pool_config b)\<lparr>cfg_max_idle_per_host := n\<rparr>\<rparr>"

definition bd_pool_max_connections_per_host ::
  "nat \<Rightarrow> ('n, 'h1, 'h2) client_builder \<Rightarrow> ('n, 'h1, 'h2) client_builder" where
  "bd_pool_max_connections_per_host n b =
     b\<lparr>bd_pool_config := (bd_pool_config b)
         \<lparr>cfg_max_h1_connections_per_host := (if n = 0 then usize_max else n)\<rparr>\<rparr>"

definition bd_set_pool_timer :: "('n, 'h1, 'h2) client_builder \<Rightarrow> ('n, 'h1, 'h2) client_builder" where
  "bd_set_pool_timer b = b\<lparr>bd_pool_timer := True\<rparr>"

definition bd_debug_event_log :: "('n, 'h1, 'h2) client_builder \<Rightarrow> ('n, 'h1, 'h2) client_builder" where
  "bd_debug_event_log b = b\<lparr>bd_debug_events := True\<rparr>"

definition bd_set_host :: "bool \<Rightarrow> ('n, 'h1, 'h2) client_builder \<Rightarrow> ('n, 'h1, 'h2) client_builder" where
  "bd_set_host e b = b\<lparr>bd_config := (bd_config b)\<lparr>cf_set_host := e\<rparr>\<rparr>"

definition bd_retry_canceled_requests :: "bool \<Rightarrow> ('n, 'h1, 'h2) client_builder \<Rightarrow> ('n, 'h1, 'h2) client_builder" where
  "bd_retry_canceled_requests e b = b\<lparr>bd_config := (bd_config b)\<lparr>cf_retry_canceled_requests := e\<rparr>\<rparr>"

definition bd_http1_only :: "('n \<Rightarrow> 'n) \<Rightarrow> ('n, 'h1, 'h2) client_builder \<Rightarrow> ('n, 'h1, 'h2) client_builder" where
  "bd_http1_only force b =
     b\<lparr>bd_config := (bd_config b)\<lparr>cf_protocol := ProtoHttp1\<rparr>, bd_connector := force (bd_connector b)\<rparr>"

definition bd_http2_only :: "bool \<Rightarrow> ('n, 'h1, 'h2) client_builder \<Rightarrow> ('n, 'h1, 'h2) client_builder" where
  "bd_http2_only e b = b\<lparr>bd_config := (bd_config b)\<lparr>cf_protocol := (if e then ProtoHttp2 else ProtoAuto)\<rparr>\<rparr>"

definition bd_http2_settings ::
  "'h2 h2_builder_ops \<Rightarrow> http2_settings \<Rightarrow> ('n, 'h1, 'h2) client_builder \<Rightarrow> ('n, 'h1, 'h2) client_builder" where
  "bd_http2_settings B s b = b\<lparr>bd_h2_builder := map_option (http2_settings_apply B s) (bd_h2_builder b)\<rparr>"

definition builder_build ::
  "('n \<Rightarrow> 'n) \<Rightarrow> ('n, 'h1, 'h2) client_builder \<Rightarrow> ('n, 'h1, 'h2) client \<times> ('k, 'v) pool" where
  "builder_build force b =
     (\<lparr>cl_config = bd_config b,
       cl_connector =
         (if cf_protocol (bd_config b) = ProtoHttp1 then force (bd_connector b) else bd_connector b),
       cl_h1_builder = bd_h1_builder b, cl_h2_builder = bd_h2_builder b\<rparr>,
      pool_new (bd_pool_config b) (bd_pool_timer b) (bd_debug_events b))"

section \<open>Establishing a connection\<close>

type_synonym ('a, 'b) conn = "('a, 'b, socket_addr) pool_client"

text \<open>
  What a poll observes: the connector's result, when it is there; the HTTP handshake's result
  with the result of waiting for the new sender to become ready; elapsed times; which pooled
  connections are open; receivers dropped concurrently; and the clock.
\<close>

record ('s, 'tls, 'h1, 'h2, 'a, 'b) poll_env =
  pe_connect :: "(connect_error, ('s, 'tls) connected) result option"
  pe_handshake1 :: "'h1 \<Rightarrow> ('s, 'tls) established_io \<Rightarrow> (string, 'a \<times> (string, unit) result) result option"
  pe_handshake2 :: "'h2 \<Rightarrow> ('s, 'tls) established_io \<Rightarrow> (string, 'b \<times> (string, unit) result) result option"
  pe_connect_elapsed :: duration
  pe_handshake_elapsed :: duration
  pe_open :: "('a, 'b) conn \<Rightarrow> bool"
  pe_raced :: "nat \<Rightarrow> bool"
  pe_now :: nat

fun handshake_result ::
  "('x \<Rightarrow> ('a, 'b) sender) \<Rightarrow> socket_addr connection_info
     \<Rightarrow> (string, 'x \<times> (string, unit) result) result option \<Rightarrow> (client_error, ('a, 'b) conn) result poll" where
  "handshake_result mk info None = Pending"
| "handshake_result mk info (Some (Inl e)) = Ready (Inl (client_error_with_source Handshake (HyperSource e)))"
| "handshake_result mk info (Some (Inr (s, Inl e))) =
     Ready (Inl (client_error_with_source Handshake (HyperSource e)))"
| "handshake_result mk info (Some (Inr (s, Inr _))) =
     Ready (Inr \<lparr>pc_sender = mk s, pc_connection_info = info\<rparr>)"

definition handshake ::
  "('n, 'h1, 'h2) client \<Rightarrow> ('s, 'tls, 'h1, 'h2, 'a, 'b) poll_env \<Rightarrow> ('s, 'tls) connected
     \<Rightarrow> socket_addr connection_info \<Rightarrow> (client_error, ('a, 'b) conn) result poll" where
  "handshake C E cd info =
     (case cd_protocol cd of
        ConnHttp1 \<Rightarrow>
          (case cl_h1_builder C of
             None \<Rightarrow> Ready (Inl (client_error_new ProtocolUnavailable))
           | Some b \<Rightarrow> handshake_result SenderHttp1 info (pe_handshake1 E b (cd_io cd)))
      | ConnHttp2 \<Rightarrow>
          (case cl_h2_builder C of
             None \<Rightarrow> Ready (Inl (client_error_new ProtocolUnavailable))
           | Some b \<Rightarrow> handshake_result SenderHttp2 info (pe_handshake2 E b (cd_io cd))))"

text \<open>
  \<open>connect_to\<close>: before its first poll, waiting for the connector, waiting for the handshake, and
  finished.  A guard the task holds is dropped when it fails.
\<close>

datatype ('s, 'tls) connect_task =
    CtStart
  | CtConnecting "origin connecting"
  | CtHandshaking "origin connecting" "('s, 'tls) connected" "socket_addr connection_info"
  | CtDone

type_synonym ('a, 'b) cpool = "(origin, ('a, 'b) conn) pool"
type_synonym ('a, 'b) cpooled = "(origin, ('a, 'b) conn) pooled"

definition ct_handshake ::
  "('b \<Rightarrow> 'b) \<Rightarrow> ('n, 'h1, 'h2) client \<Rightarrow> ('s, 'tls, 'h1, 'h2, 'a, 'b) poll_env \<Rightarrow> origin connecting
     \<Rightarrow> ('s, 'tls) connected \<Rightarrow> socket_addr connection_info \<Rightarrow> ('a, 'b) cpool
     \<Rightarrow> (client_error, ('a, 'b) cpooled) result poll \<times> ('s, 'tls) connect_task \<times> ('a, 'b) cpool" where
  "ct_handshake clone C E g cd info p =
     (case handshake C E cd info of
        Pending \<Rightarrow> (Pending, CtHandshaking g cd info, p)
      | Ready (Inl e) \<Rightarrow> (Ready (Inl e), CtDone, connecting_drop g p)
      | Ready (Inr conn) \<Rightarrow>
          (let conn' = conn\<lparr>pc_connection_info :=
                 (pc_connection_info conn)\<lparr>ci_handshake_duration := Some (pe_handshake_elapsed E)\<rparr>\<rparr>
           in case pool_pooled (pool_client_item clone) (pe_raced E) (pe_now E) g conn' p of
                (h, p') \<Rightarrow> (Ready (Inr h), CtDone, p')))"

definition established_events :: "origin \<Rightarrow> connection_protocol \<Rightarrow> origin debug_event list" where
  "established_events key protocol =
     ConnectionEstablished key protocol
     # (if origin_scheme key = ''https'' then [AlpnSelected key protocol] else [])"

definition ct_connected ::
  "('b \<Rightarrow> 'b) \<Rightarrow> ('n, 'h1, 'h2) client \<Rightarrow> ('s, 'tls, 'h1, 'h2, 'a, 'b) poll_env \<Rightarrow> origin \<Rightarrow> origin connecting
     \<Rightarrow> ('s, 'tls) connected \<Rightarrow> ('a, 'b) cpool
     \<Rightarrow> (client_error, ('a, 'b) cpooled) result poll \<times> ('s, 'tls) connect_task \<times> ('a, 'b) cpool" where
  "ct_connected clone C E key g cd p0 =
     (let info = (cd_info cd)\<lparr>ci_connect_duration := Some (pe_connect_elapsed E)\<rparr>;
          p = record_events (established_events key (cd_protocol cd)) p0
      in if cd_protocol cd = ConnHttp2 \<and> cf_protocol (cl_config C) \<noteq> ProtoHttp2 then
           if cf_protocol (cl_config C) = ProtoHttp1
           then (Ready (Inl (client_error_new Alpn)), CtDone, connecting_drop g p)
           else (case alpn_h2 g p of
                   (None, p') \<Rightarrow> (Ready (Inl (client_error_new Canceled)), CtDone, p')
                 | (Some g', p') \<Rightarrow> ct_handshake clone C E g' cd info p')
         else ct_handshake clone C E g cd info p)"

definition ct_connecting ::
  "('b \<Rightarrow> 'b) \<Rightarrow> ('n, 'h1, 'h2) client \<Rightarrow> ('s, 'tls, 'h1, 'h2, 'a, 'b) poll_env \<Rightarrow> origin \<Rightarrow> origin connecting
     \<Rightarrow> ('a, 'b) cpool
     \<Rightarrow> (client_error, ('a, 'b) cpooled) result poll \<times> ('s, 'tls) connect_task \<times> ('a, 'b) cpool" where
  "ct_connecting clone C E key g p =
     (case pe_connect E of
        None \<Rightarrow> (Pending, CtConnecting g, p)
      | Some (Inl e) \<Rightarrow>
          (Ready (Inl (client_error_with_source (connect_error_kind e) (ConnectSource e))), CtDone,
           connecting_drop g p)
      | Some (Inr cd) \<Rightarrow> ct_connected clone C E key g cd p)"

fun connect_to ::
  "('b \<Rightarrow> 'b) \<Rightarrow> ('n, 'h1, 'h2) client \<Rightarrow> ('s, 'tls, 'h1, 'h2, 'a, 'b) poll_env \<Rightarrow> origin
     \<Rightarrow> ('s, 'tls) connect_task \<Rightarrow> ('a, 'b) cpool
     \<Rightarrow> (client_error, ('a, 'b) cpooled) result poll \<times> ('s, 'tls) connect_task \<times> ('a, 'b) cpool" where
  "connect_to clone C E key CtStart p =
     (case pool_connecting key (cf_protocol (cl_config C)) p of
        (None, p') \<Rightarrow> (Ready (Inl (client_error_new Canceled)), CtDone, p')
      | (Some g, p') \<Rightarrow> ct_connecting clone C E key g p')"
| "connect_to clone C E key (CtConnecting g) p = ct_connecting clone C E key g p"
| "connect_to clone C E key (CtHandshaking g cd info) p = ct_handshake clone C E g cd info p"
| "connect_to clone C E key CtDone p = (Pending, CtDone, p)"

fun connect_task_drop :: "('s, 'tls) connect_task \<Rightarrow> ('a, 'b) cpool \<Rightarrow> ('a, 'b) cpool" where
  "connect_task_drop (CtConnecting g) p = connecting_drop g p"
| "connect_task_drop (CtHandshaking g cd info) p = connecting_drop g p"
| "connect_task_drop _ p = p"

section \<open>Racing the pool against a new connection\<close>

datatype ('s, 'tls) acquire_task =
    AqStart
  | AqDirect "('s, 'tls) connect_task"
  | AqSelect "origin checkout" "('s, 'tls) connect_task"
  | AqConnect "('s, 'tls) connect_task"
  | AqCheckout "origin checkout"
  | AqDone

type_synonym ('s, 'tls, 'a, 'b) acquired =
  "(connection_error, ('a, 'b) cpooled) result poll \<times> ('s, 'tls) acquire_task \<times> ('a, 'b) cpool"

definition aq_connect_only ::
  "(('s, 'tls) connect_task \<Rightarrow> ('s, 'tls) acquire_task) \<Rightarrow> ('b \<Rightarrow> 'b) \<Rightarrow> ('n, 'h1, 'h2) client
     \<Rightarrow> ('s, 'tls, 'h1, 'h2, 'a, 'b) poll_env \<Rightarrow> origin \<Rightarrow> ('s, 'tls) connect_task \<Rightarrow> ('a, 'b) cpool
     \<Rightarrow> ('s, 'tls, 'a, 'b) acquired" where
  "aq_connect_only mk clone C E key ct p =
     (case connect_to clone C E key ct p of
        (Pending, ct', p') \<Rightarrow> (Pending, mk ct', p')
      | (Ready (Inl e), ct', p') \<Rightarrow> (Ready (Inl (ConnectionFinal e)), AqDone, p')
      | (Ready (Inr h), ct', p') \<Rightarrow> (Ready (Inr h), AqDone, p'))"

text \<open>The outcome of a checkout that is awaited after the establishment has given up.\<close>

definition aq_checkout_only ::
  "('b \<Rightarrow> 'b) \<Rightarrow> ('s, 'tls, 'h1, 'h2, 'a, 'b) poll_env \<Rightarrow> origin checkout \<Rightarrow> ('a, 'b) cpool
     \<Rightarrow> ('s, 'tls, 'a, 'b) acquired" where
  "aq_checkout_only clone E ck p =
     (case checkout_poll (pool_client_item clone) (pe_open E) (pe_now E) ck p of
        (Pending, ck', p') \<Rightarrow> (Pending, AqCheckout ck', p')
      | (Ready (Inr h), ck', p') \<Rightarrow> (Ready (Inr h), AqDone, checkout_drop ck' p')
      | (Ready (Inl e), ck', p') \<Rightarrow>
          (Ready (Inl (if e = ClosedValue \<or> e = NoLongerWanted then ConnectionRetry
                       else ConnectionFinal (client_error_with_source Connect (CheckoutSource e)))),
           AqDone, checkout_drop ck' p'))"

definition aq_select ::
  "('b \<Rightarrow> 'b) \<Rightarrow> ('n, 'h1, 'h2) client \<Rightarrow> ('s, 'tls, 'h1, 'h2, 'a, 'b) poll_env \<Rightarrow> origin
     \<Rightarrow> origin checkout \<Rightarrow> ('s, 'tls) connect_task \<Rightarrow> ('a, 'b) cpool \<Rightarrow> ('s, 'tls, 'a, 'b) acquired" where
  "aq_select clone C E key ck ct p =
     (case checkout_poll (pool_client_item clone) (pe_open E) (pe_now E) ck p of
        (Ready (Inr h), ck', p') \<Rightarrow>
          (Ready (Inr h), AqDone, connect_task_drop ct (checkout_drop ck' p'))
      | (Ready (Inl e), ck', p') \<Rightarrow>
          if is_cancellation e then aq_connect_only AqConnect clone C E key ct (checkout_drop ck' p')
          else (Ready (Inl (ConnectionFinal (client_error_with_source Connect (CheckoutSource e)))),
                AqDone, connect_task_drop ct (checkout_drop ck' p'))
      | (Pending, ck', p') \<Rightarrow>
          (case connect_to clone C E key ct p' of
             (Pending, ct', p'') \<Rightarrow> (Pending, AqSelect ck' ct', p'')
           | (Ready (Inr h), ct', p'') \<Rightarrow> (Ready (Inr h), AqDone, checkout_drop ck' p'')
           | (Ready (Inl e), ct', p'') \<Rightarrow>
               if ce_kind e = Canceled then aq_checkout_only clone E ck' p''
               else (Ready (Inl (ConnectionFinal e)), AqDone, checkout_drop ck' p'')))"

fun one_connection_for ::
  "('b \<Rightarrow> 'b) \<Rightarrow> ('n, 'h1, 'h2) client \<Rightarrow> ('s, 'tls, 'h1, 'h2, 'a, 'b) poll_env \<Rightarrow> origin
     \<Rightarrow> ('s, 'tls) acquire_task \<Rightarrow> ('a, 'b) cpool \<Rightarrow> ('s, 'tls, 'a, 'b) acquired" where
  "one_connection_for clone C E key AqStart p =
     (if \<not> is_enabled p then aq_connect_only AqDirect clone C E key CtStart p
      else case pool_checkout key p of (ck, p') \<Rightarrow> aq_select clone C E key ck CtStart p')"
| "one_connection_for clone C E key (AqDirect ct) p = aq_connect_only AqDirect clone C E key ct p"
| "one_connection_for clone C E key (AqSelect ck ct) p = aq_select clone C E key ck ct p"
| "one_connection_for clone C E key (AqConnect ct) p = aq_connect_only AqConnect clone C E key ct p"
| "one_connection_for clone C E key (AqCheckout ck) p = aq_checkout_only clone E ck p"
| "one_connection_for clone C E key AqDone p = (Pending, AqDone, p)"

text \<open>
  One turn of the loop of \<^verbatim>\<open>connection_for\<close>: after a retry the task is at its start again, still to
  be polled.
\<close>

definition connection_for ::
  "('b \<Rightarrow> 'b) \<Rightarrow> ('n, 'h1, 'h2) client \<Rightarrow> ('s, 'tls, 'h1, 'h2, 'a, 'b) poll_env \<Rightarrow> origin
     \<Rightarrow> ('s, 'tls) acquire_task \<Rightarrow> ('a, 'b) cpool
     \<Rightarrow> (client_error, ('a, 'b) cpooled) result poll \<times> ('s, 'tls) acquire_task \<times> ('a, 'b) cpool" where
  "connection_for clone C E key t p =
     (case one_connection_for clone C E key t p of
        (Pending, t', p') \<Rightarrow> (Pending, t', p')
      | (Ready (Inr h), t', p') \<Rightarrow> (Ready (Inr h), t', p')
      | (Ready (Inl (ConnectionFinal e)), t', p') \<Rightarrow> (Ready (Inl e), t', p')
      | (Ready (Inl ConnectionRetry), t', p') \<Rightarrow>
          if cf_retry_canceled_requests (cl_config C) then (Pending, AqStart, p')
          else (Ready (Inl (client_error_new Canceled)), t', p'))"

text \<open>Dropping the response future drops what the task holds.\<close>

fun acquire_drop :: "('s, 'tls) acquire_task \<Rightarrow> ('a, 'b) cpool \<Rightarrow> ('a, 'b) cpool" where
  "acquire_drop (AqDirect ct) p = connect_task_drop ct p"
| "acquire_drop (AqConnect ct) p = connect_task_drop ct p"
| "acquire_drop (AqSelect ck ct) p = connect_task_drop ct (checkout_drop ck p)"
| "acquire_drop (AqCheckout ck) p = checkout_drop ck p"
| "acquire_drop _ p = p"

section \<open>Dispatch and retry\<close>

record 'addr response_info =
  ri_connection :: "'addr connection_info"
  ri_reused :: bool

text \<open>The HTTP library's answer to a request: a response, or an error that may return the message.\<close>

datatype ('rq, 'rs) send_outcome = SendOk 'rs | SendErr "'rq option" string

text \<open>
  The state of the request path: the pool, the connections kept by driver tasks until they are
  ready again, and the rest of the world.  \<open>so_connection_for\<close> is the result of awaiting
  \<open>connection_for\<close>, \<open>so_send\<close> that of the HTTP library's \<^verbatim>\<open>try_send_request\<close>; both may change
  everything, since other tasks run meanwhile.
\<close>

record ('w, 'a, 'b) send_world =
  sw_pool :: "('a, 'b) cpool"
  sw_drivers :: "('a, 'b) cpooled list"
  sw_env :: 'w

record ('w, 'a, 'b, 'rq, 'rs) send_ops =
  so_connection_for :: "origin \<Rightarrow> ('w, 'a, 'b) send_world
     \<Rightarrow> (client_error, ('a, 'b) cpooled) result \<times> ('w, 'a, 'b) send_world"
  so_send :: "('a, 'b) sender \<Rightarrow> 'rq \<Rightarrow> ('w, 'a, 'b) send_world \<Rightarrow> ('rq, 'rs) send_outcome \<times> ('w, 'a, 'b) send_world"
  so_ready1 :: "'w \<Rightarrow> 'a \<Rightarrow> bool"
  so_ready2 :: "'w \<Rightarrow> 'b \<Rightarrow> bool"
  so_raced :: "'w \<Rightarrow> nat \<Rightarrow> bool"
  so_now :: "'w \<Rightarrow> nat"

definition so_open :: "('w, 'a, 'b, 'rq, 'rs) send_ops \<Rightarrow> 'w \<Rightarrow> ('a, 'b) conn \<Rightarrow> bool" where
  "so_open S w = pc_is_ready (so_ready1 S w) (so_ready2 S w)"

definition drop_handle ::
  "('b \<Rightarrow> 'b) \<Rightarrow> ('w, 'a, 'b, 'rq, 'rs) send_ops \<Rightarrow> ('a, 'b) cpooled \<Rightarrow> ('w, 'a, 'b) send_world
     \<Rightarrow> ('w, 'a, 'b) send_world" where
  "drop_handle clone S h w =
     w\<lparr>sw_pool := pooled_drop (pool_client_item clone) (so_open S (sw_env w)) (so_raced S (sw_env w))
                    (so_now S (sw_env w)) h (sw_pool w)\<rparr>"

definition try_send_request ::
  "'u uri_ops \<Rightarrow> 'h header_ops \<Rightarrow> field_ops \<Rightarrow> ('b \<Rightarrow> 'b) \<Rightarrow> ('n, 'h1, 'h2) client
     \<Rightarrow> ('w, 'a, 'b, ('u, 'h, 'd) request, 'rs) send_ops \<Rightarrow> ('u, 'h, 'd) request \<Rightarrow> origin
     \<Rightarrow> ('w, 'a, 'b) send_world
     \<Rightarrow> ((('u, 'h, 'd) request try_send_error, 'rs \<times> socket_addr response_info) result
          \<times> ('w, 'a, 'b) send_world) option" where
  "try_send_request U H F clone C S r key w0 =
     (case so_connection_for S key w0 of
        (Inl e, w) \<Rightarrow> Some (Inl (FinalError e), w)
      | (Inr h, w) \<Rightarrow>
          if pc_is_http1 (pv_value h) \<and> rq_version r = HTTP_2
          then Some (Inl (FinalError (client_error_new UnsupportedVersion)), drop_handle clone S h w)
          else
            (case (if pc_is_http1 (pv_value h)
                   then normalize_http1_request U H F (cf_set_host (cl_config C)) r else Some r) of
               None \<Rightarrow> None
             | Some m \<Rightarrow>
                 (let info = \<lparr>ri_connection = pc_connection_info (pv_value h), ri_reused = pv_is_reused h\<rparr> in
                  case so_send S (pc_sender (pv_value h)) m w of
                    (SendErr (Some m') e, w1) \<Rightarrow>
                      Some (Inl (Retryable m' (client_error_with_source Canceled (HyperSource e)) (pv_is_reused h)),
                            drop_handle clone S h w1)
                  | (SendErr None e, w1) \<Rightarrow>
                      Some (Inl (FinalError (client_error_with_source SendRequest (HyperSource e))),
                            drop_handle clone S h w1)
                  | (SendOk rs, w1) \<Rightarrow>
                      Some (Inr (rs, info),
                        if pc_is_http2 (pv_value h) \<or> \<not> pv_pool h \<or> so_open S (sw_env w1) (pv_value h)
                        then drop_handle clone S h w1
                        else w1\<lparr>sw_drivers := sw_drivers w1 @ [h]\<rparr>))))"

text \<open>A driver task whose sender is ready again ends and drops the connection it kept.\<close>

definition driver_ready ::
  "('b \<Rightarrow> 'b) \<Rightarrow> ('w, 'a, 'b, 'rq, 'rs) send_ops \<Rightarrow> ('w, 'a, 'b) send_world \<Rightarrow> ('w, 'a, 'b) send_world" where
  "driver_ready clone S w =
     (case sw_drivers w of
        [] \<Rightarrow> w
      | h # hs \<Rightarrow> drop_handle clone S h (w\<lparr>sw_drivers := hs\<rparr>))"

partial_function (option) send_request ::
  "'u uri_ops \<Rightarrow> 'h header_ops \<Rightarrow> field_ops \<Rightarrow> ('b \<Rightarrow> 'b) \<Rightarrow> ('n, 'h1, 'h2) client
     \<Rightarrow> ('w, 'a, 'b, ('u, 'h, 'd) request, 'rs) send_ops \<Rightarrow> 'u \<Rightarrow> ('u, 'h, 'd) request \<Rightarrow> origin
     \<Rightarrow> ('w, 'a, 'b) send_world
     \<Rightarrow> ((client_error, 'rs \<times> socket_addr response_info) result \<times> ('w, 'a, 'b) send_world) option" where
  "send_request U H F clone C S absolute_uri r key w =
     (case try_send_request U H F clone C S r key w of
        None \<Rightarrow> None
      | Some (Inr rs, w') \<Rightarrow> Some (Inr rs, w')
      | Some (Inl (FinalError e), w') \<Rightarrow> Some (Inl e, w')
      | Some (Inl (Retryable r' e reused), w') \<Rightarrow>
          if \<not> cf_retry_canceled_requests (cl_config C) \<or> \<not> reused then Some (Inl e, w')
          else send_request U H F clone C S absolute_uri (r'\<lparr>rq_uri := absolute_uri\<rparr>) key
                 (w'\<lparr>sw_pool := record_events [StaleRetry key] (sw_pool w')\<rparr>))"

text \<open>None: a panic of the URI library's caller, or a request that is retried forever.\<close>

definition client_send ::
  "'u uri_ops \<Rightarrow> 'h header_ops \<Rightarrow> field_ops \<Rightarrow> ('b \<Rightarrow> 'b) \<Rightarrow> ('n, 'h1, 'h2) client
     \<Rightarrow> ('w, 'a, 'b, ('u, 'h, 'd) request, 'rs) send_ops \<Rightarrow> bool \<Rightarrow> ('u, 'h, 'd) request
     \<Rightarrow> ('w, 'a, 'b) send_world
     \<Rightarrow> ((client_error, 'rs \<times> socket_addr response_info) result \<times> ('w, 'a, 'b) send_world) option" where
  "client_send U H F clone C S is_connect r w =
     (case extract_origin U (rq_uri r) is_connect of
        None \<Rightarrow> None
      | Some (Inl e, u) \<Rightarrow> Some (Inl (client_error_with_source AbsoluteUriRequired (NormalizeSource e)), w)
      | Some (Inr key, u) \<Rightarrow> send_request U H F clone C S u (r\<lparr>rq_uri := u\<rparr>) key w)"

definition client_request ::
  "'u uri_ops \<Rightarrow> 'h header_ops \<Rightarrow> field_ops \<Rightarrow> ('b \<Rightarrow> 'b) \<Rightarrow> ('n, 'h1, 'h2) client
     \<Rightarrow> ('w, 'a, 'b, ('u, 'h, 'd) request, 'rs) send_ops \<Rightarrow> ('u, 'h, 'd) request \<Rightarrow> ('w, 'a, 'b) send_world
     \<Rightarrow> ((client_error, 'rs \<times> socket_addr response_info) result \<times> ('w, 'a, 'b) send_world) option" where
  "client_request U H F clone C S r w =
     (let is_connect = (rq_method r = ''CONNECT'') in
      case rq_version r of
        HTTP_10 \<Rightarrow>
          if is_connect then Some (Inl (client_error_new UnsupportedMethod), w)
          else client_send U H F clone C S is_connect r w
      | HTTP_11 \<Rightarrow> client_send U H F clone C S is_connect r w
      | HTTP_2 \<Rightarrow> client_send U H F clone C S is_connect r w
      | _ \<Rightarrow> Some (Inl (client_error_new UnsupportedVersion), w))"

text \<open>A GET of a URI with the default body.\<close>

definition client_get ::
  "'u uri_ops \<Rightarrow> 'h header_ops \<Rightarrow> field_ops \<Rightarrow> ('b \<Rightarrow> 'b) \<Rightarrow> ('n, 'h1, 'h2) client
     \<Rightarrow> ('w, 'a, 'b, ('u, 'h, 'd) request, 'rs) send_ops \<Rightarrow> 'd \<Rightarrow> 'u \<Rightarrow> ('w, 'a, 'b) send_world
     \<Rightarrow> ((client_error, 'rs \<times> socket_addr response_info) result \<times> ('w, 'a, 'b) send_world) option" where
  "client_get U H F clone C S dflt uri w =
     client_request U H F clone C S
       \<lparr>rq_method = ''GET'', rq_uri = uri, rq_version = HTTP_11, rq_headers = hm_new H, rq_body = dflt\<rparr> w"

section \<open>Properties of the request path\<close>

text \<open>
  The HTTP library returns, with an error that carries a message, the message it was given.
\<close>

definition returns_message :: "('w, 'a, 'b, 'rq, 'rs) send_ops \<Rightarrow> bool" where
  "returns_message S \<longleftrightarrow> (\<forall>s m w m' e w'. so_send S s m w = (SendErr (Some m') e, w') \<longrightarrow> m' = m)"

lemma returns_messageD:
  "returns_message S \<Longrightarrow> so_send S s m w = (SendErr (Some m') e, w') \<Longrightarrow> m' = m"
  unfolding returns_message_def by blast

lemma normalize_again:
  assumes "header_laws H" and "normalize_http1_request U H F set_host r = Some n"
  shows "normalize_http1_request U H F set_host (n\<lparr>rq_uri := rq_uri r\<rparr>) = Some n"
proof -
  obtain r1 u where r1: "(if set_host then synthesize_host U H F r else Some r) = Some r1"
    and u: "(if rq_method r1 = ''CONNECT'' then authority_form U (rq_uri r1) else origin_form U (rq_uri r1)) = Some u"
    and n: "n = r1\<lparr>rq_uri := u\<rparr>"
    using assms(2) by (auto simp: normalize_http1_request_def bind_eq_Some_conv)
  have same: "rq_uri r1 = rq_uri r"
    using r1 by (auto simp: synthesize_host_def Let_def split: if_splits option.splits)
  have host: "set_host \<Longrightarrow> hm_contains_key H (rq_headers r1) ''host''"
    using r1
    by (auto simp: synthesize_host_def Let_def header_laws_get_all(3,4)[OF assms(1)] split: if_splits option.splits)
  have "n\<lparr>rq_uri := rq_uri r\<rparr> = r1"
    using n same by simp
  then show ?thesis
    using u n host by (simp add: normalize_http1_request_def synthesize_host_def)
qed

text \<open>
  What is sent is observed by recording it: beside its own state, the environment keeps the list of
  the senders that were used and the messages they were given.
\<close>

definition logged :: "'l \<Rightarrow> ('w, 'a, 'b) send_world \<Rightarrow> ('w \<times> 'l, 'a, 'b) send_world" where
  "logged l w = \<lparr>sw_pool = sw_pool w, sw_drivers = sw_drivers w, sw_env = (sw_env w, l)\<rparr>"

definition unlogged :: "('w \<times> 'l, 'a, 'b) send_world \<Rightarrow> ('w, 'a, 'b) send_world" where
  "unlogged w = \<lparr>sw_pool = sw_pool w, sw_drivers = sw_drivers w, sw_env = fst (sw_env w)\<rparr>"

definition record_sends ::
  "('w, 'a, 'b, 'rq, 'rs) send_ops \<Rightarrow> ('w \<times> (('a, 'b) sender \<times> 'rq) list, 'a, 'b, 'rq, 'rs) send_ops" where
  "record_sends S =
     \<lparr>so_connection_for = (\<lambda>key w. map_prod id (logged (snd (sw_env w))) (so_connection_for S key (unlogged w))),
      so_send = (\<lambda>s m w. map_prod id (logged (snd (sw_env w) @ [(s, m)])) (so_send S s m (unlogged w))),
      so_ready1 = so_ready1 S \<circ> fst, so_ready2 = so_ready2 S \<circ> fst, so_raced = so_raced S \<circ> fst,
      so_now = so_now S \<circ> fst\<rparr>"

lemma record_sends_simps:
  "so_connection_for (record_sends S) key w = (r, w') \<Longrightarrow> snd (sw_env w') = snd (sw_env w)"
  "so_send (record_sends S) s m w = (out, w') \<Longrightarrow> snd (sw_env w') = snd (sw_env w) @ [(s, m)]"
  by (auto simp: record_sends_def logged_def map_prod_def split: prod.splits)

lemma record_sends_returns: "returns_message S \<Longrightarrow> returns_message (record_sends S)"
  by (fastforce simp: returns_message_def record_sends_def map_prod_def split: prod.splits)

lemma drop_handle_env: "sw_env (drop_handle clone S h w) = sw_env w"
  by (simp add: drop_handle_def)

text \<open>
  \<open>same_request H r m\<close>: \<open>m\<close> has the method, the version and the body of \<open>r\<close>, and its header fields
  but for a Host field that \<open>r\<close> does not have.
\<close>

definition same_request :: "'h header_ops \<Rightarrow> ('u, 'h, 'd) request \<Rightarrow> ('u, 'h, 'd) request \<Rightarrow> bool" where
  "same_request H r m \<longleftrightarrow>
     rq_method m = rq_method r \<and> rq_version m = rq_version r \<and> rq_body m = rq_body r \<and>
     (\<forall>n. hm_get_all H (rq_headers m) n = hm_get_all H (rq_headers r) n \<or>
          n = ''host'' \<and> hm_get_all H (rq_headers r) n = [])"

lemma normalize_same:
  assumes "header_laws H" "normalize_http1_request U H F set_host r = Some n"
  shows "same_request H r n"
  using assms(2)
  by (auto simp: same_request_def normalize_http1_request_def synthesize_host_def Let_def bind_eq_Some_conv
      header_laws_get_all(3,4)[OF assms(1)] split: if_splits option.splits)

text \<open>The requests an attempt is made with: the first, or what a stale connection gave back.\<close>

definition attempted ::
  "'u uri_ops \<Rightarrow> 'h header_ops \<Rightarrow> field_ops \<Rightarrow> bool \<Rightarrow> ('u, 'h, 'd) request \<Rightarrow> ('u, 'h, 'd) request \<Rightarrow> bool" where
  "attempted U H F set_host r m \<longleftrightarrow>
     m = r \<or> (\<exists>n. normalize_http1_request U H F set_host r = Some n \<and> m = n\<lparr>rq_uri := rq_uri r\<rparr>)"

lemma attempted_facts:
  assumes "header_laws H" "attempted U H F set_host r m"
  shows "rq_uri m = rq_uri r" "same_request H r m"
    and "normalize_http1_request U H F set_host m = normalize_http1_request U H F set_host r"
proof -
  show "rq_uri m = rq_uri r" using assms(2) by (auto simp: attempted_def)
  show "same_request H r m"
    using assms(2) normalize_same[OF assms(1), of U F set_host r] by (auto simp: attempted_def same_request_def)
  show "normalize_http1_request U H F set_host m = normalize_http1_request U H F set_host r"
    using assms(2) normalize_again[OF assms(1), of U F set_host r] by (auto simp: attempted_def)
qed

text \<open>What a request may put on a connection, by the protocol of the connection.\<close>

definition faithful_send ::
  "'u uri_ops \<Rightarrow> 'h header_ops \<Rightarrow> field_ops \<Rightarrow> bool \<Rightarrow> ('u, 'h, 'd) request
     \<Rightarrow> ('a, 'b) sender \<times> ('u, 'h, 'd) request \<Rightarrow> bool" where
  "faithful_send U H F set_host r e \<longleftrightarrow>
     same_request H r (snd e) \<and>
     (case fst e of
        SenderHttp1 _ \<Rightarrow> normalize_http1_request U H F set_host r = Some (snd e)
      | SenderHttp2 _ \<Rightarrow> rq_uri (snd e) = rq_uri r)"

lemma attempt_faithful:
  fixes S :: "('w, 'a, 'b, ('u, 'h, 'd) request, 'rs) send_ops"
  assumes laws: "header_laws H" "returns_message S"
    and m: "attempted U H F (cf_set_host (cl_config C)) r m"
    and run: "try_send_request U H F clone C (record_sends S) m key w = Some (out, w')"
  shows "\<exists>new. snd (sw_env w') = snd (sw_env w) @ new \<and> length new \<le> 1 \<and>
     list_all (faithful_send U H F (cf_set_host (cl_config C)) r) new"
    and "out = Inl (Retryable m' e reused) \<Longrightarrow>
       attempted U H F (cf_set_host (cl_config C)) r (m'\<lparr>rq_uri := rq_uri r\<rparr>)"
proof -
  let ?h = "cf_set_host (cl_config C)"
  note facts = attempted_facts[OF laws(1) m]
  obtain c w1 where cf: "so_connection_for (record_sends S) key w = (c, w1)" "snd (sw_env w1) = snd (sw_env w)"
    using record_sends_simps(1) by (cases "so_connection_for (record_sends S) key w") blast
  have sent: "faithful_send U H F ?h r (pc_sender (pv_value h), x) \<and> attempted U H F ?h r (x\<lparr>rq_uri := rq_uri r\<rparr>)"
    if "(if pc_is_http1 (pv_value h) then normalize_http1_request U H F ?h m else Some m) = Some x"
    for h :: "('a, 'b) cpooled" and x
  proof (cases "pc_sender (pv_value h)")
    case (SenderHttp1 a)
    with that facts(3) have n: "normalize_http1_request U H F ?h r = Some x"
      by (simp add: pc_is_http1_def pc_is_http2_def)
    with SenderHttp1 normalize_same[OF laws(1) n] show ?thesis by (auto simp: faithful_send_def attempted_def)
  next
    case (SenderHttp2 b)
    with that have "x = m" by (simp add: pc_is_http1_def pc_is_http2_def)
    have "m\<lparr>rq_uri := rq_uri r\<rparr> = m" using facts(1) by simp
    then show ?thesis unfolding \<open>x = m\<close> using SenderHttp2 facts(1,2) m by (simp only:) (simp add: faithful_send_def)
  qed
  have step: "sw_env w' = sw_env w1 \<and> (\<forall>m' e re. out \<noteq> Inl (Retryable m' e re)) \<or>
    (\<exists>(h :: ('a, 'b) cpooled) x res w2. so_send (record_sends S) (pc_sender (pv_value h)) x w1 = (res, w2) \<and> sw_env w' = sw_env w2 \<and>
      (if pc_is_http1 (pv_value h) then normalize_http1_request U H F ?h m else Some m) = Some x \<and>
      (\<forall>m' e re. out = Inl (Retryable m' e re) \<longrightarrow> m' = x))"
  proof (cases c)
    case (Inr h)
    show ?thesis
    proof (cases "pc_is_http1 (pv_value h) \<and> rq_version m = HTTP_2")
      case False
      with run cf(1) Inr obtain x where x:
        "(if pc_is_http1 (pv_value h) then normalize_http1_request U H F ?h m else Some m) = Some x"
        by (auto simp: try_send_request_def split: if_splits option.splits)
      obtain res w2 where snd: "so_send (record_sends S) (pc_sender (pv_value h)) x w1 = (res, w2)"
        by (cases "so_send (record_sends S) (pc_sender (pv_value h)) x w1")
      have "sw_env w' = sw_env w2" "\<forall>m' e re. out = Inl (Retryable m' e re) \<longrightarrow> m' = x"
        using run cf(1) Inr False x snd returns_messageD[OF record_sends_returns[OF laws(2)]]
        by (auto simp: try_send_request_def Let_def drop_handle_env split: send_outcome.splits option.splits if_splits)
      with x snd show ?thesis by blast
    qed (use run cf(1) Inr in \<open>auto simp: try_send_request_def drop_handle_env\<close>)
  qed (use run cf(1) in \<open>auto simp: try_send_request_def\<close>)
  show "\<exists>new. snd (sw_env w') = snd (sw_env w) @ new \<and> length new \<le> 1 \<and> list_all (faithful_send U H F ?h r) new"
    using step cf(2) sent record_sends_simps(2) by (elim disjE exE conjE) fastforce+
  show "attempted U H F ?h r (m'\<lparr>rq_uri := rq_uri r\<rparr>)" if "out = Inl (Retryable m' e reused)"
    using step that sent by (elim disjE exE conjE) auto
qed

lemma send_request_faithful:
  fixes S :: "('w, 'a, 'b, ('u, 'h, 'd) request, 'rs) send_ops" and C :: "('n, 'h1, 'h2) client"
  assumes laws: "header_laws H" "returns_message S"
    and run: "send_request U H F clone C (record_sends S) (rq_uri r) m key w = Some out"
    and m: "attempted U H F (cf_set_host (cl_config C)) r m"
    and w: "list_all (faithful_send U H F (cf_set_host (cl_config C)) r) (snd (sw_env w))"
  shows "list_all (faithful_send U H F (cf_set_host (cl_config C)) r) (snd (sw_env (snd out)))"
proof -
  let ?ok = "\<lambda>w. list_all (faithful_send U H F (cf_set_host (cl_config C)) r) (snd (sw_env w))"
  let ?same = "\<lambda>U' H' F' (C' :: ('n, 'h1, 'h2) client) S' u m w. U' = U \<and> H' = H \<and> F' = F \<and> C' = C \<and>
    S' = record_sends S \<and> u = rq_uri r \<and> attempted U H F (cf_set_host (cl_config C)) r m \<and> ?ok w"
  have "?same U H F C (record_sends S) (rq_uri r) m w \<longrightarrow> ?ok (snd out)"
  proof (rule send_request.raw_induct[where P = "\<lambda>U' H' F' clone' C' S' u m key w out.
      ?same U' H' F' C' S' u m w \<longrightarrow> ?ok (snd out)", OF _ run], intro impI)
    fix rec U' H' F' clone' C' S' u m key w out
    assume IH: "\<And>U' H' F' clone' C' S' u m key w out. rec U' H' F' clone' C' S' u m key w = Some out \<Longrightarrow>
        ?same U' H' F' C' S' u m w \<longrightarrow> ?ok (snd out)"
      and body: "(case try_send_request U' H' F' clone' C' S' m key w of
        None \<Rightarrow> None
      | Some (Inr rs, w') \<Rightarrow> Some (Inr rs, w')
      | Some (Inl (FinalError e), w') \<Rightarrow> Some (Inl e, w')
      | Some (Inl (Retryable r' e reused), w') \<Rightarrow>
          if \<not> cf_retry_canceled_requests (cl_config C') \<or> \<not> reused then Some (Inl e, w')
          else rec U' H' F' clone' C' S' u (r'\<lparr>rq_uri := u\<rparr>) key
                 (w'\<lparr>sw_pool := record_events [StaleRetry key] (sw_pool w')\<rparr>)) = Some out"
      and same: "?same U' H' F' C' S' u m w"
    obtain res w1 where tried: "try_send_request U' H' F' clone' C' S' m key w = Some (res, w1)"
      using body by (auto split: option.splits)
    note one = attempt_faithful[OF laws, of U F C r m clone' key w res w1]
    have "?ok w1" using one(1) tried same by auto
    moreover have "attempted U H F (cf_set_host (cl_config C)) r (m'\<lparr>rq_uri := u\<rparr>)"
      if "res = Inl (Retryable m' e re)" for m' e re using one(2)[OF _ _ that] tried same by auto
    ultimately show "?ok (snd out)"
      using body tried same by (auto split: sum.splits try_send_error.splits if_splits dest!: IH)
  qed
  then show ?thesis using m w by simp
qed

text \<open>
  C12. A retry sends the same request.  In a run of \<open>send_request\<close>, through any number of retries
  and over whatever connections the pool yields, every message that is given to the HTTP library
  has the method, the version, the body and the header fields of the request, at most a Host field
  being added; on an HTTP/1 connection it is exactly what the first attempt would have put on the
  wire there, and on an HTTP/2 connection it has the absolute URI of the request, also when an
  earlier attempt has put it in origin form.  Without \<open>retry_canceled_requests\<close> at most one message
  is sent.
\<close>

theorem retry_resends_request:
  assumes "header_laws H" and "returns_message S"
    and "send_request U H F clone C (record_sends S) (rq_uri r) r key (logged [] w) = Some (res, w')"
  shows "list_all (\<lambda>(s, m). same_request H r m \<and>
           (case s of
              SenderHttp1 _ \<Rightarrow> normalize_http1_request U H F (cf_set_host (cl_config C)) r = Some m
            | SenderHttp2 _ \<Rightarrow> rq_uri m = rq_uri r)) (snd (sw_env w'))
    \<and> (\<not> cf_retry_canceled_requests (cl_config C) \<longrightarrow> length (snd (sw_env w')) \<le> 1)"
proof -
  note one = attempt_faithful[OF assms(1,2), of U F C r]
  have "list_all (faithful_send U H F (cf_set_host (cl_config C)) r) (snd (sw_env w'))"
    using send_request_faithful[OF assms] by (simp add: attempted_def logged_def)
  moreover have "length (snd (sw_env w')) \<le> 1" if "\<not> cf_retry_canceled_requests (cl_config C)"
  proof -
    from assms(3) that obtain out where
      "try_send_request U H F clone C (record_sends S) r key (logged [] w) = Some (out, w')"
      by (subst (asm) send_request.simps) (auto split: option.splits sum.splits try_send_error.splits)
    from one(1)[OF _ this] show ?thesis by (auto simp: attempted_def logged_def)
  qed
  ultimately show ?thesis by (auto simp: faithful_send_def list_all_iff case_prod_beta)
qed

text \<open>
  A client whose pool yields a stale HTTP/1 connection first, and then an HTTP/2 connection that
  answers.
\<close>

definition pooled_conn :: "(nat, nat) sender \<Rightarrow> connection_protocol \<Rightarrow> origin \<Rightarrow> (nat, nat) cpooled" where
  "pooled_conn s protocol key =
     \<lparr>pv_value = \<lparr>pc_sender = s, pc_connection_info = connection_info_new protocol\<rparr>,
      pv_is_reused = True, pv_key = key, pv_pool = False, pv_h1_slot = False\<rparr>"

definition demo_send :: "(bool, nat, nat, (demo_uri, (string \<times> bytes) list, bytes) request, nat) send_ops" where
  "demo_send =
     \<lparr>so_connection_for = (\<lambda>key w. (Inr
        (if sw_env w then pooled_conn (SenderHttp1 0) ConnHttp1 key else pooled_conn (SenderHttp2 1) ConnHttp2 key), w)),
      so_send = (\<lambda>s m w. if sw_env w then (SendErr (Some m) ''connection closed'', w\<lparr>sw_env := False\<rparr>)
                         else (SendOk 204, w)),
      so_ready1 = (\<lambda>_ _. False), so_ready2 = (\<lambda>_ _. False), so_raced = (\<lambda>_ _. False), so_now = (\<lambda>_. 0)\<rparr>"

definition demo_client_conf :: "(unit, unit, unit) client" where
  "demo_client_conf =
     \<lparr>cl_config = \<lparr>cf_retry_canceled_requests = True, cf_set_host = True, cf_protocol = ProtoAuto\<rparr>,
      cl_connector = (), cl_h1_builder = Some (), cl_h2_builder = Some ()\<rparr>"

definition demo_send_world :: "(bool, nat, nat) send_world" where
  "demo_send_world = \<lparr>sw_pool = \<lparr>pool_inner = None, debug_log = None\<rparr>, sw_drivers = [], sw_env = True\<rparr>"

theorem retry_resends_request_witness:
  "\<exists>res w' m1 m2. send_request demo_uris alist_headers demo_fields id demo_client_conf (record_sends demo_send)
       (rq_uri demo_request) demo_request \<lparr>origin_scheme = ''https'', origin_authority = ''a.example:443''\<rparr>
       (logged [] demo_send_world) = Some (Inr res, w') \<and>
     snd (sw_env w') = [(SenderHttp1 0, m1), (SenderHttp2 1, m2)] \<and>
     rq_uri m1 \<noteq> rq_uri demo_request \<and> rq_uri m2 = rq_uri demo_request \<and> same_request alist_headers demo_request m2"
proof -
  let ?key = "\<lparr>origin_scheme = ''https'', origin_authority = ''a.example:443''\<rparr>"
  let ?run = "send_request demo_uris alist_headers demo_fields id demo_client_conf (record_sends demo_send)
       (rq_uri demo_request) demo_request ?key (logged [] demo_send_world)"
  define n where "n = demo_request\<lparr>rq_uri := (None, None, Some ''/x?y''),
      rq_headers := [(''accept'', ''all''), (''host'', ''a.example'')]\<rparr>"
  have norm: "normalize_http1_request demo_uris alist_headers demo_fields True demo_request = Some n"
    unfolding n_def by code_simp
  note defs = record_sends_def demo_send_def demo_client_conf_def demo_send_world_def logged_def unlogged_def
    pooled_conn_def pc_is_http1_def pc_is_http2_def drop_handle_def pooled_drop_def so_open_def
    try_send_request_def Let_def
  have version: "rq_version demo_request \<noteq> HTTP_2" "rq_version n \<noteq> HTTP_2"
    by (simp_all add: n_def demo_request_def)
  have "\<exists>res w'. ?run = Some (Inr res, w') \<and>
      snd (sw_env w') = [(SenderHttp1 0, n), (SenderHttp2 1, n\<lparr>rq_uri := rq_uri demo_request\<rparr>)]"
    by (subst send_request.simps, subst send_request.simps) (simp add: defs norm version)
  then obtain res w' where run: "?run = Some (Inr res, w')"
    and log: "snd (sw_env w') = [(SenderHttp1 0, n), (SenderHttp2 1, n\<lparr>rq_uri := rq_uri demo_request\<rparr>)]"
    by blast
  have "returns_message demo_send"
    by (auto simp: returns_message_def demo_send_def split: if_splits)
  from retry_resends_request[OF header_laws_alist this run] log run show ?thesis
    by (auto simp: n_def demo_request_def)
qed

text \<open>
  The builders of HTTP/1-only clients: \<^verbatim>\<open>http1_only\<close> was called, and after it any other method but
  \<^verbatim>\<open>http2_only\<close>, which chooses another protocol; a connector may be given before and after.
\<close>

inductive http1_built :: "(('u, 's, 'tls, 'core, 'tm) connector, 'h1, 'h2) client_builder \<Rightarrow> bool" where
  only: "http1_built (bd_http1_only connector_force_http1 b)"
| connector: "http1_built b \<Longrightarrow> http1_built (bd_set_connector connector_force_http1 k b)"
| idle_timeout: "http1_built b \<Longrightarrow> http1_built (bd_pool_idle_timeout d b)"
| max_idle: "http1_built b \<Longrightarrow> http1_built (bd_pool_max_idle_per_host n b)"
| max_connections: "http1_built b \<Longrightarrow> http1_built (bd_pool_max_connections_per_host n b)"
| timer: "http1_built b \<Longrightarrow> http1_built (bd_set_pool_timer b)"
| event_log: "http1_built b \<Longrightarrow> http1_built (bd_debug_event_log b)"
| with_host: "http1_built b \<Longrightarrow> http1_built (bd_set_host e b)"
| retry: "http1_built b \<Longrightarrow> http1_built (bd_retry_canceled_requests e b)"
| settings: "http1_built b \<Longrightarrow> http1_built (bd_http2_settings B s b)"

lemmas builder_defs = bd_http1_only_def bd_set_connector_def bd_pool_idle_timeout_def bd_pool_max_idle_per_host_def
  bd_pool_max_connections_per_host_def bd_set_pool_timer_def bd_debug_event_log_def bd_set_host_def
  bd_retry_canceled_requests_def bd_http2_settings_def

lemma http1_built_protocol: "http1_built b \<Longrightarrow> cf_protocol (bd_config b) = ProtoHttp1"
  by (induction rule: http1_built.induct) (simp_all add: builder_defs)

text \<open>An establishment of a client: polled, any number of times, from its start.\<close>

inductive establishing ::
  "('b \<Rightarrow> 'b) \<Rightarrow> ('n, 'h1, 'h2) client \<Rightarrow> origin \<Rightarrow> 'a itself \<Rightarrow> ('s, 'tls) connect_task \<Rightarrow> bool"
  for clone :: "'b \<Rightarrow> 'b" and C :: "('n, 'h1, 'h2) client" and key :: origin and senders :: "'a itself" where
  start: "establishing clone C key senders CtStart"
| polled: "establishing clone C key senders t \<Longrightarrow>
     connect_to clone C (E :: ('s, 'tls, 'h1, 'h2, 'a, 'b) poll_env) key t p = (out, t', p') \<Longrightarrow>
     establishing clone C key senders t'"

fun http1_task :: "('s, 'tls) connect_task \<Rightarrow> bool" where
  "http1_task (CtHandshaking g cd info) \<longleftrightarrow> cd_protocol cd = ConnHttp1"
| "http1_task _ \<longleftrightarrow> True"

lemma ct_handshake_http1:
  assumes "cd_protocol cd = ConnHttp1" "ct_handshake clone C E g cd info p = (out, t', p')"
  shows "http1_task t' \<and> (\<forall>h. out = Ready (Inr h) \<longrightarrow> pc_is_http1 (pv_value h))"
proof (cases "handshake C E cd info")
  case (Ready r)
  show ?thesis
  proof (cases r)
    case (Inr conn)
    have "\<exists>s. pc_sender conn = SenderHttp1 s"
      using assms(1) Ready Inr
      by (auto simp: handshake_def split: option.splits elim!: handshake_result.elims)
    then show ?thesis
      using assms(2) Ready Inr
      by (auto simp: ct_handshake_def Let_def pool_pooled_def pool_client_item_def pc_reserve_def pc_is_http1_def
          pc_is_http2_def split: option.splits prod.splits)
  qed (use assms(2) Ready in \<open>auto simp: ct_handshake_def\<close>)
qed (use assms in \<open>auto simp: ct_handshake_def\<close>)

lemma connect_to_http1:
  assumes "cf_protocol (cl_config C) = ProtoHttp1" "http1_task t" "connect_to clone C E key t p = (out, t', p')"
  shows "http1_task t' \<and> (\<forall>h. out = Ready (Inr h) \<longrightarrow> pc_is_http1 (pv_value h))"
proof -
  have "http1_task t' \<and> (\<forall>h. out = Ready (Inr h) \<longrightarrow> pc_is_http1 (pv_value h))"
    if "ct_connected clone C E key g cd p = (out, t', p')" for g cd p
    using that assms(1) ct_handshake_http1[of cd clone C E]
    by (cases "cd_protocol cd") (auto simp: ct_connected_def Let_def)
  then have connecting: "http1_task t' \<and> (\<forall>h. out = Ready (Inr h) \<longrightarrow> pc_is_http1 (pv_value h))"
    if "ct_connecting clone C E key g p = (out, t', p')" for g p
    using that by (auto simp: ct_connecting_def split: option.splits sum.splits)
  show ?thesis
    using assms(2,3) connecting ct_handshake_http1[of _ clone C E]
    by (cases t) (auto split: prod.splits option.splits)
qed

lemma establishing_http1:
  assumes "cf_protocol (cl_config C) = ProtoHttp1" "establishing clone C key ty t"
  shows "http1_task t"
  using assms(2) by (induction rule: establishing.induct) (auto dest: connect_to_http1[OF assms(1)])

text \<open>
  C19. An HTTP/1-only client establishes no HTTP/2 connection.  Let a client be built by a builder
  on which \<^verbatim>\<open>http1_only\<close> was called, whatever else but \<^verbatim>\<open>http2_only\<close> was called after it.  With
  whatever connector, a custom dialer that answers with HTTP/2 included, an establishment that is
  polled to its end yields an HTTP/1 connection or an error.  With a built-in connector, also one
  given after \<^verbatim>\<open>http1_only\<close>, TLS does not even negotiate HTTP/2: an \<^verbatim>\<open>https\<close> connection comes with
  the HTTP/1 protocol, and requiring HTTP/2 fails.  The TLS library is assumed to negotiate only
  an offered ALPN protocol.
\<close>

theorem http1_only_client_never_h2:
  fixes b :: "(('u, 's, 'tls, 'core, 'tm) connector, 'h1, 'h2) client_builder"
  assumes "http1_built b" and "builder_build connector_force_http1 b = (C, p0 :: ('a, 'b) cpool)"
  shows "(establishing clone C key TYPE('a) t \<longrightarrow>
            connect_to clone C (E :: ('s, 'tls, 'h1, 'h2, 'a, 'b) poll_env) key t p = (Ready (Inr h), t', p') \<longrightarrow>
            pc_is_http1 (pv_value h)) \<and>
     (alpn_laws T \<longrightarrow> uri_scheme U uri = Some ''https'' \<longrightarrow> (\<nexists>d. kn_kind (cl_connector C) = CustomDialer d) \<longrightarrow>
        client_connect U (cl_connector C) T uri require_h2 = Some (Inr cd) \<longrightarrow>
        cd_protocol cd = ConnHttp1 \<and> \<not> require_h2)"
proof -
  have http1: "cf_protocol (bd_config b) = ProtoHttp1" by (rule http1_built_protocol[OF assms(1)])
  then have C: "cf_protocol (cl_config C) = ProtoHttp1" "cl_connector C = connector_force_http1 (bd_connector b)"
    using assms(2) by (auto simp: builder_build_def)
  then have kind: "kn_kind (cl_connector C) = kn_kind (bd_connector b)"
    by (simp add: connector_force_http1_def)
  show ?thesis
    using establishing_http1[OF C(1)] connect_to_http1[OF C(1)] forced_http1_never_h2[of T U uri "bd_connector b"]
    unfolding kind unfolding C(2) by blast
qed

text \<open>What a poll finds when the connector and the handshake are through.\<close>

definition demo_poll :: "connection_protocol \<Rightarrow> (nat, nat, unit, unit, nat, nat) poll_env" where
  "demo_poll protocol =
     \<lparr>pe_connect = Some (Inr (connected_new (TlsStream 6) protocol)),
      pe_handshake1 = (\<lambda>_ _. Some (Inr (1, Inr ()))), pe_handshake2 = (\<lambda>_ _. Some (Inr (2, Inr ()))),
      pe_connect_elapsed = 3, pe_handshake_elapsed = 4, pe_open = (\<lambda>_. True), pe_raced = (\<lambda>_. False), pe_now = 0\<rparr>"

definition demo_builder :: "((demo_uri, nat, nat, unit, unit) connector, unit, unit) client_builder" where
  "demo_builder =
     bd_set_connector connector_force_http1 demo_connector
       (bd_http1_only connector_force_http1 (builder_new demo_connector (Some ()) (Some ())))"

definition disabled_pool :: "(nat, nat) cpool" where
  "disabled_pool = \<lparr>pool_inner = None, debug_log = None\<rparr>"

theorem http1_only_client_never_h2_witness:
  "\<exists>C p0 cd h t' p'. builder_build connector_force_http1 demo_builder = (C, p0 :: (nat, nat) cpool) \<and>
     client_connect demo_uris (cl_connector C) demo_transport (Some ''https'', Some ''h'', Some ''/'') False
       = Some (Inr cd) \<and> cd_protocol cd = ConnHttp1 \<and>
     connect_to id C (demo_poll ConnHttp1) \<lparr>origin_scheme = ''https'', origin_authority = ''h''\<rparr> CtStart disabled_pool
       = (Ready (Inr h), t', p') \<and> pc_is_http1 (pv_value h) \<and>
     fst (connect_to id C (demo_poll ConnHttp2) \<lparr>origin_scheme = ''https'', origin_authority = ''h''\<rparr> CtStart disabled_pool)
       = Ready (Inl (client_error_new Alpn))"
proof -
  let ?u = "(Some ''https'', Some ''h'', Some ''/'') :: demo_uri"
  let ?key = "\<lparr>origin_scheme = ''https'', origin_authority = ''h''\<rparr>"
  define C where "C = fst (builder_build connector_force_http1 demo_builder :: _ \<times> (nat, nat) cpool)"
  have C: "builder_build connector_force_http1 demo_builder =
      (C, snd (builder_build connector_force_http1 demo_builder :: _ \<times> (nat, nat) cpool))" (is "_ = (C, ?p0)")
    by (simp add: C_def)
  let ?cd = "with_addresses (connected_new (TlsStream 6 :: (nat, nat) established_io) ConnHttp1) None (Some (V4 1 443))"
  have run: "client_connect demo_uris (cl_connector C) demo_transport ?u False = Some (Inr ?cd)"
    unfolding C_def by code_simp
  have refused: "fst (connect_to id C (demo_poll ConnHttp2) ?key CtStart disabled_pool) =
      Ready (Inl (client_error_new Alpn))"
    unfolding C_def by code_simp
  have "\<exists>h t' p'. connect_to id C (demo_poll ConnHttp1) ?key CtStart disabled_pool = (Ready (Inr h), t', p')"
    by (simp add: C_def builder_build_def demo_builder_def builder_defs builder_new_def demo_poll_def disabled_pool_def
        pool_connecting_def ct_connecting_def ct_connected_def ct_handshake_def handshake_def connected_new_def
        pool_pooled_def Let_def record_events_def)
  then obtain h t' p' where est:
    "connect_to id C (demo_poll ConnHttp1) ?key CtStart disabled_pool = (Ready (Inr h), t', p')" by blast
  have built: "http1_built demo_builder" unfolding demo_builder_def by (intro http1_built.intros)
  have pre: "alpn_laws demo_transport" "uri_scheme demo_uris ?u = Some ''https''"
    "\<nexists>d. kn_kind (cl_connector C) = CustomDialer d"
    by (auto simp: alpn_laws_def demo_transport_def demo_uris_def C_def builder_build_def demo_builder_def builder_defs
        builder_new_def connector_force_http1_def demo_connector_def with_tls_config_def split: if_splits)
  note never = http1_only_client_never_h2[OF built C]
  have "pc_is_http1 (pv_value h)"
    by (rule conjunct1[OF never, THEN mp, THEN mp, OF establishing.start est])
  moreover have "cd_protocol ?cd = ConnHttp1"
    by (rule conjunct2[OF never, THEN mp, THEN mp, THEN mp, THEN mp, OF pre run, THEN conjunct1])
  ultimately show ?thesis using C run est refused
    by (intro exI[of _ C] exI[of _ ?p0] exI[of _ ?cd] exI[of _ h] exI[of _ t'] exI[of _ p'] conjI)
qed

end
