(* ===== verification/Client_Tasks.thy ===== *)
theory Client_Tasks
  imports Client_Request
begin

text \<open>
  The tasks of the futures-based client (\<^verbatim>\<open>src/crates/h12tiny-client/src/lib.rs\<close>) acting on its
  connection pool (\<^verbatim>\<open>src/crates/h12tiny-client/src/pool.rs\<close>): every poll and every cancellation of a
  task is a sequence of steps of the pool, so the invariants of the pool hold of the client.
\<close>

section \<open>The client's tasks as steps of the pool\<close>

fun ct_guards :: "('s, 'tls) connect_task \<Rightarrow> origin connecting multiset" where
  "ct_guards (CtConnecting g) = {#g#}"
| "ct_guards (CtHandshaking g cd info) = {#g#}"
| "ct_guards _ = {#}"

fun aq_guards :: "('s, 'tls) acquire_task \<Rightarrow> origin connecting multiset" where
  "aq_guards (AqDirect ct) = ct_guards ct"
| "aq_guards (AqSelect ck ct) = ct_guards ct"
| "aq_guards (AqConnect ct) = ct_guards ct"
| "aq_guards _ = {#}"

fun aq_checkouts :: "('s, 'tls) acquire_task \<Rightarrow> origin checkout multiset" where
  "aq_checkouts (AqSelect ck ct) = {#ck#}"
| "aq_checkouts (AqCheckout ck) = {#ck#}"
| "aq_checkouts _ = {#}"

fun acquired_handle :: "('e, ('a, 'b) cpooled) result poll \<Rightarrow> ('a, 'b) cpooled multiset" where
  "acquired_handle (Ready (Inr h)) = {#h#}"
| "acquired_handle _ = {#}"

lemma poll_result_cases [case_names ready waiting failed]:
  obtains h where "x = Ready (Inr h)" | "x = Pending" | e where "x = Ready (Inl e)"
  by (metis poll.exhaust sum.exhaust)

text \<open>
  The guard of a task fits the protocol it is establishing: with the pool enabled (\<open>en\<close>), it holds
  an HTTP/1 slot exactly for an HTTP/1 connection.
\<close>

fun ct_ok :: "bool \<Rightarrow> ('n, 'h1, 'h2) client \<Rightarrow> ('s, 'tls) connect_task \<Rightarrow> bool" where
  "ct_ok en C (CtConnecting g) = (en \<longrightarrow> cn_h1_slot g = (cf_protocol (cl_config C) \<noteq> ProtoHttp2))"
| "ct_ok en C (CtHandshaking g cd info) = (en \<longrightarrow> cn_h1_slot g = (cd_protocol cd = ConnHttp1))"
| "ct_ok en C _ = True"

fun aq_ok :: "bool \<Rightarrow> ('n, 'h1, 'h2) client \<Rightarrow> ('s, 'tls) acquire_task \<Rightarrow> bool" where
  "aq_ok en C (AqDirect ct) = ct_ok en C ct"
| "aq_ok en C (AqSelect ck ct) = ct_ok en C ct"
| "aq_ok en C (AqConnect ct) = ct_ok en C ct"
| "aq_ok en C _ = True"

text \<open>A connector honours the requirement of HTTP/2.\<close>

definition env_ok :: "('n, 'h1, 'h2) client \<Rightarrow> ('s, 'tls, 'h1, 'h2, 'a, 'b) poll_env \<Rightarrow> bool" where
  "env_ok C E \<longleftrightarrow>
     (\<forall>cd. pe_connect E = Some (Inr cd) \<longrightarrow> cf_protocol (cl_config C) = ProtoHttp2 \<longrightarrow> cd_protocol cd = ConnHttp2)"

abbreviation cworld ::
  "('a, 'b) cpool \<Rightarrow> origin connecting multiset \<Rightarrow> ('a, 'b) cpooled multiset \<Rightarrow> origin checkout multiset
     \<Rightarrow> (origin, ('a, 'b) conn) world" where
  "cworld p cs hs ks \<equiv> \<lparr>w_pool = p, w_connecting = cs, w_pooled = hs, w_checkouts = ks\<rparr>"

abbreviation creach ::
  "('b \<Rightarrow> 'b) \<Rightarrow> pool_config \<Rightarrow> bool \<Rightarrow> bool \<Rightarrow> (origin, ('a, 'b) conn) world \<Rightarrow> bool" where
  "creach clone cfg timer debug w \<equiv> pool_reachable (pool_client_item clone) cfg timer debug w"

lemma can_share_item [simp]: "can_share (pool_client_item clone) c = pc_is_http2 c"
  by (simp add: pool_client_item_def)

lemma reachable_enabled:
  assumes "creach clone cfg timer debug w"
  shows "is_enabled (w_pool w) = config_enabled cfg"
  using assms
proof (induction rule: pool_reachable.induct)
  case (step w w')
  then show ?case
    using pc.pool_step_inv[OF step.hyps(2) pc.reachable_inv[OF step.hyps(1)]] pc.pool_step_disabled[OF step.hyps(2)]
    by (cases "pool_inner (w_pool w)") (auto simp: is_enabled_def)
qed (simp add: initial_world_def pool_new_def is_enabled_def)

lemma reach_drop_guard:
  "creach clone cfg tm db (cworld p (add_mset g cs) hs ks)
   \<Longrightarrow> creach clone cfg tm db (cworld (connecting_drop g p) cs hs ks)"
  by (drule pool_reachable.step, rule pool_step.drop_connecting) auto

lemma reach_drop_checkout:
  "creach clone cfg tm db (cworld p cs hs (add_mset c ks))
   \<Longrightarrow> creach clone cfg tm db (cworld (checkout_drop c p) cs hs ks)"
  by (drule pool_reachable.step, rule pool_step.drop_checkout) auto

lemma reach_observe:
  "creach clone cfg tm db (cworld p cs hs ks) \<Longrightarrow> creach clone cfg tm db (cworld (record_events evs p) cs hs ks)"
  by (drule pool_reachable.step, rule pool_step.observe[of _ _ evs]) simp

lemma reach_checkout:
  "creach clone cfg tm db (cworld p cs hs ks) \<Longrightarrow> pool_checkout k p = (c, p')
   \<Longrightarrow> creach clone cfg tm db (cworld p' cs hs (add_mset c ks))"
  by (drule pool_reachable.step, rule pool_step.new_checkout) auto

lemma reach_poll:
  assumes "creach clone cfg tm db (cworld p cs hs (add_mset c ks))"
    and "checkout_poll (pool_client_item clone) opn now c p = (r, c', p')"
  shows "creach clone cfg tm db (cworld p' cs (acquired_handle r + hs) (add_mset c' ks))"
proof (cases r rule: poll_result_cases)
  case (ready h)
  then show ?thesis
    using pool_reachable.step[OF assms(1) pool_step.poll_ready[of _ c ks _ opn now h c' p']] assms(2) by simp
next
  case waiting
  then show ?thesis
    using pool_reachable.step[OF assms(1) pool_step.poll_pending[of _ c ks _ opn now c' p']] assms(2) by simp
next
  case (failed e)
  then show ?thesis
    using pool_reachable.step[OF assms(1) pool_step.poll_failed[of _ c ks _ opn now e c' p']] assms(2) by simp
qed

lemma reach_connecting:
  assumes "creach clone cfg tm db (cworld p cs hs ks)" and "pool_connecting k proto p = (r, p')"
  shows "creach clone cfg tm db (cworld p' ((case r of Some c \<Rightarrow> {#c#} | None \<Rightarrow> {#}) + cs) hs ks)"
  using pool_reachable.step[OF assms(1) pool_step.start_connecting[of k proto _ r p']] assms(2) by simp

lemma reach_alpn_h2:
  assumes "creach clone cfg tm db (cworld p (add_mset g cs) hs ks)" and "alpn_h2 g p = (r, p')"
  shows "creach clone cfg tm db (cworld p' ((case r of Some c \<Rightarrow> {#c#} | None \<Rightarrow> {#}) + cs) hs ks)"
  using pool_reachable.step[OF assms(1) pool_step.negotiated_h2[of _ g cs r p']] assms(2) by simp

lemma reach_established:
  assumes "creach clone cfg tm db (cworld p (add_mset g cs) hs ks)"
    and "pool_pooled (pool_client_item clone) raced now g v p = (h, p')"
    and "config_enabled cfg \<longrightarrow> cn_h1_slot g = (\<not> pc_is_http2 v)"
  shows "creach clone cfg tm db (cworld p' cs (add_mset h hs) ks)"
  using pool_reachable.step[OF assms(1) pool_step.established[of _ g cs _ v raced now h p']]
    assms(2,3) reachable_enabled[OF assms(1)] by simp

lemmas reach_intros = reach_drop_guard reach_drop_checkout reach_observe reach_checkout

section \<open>Polls preserve reachability\<close>

lemma handshake_result_sender:
  "handshake_result mk info r = Ready (Inr conn) \<Longrightarrow> \<exists>x. pc_sender conn = mk x"
  by (cases "(mk, info, r)" rule: handshake_result.cases) auto

lemma handshake_protocol:
  assumes "handshake C E cd info = Ready (Inr conn)"
  shows "pc_is_http2 conn \<longleftrightarrow> cd_protocol cd = ConnHttp2"
  using assms
  by (auto simp: handshake_def pc_is_http2_def dest!: handshake_result_sender
      split: connection_protocol.splits option.splits)

lemma pool_connecting_slot:
  "pool_connecting k proto p = (Some g, p') \<Longrightarrow> is_enabled p \<Longrightarrow> cn_h1_slot g = (proto \<noteq> ProtoHttp2)"
  by (auto simp: pool_connecting_def is_enabled_def split: option.splits if_splits prod.splits)

lemma alpn_h2_slot: "alpn_h2 g p = (Some g', p') \<Longrightarrow> cn_h1_slot g' = False"
  by (auto simp: alpn_h2_def pool_connecting_def split: option.splits if_splits prod.splits)

lemma ct_handshake_reach:
  assumes "creach clone cfg tm db (cworld p (add_mset g cs) hs ks)"
    and "config_enabled cfg \<longrightarrow> cn_h1_slot g = (cd_protocol cd = ConnHttp1)"
    and "ct_handshake clone C E g cd info p = (r, ct', p')"
  shows "creach clone cfg tm db (cworld p' (ct_guards ct' + cs) (acquired_handle r + hs) ks)
    \<and> ct_ok (config_enabled cfg) C ct'"
proof (cases "handshake C E cd info")
  case Pending
  then show ?thesis using assms by (auto simp: ct_handshake_def)
next
  case (Ready x)
  show ?thesis
  proof (cases x)
    case (Inl e)
    then show ?thesis using assms Ready reach_drop_guard[OF assms(1)] by (auto simp: ct_handshake_def)
  next
    case (Inr conn)
    let ?conn = "conn\<lparr>pc_connection_info := (pc_connection_info conn)\<lparr>ci_handshake_duration := Some (pe_handshake_elapsed E)\<rparr>\<rparr>"
    obtain h q where q: "pool_pooled (pool_client_item clone) (pe_raced E) (pe_now E) g ?conn p = (h, q)"
      by fastforce
    have "pc_is_http2 ?conn = pc_is_http2 conn"
      by (simp add: pc_is_http2_def)
    then have "config_enabled cfg \<longrightarrow> cn_h1_slot g = (\<not> pc_is_http2 ?conn)"
      using assms(2) handshake_protocol[of C E cd info conn] Ready Inr by (cases "cd_protocol cd") auto
    from reach_established[OF assms(1) q this] show ?thesis
      using assms(3) Ready Inr q by (auto simp: ct_handshake_def)
  qed
qed

lemma ct_connected_reach:
  assumes "creach clone cfg tm db (cworld p (add_mset g cs) hs ks)"
    and "config_enabled cfg \<longrightarrow> cn_h1_slot g = (cf_protocol (cl_config C) \<noteq> ProtoHttp2)"
    and "cf_protocol (cl_config C) = ProtoHttp2 \<longrightarrow> cd_protocol cd = ConnHttp2"
    and "ct_connected clone C E key g cd p = (r, ct', p')"
  shows "creach clone cfg tm db (cworld p' (ct_guards ct' + cs) (acquired_handle r + hs) ks)
    \<and> ct_ok (config_enabled cfg) C ct'"
proof -
  define p1 where "p1 = record_events (established_events key (cd_protocol cd)) p"
  define info where "info = (cd_info cd)\<lparr>ci_connect_duration := Some (pe_connect_elapsed E)\<rparr>"
  have r1: "creach clone cfg tm db (cworld p1 (add_mset g cs) hs ks)"
    unfolding p1_def by (rule reach_observe[OF assms(1)])
  show ?thesis
  proof (cases "cd_protocol cd = ConnHttp2 \<and> cf_protocol (cl_config C) \<noteq> ProtoHttp2")
    case False
    then have "config_enabled cfg \<longrightarrow> cn_h1_slot g = (cd_protocol cd = ConnHttp1)"
      using assms(2,3) by (cases "cd_protocol cd") auto
    moreover have "ct_handshake clone C E g cd info p1 = (r, ct', p')"
      using assms(4) False unfolding ct_connected_def Let_def p1_def info_def by (simp split: if_splits)
    ultimately show ?thesis
      using ct_handshake_reach[OF r1] by blast
  next
    case True
    show ?thesis
    proof (cases "cf_protocol (cl_config C) = ProtoHttp1")
      case True
      with \<open>cd_protocol cd = ConnHttp2 \<and> _\<close> show ?thesis
        using assms(4) reach_drop_guard[OF r1] by (auto simp: ct_connected_def Let_def p1_def)
    next
      case False
      obtain a q where a: "alpn_h2 g p1 = (a, q)" by fastforce
      note r2 = reach_alpn_h2[OF r1 a]
      show ?thesis
      proof (cases a)
        case None
        then show ?thesis using assms(4) True False a r2 by (auto simp: ct_connected_def Let_def p1_def)
      next
        case (Some g')
        then have "ct_handshake clone C E g' cd info q = (r, ct', p')"
          using assms(4) True False a by (auto simp: ct_connected_def Let_def p1_def info_def)
        moreover have "config_enabled cfg \<longrightarrow> cn_h1_slot g' = (cd_protocol cd = ConnHttp1)"
          using True alpn_h2_slot[of g p1 g' q] a Some by simp
        ultimately show ?thesis
          using ct_handshake_reach[of clone cfg tm db q g' cs hs ks cd C E info r ct' p'] r2 Some by simp
      qed
    qed
  qed
qed

lemma ct_connecting_reach:
  assumes "creach clone cfg tm db (cworld p (add_mset g cs) hs ks)" and "env_ok C E"
    and "config_enabled cfg \<longrightarrow> cn_h1_slot g = (cf_protocol (cl_config C) \<noteq> ProtoHttp2)"
    and "ct_connecting clone C E key g p = (r, ct', p')"
  shows "creach clone cfg tm db (cworld p' (ct_guards ct' + cs) (acquired_handle r + hs) ks)
    \<and> ct_ok (config_enabled cfg) C ct'"
proof (cases "pe_connect E")
  case None
  then show ?thesis using assms by (auto simp: ct_connecting_def)
next
  case (Some x)
  show ?thesis
  proof (cases x)
    case (Inl e)
    then show ?thesis using assms Some reach_drop_guard[OF assms(1)] by (auto simp: ct_connecting_def)
  next
    case (Inr cd)
    then show ?thesis
      using assms Some ct_connected_reach[OF assms(1,3), of cd E key r ct' p']
      by (simp add: ct_connecting_def env_ok_def)
  qed
qed

lemma connect_to_reach:
  assumes "creach clone cfg tm db (cworld p (ct_guards ct + cs) hs ks)" and "env_ok C E"
    and "ct_ok (config_enabled cfg) C ct" and "connect_to clone C E key ct p = (r, ct', p')"
  shows "creach clone cfg tm db (cworld p' (ct_guards ct' + cs) (acquired_handle r + hs) ks)
    \<and> ct_ok (config_enabled cfg) C ct'"
proof (cases ct)
  case CtStart
  obtain a q where a: "pool_connecting key (cf_protocol (cl_config C)) p = (a, q)" by fastforce
  have r0: "creach clone cfg tm db (cworld p cs hs ks)" using assms(1) CtStart by simp
  show ?thesis
  proof (cases a)
    case None
    then show ?thesis using assms(4) CtStart a reach_connecting[OF r0 a] by auto
  next
    case (Some g)
    then have "config_enabled cfg \<longrightarrow> cn_h1_slot g = (cf_protocol (cl_config C) \<noteq> ProtoHttp2)"
      using reachable_enabled[OF r0] pool_connecting_slot[of key _ p g q] a by simp
    then show ?thesis
      using ct_connecting_reach[of clone cfg tm db q g cs hs ks C E key r ct' p'] assms(2,4)
        reach_connecting[OF r0 a] CtStart a Some by simp
  qed
next
  case (CtConnecting g)
  then show ?thesis using assms ct_connecting_reach[of clone cfg tm db p g cs hs ks C E key r ct' p'] by simp
next
  case (CtHandshaking g cd info)
  then show ?thesis using assms ct_handshake_reach[of clone cfg tm db p g cs hs ks cd C E info r ct' p'] by simp
qed (use assms in auto)

lemma ct_handshake_done: "ct_handshake clone C E g cd info p = (Ready x, ct', p') \<Longrightarrow> ct' = CtDone"
  by (auto simp: ct_handshake_def Let_def split: poll.splits sum.splits prod.splits)

lemma ct_connected_done: "ct_connected clone C E key g cd p = (Ready x, ct', p') \<Longrightarrow> ct' = CtDone"
  by (auto simp: ct_connected_def Let_def dest: ct_handshake_done split: if_splits prod.splits option.splits)

lemma ct_connecting_done: "ct_connecting clone C E key g p = (Ready x, ct', p') \<Longrightarrow> ct' = CtDone"
  by (auto simp: ct_connecting_def dest: ct_connected_done split: option.splits sum.splits)

lemma connect_to_done: "connect_to clone C E key ct p = (Ready x, ct', p') \<Longrightarrow> ct' = CtDone"
  by (cases ct) (auto dest: ct_connecting_done ct_handshake_done split: prod.splits option.splits)

lemma connect_task_drop_reach:
  "creach clone cfg tm db (cworld p (ct_guards ct + cs) hs ks)
   \<Longrightarrow> creach clone cfg tm db (cworld (connect_task_drop ct p) cs hs ks)"
  by (cases ct) (auto intro: reach_drop_guard)

text \<open>
  A poll of a task turns the task's guards and checkouts, and a handle for a connection it
  returns, into those of the next task, along steps of the pool.
\<close>

definition poll_simulated ::
  "('b \<Rightarrow> 'b) \<Rightarrow> pool_config \<Rightarrow> bool \<Rightarrow> bool \<Rightarrow> ('n, 'h1, 'h2) client \<Rightarrow> ('e, ('a, 'b) cpooled) result poll
     \<Rightarrow> ('s, 'tls) acquire_task \<Rightarrow> ('a, 'b) cpool \<Rightarrow> origin connecting multiset
     \<Rightarrow> ('a, 'b) cpooled multiset \<Rightarrow> origin checkout multiset \<Rightarrow> bool" where
  "poll_simulated clone cfg tm db C r t' p' cs hs ks \<longleftrightarrow>
     creach clone cfg tm db (cworld p' (aq_guards t' + cs) (acquired_handle r + hs) (aq_checkouts t' + ks))
     \<and> aq_ok (config_enabled cfg) C t'"

lemma aq_connect_only_reach:
  assumes "creach clone cfg tm db (cworld p (ct_guards ct + cs) hs ks)" and "env_ok C E"
    and "ct_ok (config_enabled cfg) C ct" and "aq_connect_only mk clone C E key ct p = (r, t', p')"
    and "mk = AqDirect \<or> mk = AqConnect"
  shows "poll_simulated clone cfg tm db C r t' p' cs hs ks"
proof -
  obtain x ct' q where q: "connect_to clone C E key ct p = (x, ct', q)" by (metis prod_cases3)
  note sim = connect_to_reach[OF assms(1-3) q]
  show ?thesis
  proof (cases x rule: poll_result_cases)
    case (ready h)
    then show ?thesis
      using assms(4) q sim connect_to_done[of clone C E key ct p _ ct' q]
      by (auto simp: aq_connect_only_def poll_simulated_def)
  next
    case waiting
    then show ?thesis using assms(4,5) q sim by (auto simp: aq_connect_only_def poll_simulated_def)
  next
    case (failed e)
    then show ?thesis
      using assms(4) q sim connect_to_done[of clone C E key ct p _ ct' q]
      by (auto simp: aq_connect_only_def poll_simulated_def)
  qed
qed

lemma aq_checkout_only_reach:
  assumes "creach clone cfg tm db (cworld p cs hs (add_mset ck ks))"
    and "aq_checkout_only clone E ck p = (r, t', p')"
  shows "poll_simulated clone cfg tm db C r t' p' cs hs ks"
proof -
  obtain x ck' q where q: "checkout_poll (pool_client_item clone) (pe_open E) (pe_now E) ck p = (x, ck', q)"
    by (metis prod_cases3)
  note sim = reach_poll[OF assms(1) q]
  show ?thesis
    using assms(2) q sim reach_drop_checkout[OF sim]
    by (cases x rule: poll_result_cases) (auto simp: aq_checkout_only_def poll_simulated_def)
qed

lemma aq_select_reach:
  assumes "creach clone cfg tm db (cworld p (ct_guards ct + cs) hs (add_mset ck ks))" and "env_ok C E"
    and "ct_ok (config_enabled cfg) C ct" and "aq_select clone C E key ck ct p = (r, t', p')"
  shows "poll_simulated clone cfg tm db C r t' p' cs hs ks"
proof -
  obtain x ck' q where q: "checkout_poll (pool_client_item clone) (pe_open E) (pe_now E) ck p = (x, ck', q)"
    by (metis prod_cases3)
  note polled = reach_poll[OF assms(1) q]
  note dropped = reach_drop_checkout[OF polled]
  show ?thesis
  proof (cases x rule: poll_result_cases)
    case (ready h)
    then show ?thesis
      using assms(4) q connect_task_drop_reach[OF dropped] by (auto simp: aq_select_def poll_simulated_def)
  next
    case (failed e)
    show ?thesis
    proof (cases "is_cancellation e")
      case True
      then show ?thesis
        using assms(4) q failed aq_connect_only_reach[of clone cfg tm db _ ct cs hs ks C E AqConnect key r t' p']
          dropped assms(2,3) by (auto simp: aq_select_def)
    next
      case False
      then show ?thesis
        using assms(4) q failed connect_task_drop_reach[OF dropped] by (auto simp: aq_select_def poll_simulated_def)
    qed
  next
    case waiting
    obtain y ct' q' where q': "connect_to clone C E key ct q = (y, ct', q')" by (metis prod_cases3)
    from polled waiting have r1: "creach clone cfg tm db (cworld q (ct_guards ct + cs) hs (add_mset ck' ks))"
      by simp
    note sim = connect_to_reach[OF r1 assms(2,3) q']
    show ?thesis
    proof (cases y rule: poll_result_cases)
      case waiting
      then show ?thesis
        using assms(4) q \<open>x = Pending\<close> q' sim by (auto simp: aq_select_def poll_simulated_def)
    next
      case (ready h)
      then show ?thesis
        using assms(4) q \<open>x = Pending\<close> q' sim connect_to_done[of clone C E key ct q _ ct' q']
          reach_drop_checkout[of clone cfg tm db q' _ _ ck' ks]
        by (auto simp: aq_select_def poll_simulated_def)
    next
      case (failed e)
      have r2: "creach clone cfg tm db (cworld q' cs hs (add_mset ck' ks))"
        using sim connect_to_done[of clone C E key ct q _ ct' q'] q' failed by auto
      then show ?thesis
        using assms(4) q \<open>x = Pending\<close> q' failed reach_drop_checkout[OF r2]
          aq_checkout_only_reach[OF r2, of E r t' p' C]
        by (auto simp: aq_select_def poll_simulated_def split: if_splits)
    qed
  qed
qed

lemma one_connection_for_reach:
  assumes "creach clone cfg tm db (cworld p (aq_guards t + cs) hs (aq_checkouts t + ks))" and "env_ok C E"
    and "aq_ok (config_enabled cfg) C t" and "one_connection_for clone C E key t p = (r, t', p')"
  shows "poll_simulated clone cfg tm db C r t' p' cs hs ks"
proof (cases t)
  case AqStart
  have r0: "creach clone cfg tm db (cworld p (ct_guards CtStart + cs) hs ks)"
    using assms(1) AqStart by simp
  obtain ck q where ck: "pool_checkout key p = (ck, q)" by fastforce
  have ok: "ct_ok (config_enabled cfg) C CtStart" by simp
  show ?thesis
    using assms(4) AqStart ck aq_connect_only_reach[OF r0 assms(2) ok, of AqDirect key r t' p']
      aq_select_reach[OF reach_checkout[OF r0 ck] assms(2) ok, of key r t' p']
    by (auto split: if_splits)
next
  case (AqDirect ct)
  then show ?thesis using assms aq_connect_only_reach[of clone cfg tm db p ct cs hs ks C E AqDirect key r t' p'] by simp
next
  case (AqSelect ck ct)
  then show ?thesis using assms aq_select_reach[of clone cfg tm db p ct cs hs ck ks C E key r t' p'] by simp
next
  case (AqConnect ct)
  then show ?thesis using assms aq_connect_only_reach[of clone cfg tm db p ct cs hs ks C E AqConnect key r t' p'] by simp
next
  case (AqCheckout ck)
  then show ?thesis using assms aq_checkout_only_reach[of clone cfg tm db p cs hs ck ks E r t' p' C] by simp
qed (use assms in \<open>auto simp: poll_simulated_def\<close>)

lemma one_connection_for_done:
  "one_connection_for clone C E key t p = (Ready x, t', p') \<Longrightarrow> t' = AqDone"
proof -
  have conly: "t' = AqDone" if "aq_connect_only mk clone C E key ct q = (Ready x, t', p')" for mk ct q
    using that by (auto simp: aq_connect_only_def split: prod.splits poll.splits sum.splits)
  have konly: "t' = AqDone" if "aq_checkout_only clone E ck q = (Ready x, t', p')" for ck q
    using that by (auto simp: aq_checkout_only_def split: prod.splits poll.splits sum.splits)
  have sel: "t' = AqDone" if "aq_select clone C E key ck ct q = (Ready x, t', p')" for ck ct q
    using that by (auto simp: aq_select_def dest: conly konly split: prod.splits poll.splits sum.splits if_splits)
  show "one_connection_for clone C E key t p = (Ready x, t', p') \<Longrightarrow> t' = AqDone"
    by (cases t) (auto dest: conly konly sel split: if_splits prod.splits)
qed

lemma connection_for_reach:
  assumes "creach clone cfg tm db (cworld p (aq_guards t + cs) hs (aq_checkouts t + ks))" and "env_ok C E"
    and "aq_ok (config_enabled cfg) C t" and "connection_for clone C E key t p = (r, t', p')"
  shows "poll_simulated clone cfg tm db C r t' p' cs hs ks \<and> (r \<noteq> Pending \<longrightarrow> t' = AqDone)"
proof -
  obtain x u q where q: "one_connection_for clone C E key t p = (x, u, q)" by (metis prod_cases3)
  note sim = one_connection_for_reach[OF assms(1-3) q]
  note fin = one_connection_for_done[of clone C E key t p _ u q]
  show ?thesis
  proof (cases x rule: poll_result_cases)
    case (ready h)
    then show ?thesis using assms(4) q sim fin by (auto simp: connection_for_def poll_simulated_def)
  next
    case waiting
    then show ?thesis using assms(4) q sim by (auto simp: connection_for_def poll_simulated_def)
  next
    case (failed e)
    then show ?thesis
      using assms(4) q sim fin
      by (cases e) (auto simp: connection_for_def poll_simulated_def split: if_splits)
  qed
qed

lemma acquire_drop_reach:
  "creach clone cfg tm db (cworld p (aq_guards t + cs) hs (aq_checkouts t + ks))
   \<Longrightarrow> creach clone cfg tm db (cworld (acquire_drop t p) cs hs ks)"
  by (cases t) (auto intro: connect_task_drop_reach reach_drop_checkout)

section \<open>The client as a system of tasks\<close>

text \<open>
  A client's state: its pool, the tasks that are acquiring a connection for an origin, and the
  connections handed to requests or kept by background drivers.
\<close>

record ('s, 'tls, 'a, 'b) client_world =
  cw_pool :: "('a, 'b) cpool"
  cw_tasks :: "(origin \<times> ('s, 'tls) acquire_task) multiset"
  cw_handles :: "('a, 'b) cpooled multiset"

inductive client_step ::
  "('b \<Rightarrow> 'b) \<Rightarrow> ('n, 'h1, 'h2) client \<Rightarrow> ('s, 'tls, 'a, 'b) client_world \<Rightarrow> ('s, 'tls, 'a, 'b) client_world \<Rightarrow> bool"
  for clone :: "'b \<Rightarrow> 'b" and C :: "('n, 'h1, 'h2) client" where
  new_request: "client_step clone C w (w\<lparr>cw_tasks := add_mset (key, AqStart) (cw_tasks w)\<rparr>)"
| poll_task: "cw_tasks w = add_mset (key, t) ts \<Longrightarrow> env_ok C E \<Longrightarrow>
    connection_for clone C E key t (cw_pool w) = (r, t', p') \<Longrightarrow>
    client_step clone C w (w\<lparr>cw_pool := p', cw_tasks := (if r = Pending then add_mset (key, t') ts else ts),
      cw_handles := acquired_handle r + cw_handles w\<rparr>)"
| cancel_task: "cw_tasks w = add_mset (key, t) ts \<Longrightarrow>
    client_step clone C w (w\<lparr>cw_pool := acquire_drop t (cw_pool w), cw_tasks := ts\<rparr>)"
| finish_handle: "cw_handles w = add_mset h hs \<Longrightarrow>
    client_step clone C w
      (w\<lparr>cw_pool := pooled_drop (pool_client_item clone) opn raced now h (cw_pool w), cw_handles := hs\<rparr>)"
| idle_tick: "client_step clone C w (w\<lparr>cw_pool := idle_task_tick opn now order (cw_pool w)\<rparr>)"

inductive client_reachable ::
  "('b \<Rightarrow> 'b) \<Rightarrow> ('n, 'h1, 'h2) client \<Rightarrow> pool_config \<Rightarrow> bool \<Rightarrow> bool \<Rightarrow> ('s, 'tls, 'a, 'b) client_world \<Rightarrow> bool"
  for clone :: "'b \<Rightarrow> 'b" and C :: "('n, 'h1, 'h2) client" and cfg :: pool_config and tm db :: bool where
  client_init: "client_reachable clone C cfg tm db
     \<lparr>cw_pool = pool_new cfg tm db, cw_tasks = {#}, cw_handles = {#}\<rparr>"
| client_next: "client_reachable clone C cfg tm db w \<Longrightarrow> client_step clone C w w' \<Longrightarrow>
    client_reachable clone C cfg tm db w'"

definition tasks_guards :: "(origin \<times> ('s, 'tls) acquire_task) multiset \<Rightarrow> origin connecting multiset" where
  "tasks_guards ts = sum_mset (image_mset (\<lambda>t. aq_guards (snd t)) ts)"

definition tasks_checkouts :: "(origin \<times> ('s, 'tls) acquire_task) multiset \<Rightarrow> origin checkout multiset" where
  "tasks_checkouts ts = sum_mset (image_mset (\<lambda>t. aq_checkouts (snd t)) ts)"

definition client_abs :: "('s, 'tls, 'a, 'b) client_world \<Rightarrow> (origin, ('a, 'b) conn) world" where
  "client_abs w = cworld (cw_pool w) (tasks_guards (cw_tasks w)) (cw_handles w) (tasks_checkouts (cw_tasks w))"

lemma tasks_add [simp]:
  "tasks_guards (add_mset (k, t) ts) = aq_guards t + tasks_guards ts"
  "tasks_checkouts (add_mset (k, t) ts) = aq_checkouts t + tasks_checkouts ts"
  by (simp_all add: tasks_guards_def tasks_checkouts_def)

lemma client_step_refines:
  assumes "client_step clone C w w'" and "creach clone cfg tm db (client_abs w)"
    and "\<forall>t \<in># cw_tasks w. aq_ok (config_enabled cfg) C (snd t)"
  shows "creach clone cfg tm db (client_abs w') \<and> (\<forall>t \<in># cw_tasks w'. aq_ok (config_enabled cfg) C (snd t))"
  using assms(1)
proof cases
  case (new_request key)
  then show ?thesis using assms(2,3) by (simp add: client_abs_def)
next
  case (poll_task key t ts E r t' p')
  have "creach clone cfg tm db
      (cworld (cw_pool w) (aq_guards t + tasks_guards ts) (cw_handles w) (aq_checkouts t + tasks_checkouts ts))"
    using assms(2) poll_task(2) by (simp add: client_abs_def)
  from connection_for_reach[OF this poll_task(3) _ poll_task(4)] show ?thesis
    using poll_task assms(3) by (auto simp: client_abs_def poll_simulated_def)
next
  case (cancel_task key t ts)
  then show ?thesis
    using assms(2,3) acquire_drop_reach[of clone cfg tm db "cw_pool w" t] by (simp add: client_abs_def)
next
  case (finish_handle h hs opn raced now)
  then show ?thesis
    using pool_reachable.step[OF assms(2) pool_step.drop_pooled[of _ h hs _ opn raced now]] assms(3)
    by (simp add: client_abs_def)
next
  case (idle_tick opn now order)
  then show ?thesis
    using pool_reachable.step[OF assms(2) pool_step.tick[of _ _ opn now order]] assms(3)
    by (simp add: client_abs_def)
qed

lemma client_reachable_refines:
  "client_reachable clone C cfg tm db w \<Longrightarrow>
     creach clone cfg tm db (client_abs w) \<and> (\<forall>t \<in># cw_tasks w. aq_ok (config_enabled cfg) C (snd t))"
proof (induction rule: client_reachable.induct)
  case client_init
  show ?case
    using pool_reachable.init[of "pool_client_item clone" cfg tm db]
    by (simp add: client_abs_def initial_world_def tasks_guards_def tasks_checkouts_def)
next
  case (client_next w w')
  then show ?case using client_step_refines[OF client_next.hyps(2)] by blast
qed

text \<open>
  C11. The client keeps within its connection limits.  Whatever requests are made, polled, finished
  and cancelled, in any order and with any results of the network, the client's tasks act on
  the pool only as the pool's protocol allows; so for every origin the HTTP/1 sockets being
  established by tasks, in use, idle and handed over never exceed the configured bound, and at
  most one task establishes an HTTP/2 connection.  The connector is assumed to honour a
  requirement of HTTP/2, as the built-in transports do.
\<close>

theorem client_refines_pool:
  assumes "client_reachable clone C cfg tm db w"
  shows "pool_reachable (pool_client_item clone) cfg tm db (client_abs w)
    \<and> (\<forall>i k. pool_inner (cw_pool w) = Some i \<longrightarrow>
         open_h1 (pool_client_item clone) i (client_abs w) k \<le> cfg_max_h1_connections_per_host cfg
         \<and> establishing_h2 (tasks_guards (cw_tasks w)) k \<le> 1)"
proof -
  from client_reachable_refines[OF assms] have reach: "creach clone cfg tm db (client_abs w)" by blast
  have "open_h1 (pool_client_item clone) i (client_abs w) k \<le> cfg_max_h1_connections_per_host cfg
      \<and> establishing_h2 (tasks_guards (cw_tasks w)) k \<le> 1" if "pool_inner (cw_pool w) = Some i" for i k
  proof -
    have inv: "pinv (pool_client_item clone) (cfg_max_h1_connections_per_host cfg) (cfg_max_idle_per_host cfg) i
        (tasks_guards (cw_tasks w)) (cw_handles w) (tasks_checkouts (cw_tasks w))"
      using pc.reachable_inv[OF reach] that by (simp add: pool_inv_def client_abs_def)
    then have "open_h1 (pool_client_item clone) i (client_abs w) k \<le> slots_taken i k"
      "slots_taken i k \<le> cfg_max_h1_connections_per_host cfg"
      "establishing_h2 (tasks_guards (cw_tasks w)) k \<le> (if k \<in> connecting_set i then 1 else 0)"
      unfolding pinv_def open_h1_def client_abs_def by simp_all
    then show ?thesis by (auto split: if_splits)
  qed
  with reach show ?thesis by blast
qed

definition race_cfg :: pool_config where
  "race_cfg = \<lparr>cfg_idle_timeout = None, cfg_max_idle_per_host = 2, cfg_max_h1_connections_per_host = 2\<rparr>"

definition race_key :: origin where
  "race_key = \<lparr>origin_scheme = ''http'', origin_authority = ''h''\<rparr>"

text \<open>The first environment has no connection yet; in the second the connector and the handshake are done.\<close>

definition env_waiting :: "(nat, nat, unit, unit, nat, nat) poll_env" where
  "env_waiting =
     \<lparr>pe_connect = None, pe_handshake1 = (\<lambda>_ _. None), pe_handshake2 = (\<lambda>_ _. None), pe_connect_elapsed = 0,
      pe_handshake_elapsed = 0, pe_open = (\<lambda>_. True), pe_raced = (\<lambda>_. False), pe_now = 0\<rparr>"

definition env_done :: "(nat, nat, unit, unit, nat, nat) poll_env" where
  "env_done = env_waiting
     \<lparr>pe_connect := Some (Inr (connected_new (PlainIo 0) ConnHttp1)),
      pe_handshake1 := (\<lambda>_ _. Some (Inr (0, Inr ())))\<rparr>"

theorem client_refines_pool_witness:
  "\<exists>w. client_reachable id demo_client_conf race_cfg False False (w :: (nat, nat, nat, nat) client_world)
     \<and> size (cw_tasks w) = 1
     \<and> pool_reachable (pool_client_item id) race_cfg False False (client_abs w)"
proof -
  let ?w0 = "\<lparr>cw_pool = pool_new race_cfg False False, cw_tasks = {#}, cw_handles = {#}\<rparr>
     :: (nat, nat, nat, nat) client_world"
  let ?w = "?w0\<lparr>cw_tasks := {#(race_key, AqStart)#}\<rparr>"
  have r: "client_reachable id demo_client_conf race_cfg False False ?w"
    using client_reachable.client_next[OF client_reachable.client_init
        client_step.new_request[of id demo_client_conf _ race_key]] by simp
  then show ?thesis
    using client_refines_pool[OF r] by (intro exI[of _ ?w]) simp
qed

lemmas race_run_defs = connection_for_def aq_select_def aq_connect_only_def ct_connecting_def ct_connected_def
  ct_handshake_def handshake_def pool_connecting_def reserve_h1_slot_def pool_checkout_def checkout_poll_def
  poll_waiter_def checkout_checkout_def checkout_idle_def checkout_wait_def checkout_drop_def clean_waiters_def
  set_waiters_def set_channel_def connecting_drop_def connecting_cancelled_def remove_waiters_def
  release_h1_slot_def record_events_def established_events_def is_enabled_def is_cancellation_def
  pool_pooled_def pool_new_def config_enabled_def pool_client_item_def pc_reserve_def connected_new_def
  connection_info_new_def

text \<open>
  Cancelling one request fails another.  Two requests to one origin, well below the connection
  limit, are each establishing a connection.  When the first is cancelled, the second fails
  with a connection error although its own connection is ready; without the cancellation the
  same poll returns that connection.  The comment on the pool's wake-up says that the woken
  requests retry.
\<close>

theorem cancelled_request_fails_another:
  "(case connection_for id demo_client_conf env_waiting race_key AqStart (pool_new race_cfg False False) of
      (rA, tA, p1) \<Rightarrow>
        (case connection_for id demo_client_conf env_waiting race_key AqStart p1 of
           (rB, tB, p2) \<Rightarrow>
             rA = Pending \<and> rB = Pending
             \<and> fst (connection_for id demo_client_conf env_done race_key tB (acquire_drop tA p2))
                 = Ready (Inl (client_error_with_source Connect (CheckoutSource NoLongerWanted)))
             \<and> (\<exists>h. fst (connection_for id demo_client_conf env_done race_key tB p2) = Ready (Inr h))))"
  by (simp add: race_run_defs demo_client_conf_def env_waiting_def env_done_def race_key_def race_cfg_def)

end
