(* ===== verification/Async_Io.thy ===== *)
theory Async_Io
  imports H12_Prelude
begin

text \<open>
  Poll-based I/O.  The interface of an asynchronous byte source, a scripted stream that provides
  it, and the adapters between the two families of I/O traits
  (\<^verbatim>\<open>src/crates/h12tiny-core/src/io.rs\<close>).

  A reader in the style of \<^verbatim>\<open>hyper::rt::Read\<close> takes the capacity of the cursor and answers with the
  bytes it put there; one in the style of \<^verbatim>\<open>futures_io::AsyncRead\<close> takes a buffer and answers with
  a count and the buffer it leaves.
\<close>

type_synonym 's hyper_read = "'s \<Rightarrow> nat \<Rightarrow> (io_error, bytes) result poll \<times> 's"
type_synonym 's futures_read = "'s \<Rightarrow> bytes \<Rightarrow> (io_error, nat) result poll \<times> bytes \<times> 's"

section \<open>Asynchronous byte sources\<close>

text \<open>
  \<open>pending s\<close> is the bytes that are still to come.  A read returns the next of them; only the end
  of the stream reads as nothing; waiting and failing lose nothing.
\<close>

locale async_source =
  fixes poll_read :: "'s hyper_read" and pending :: "'s \<Rightarrow> bytes"
  assumes read_some: "poll_read s n = (Ready (Inr bs), s') \<Longrightarrow> length bs \<le> n \<and> pending s = bs @ pending s'"
    and read_eof: "poll_read s n = (Ready (Inr []), s') \<Longrightarrow> 0 < n \<Longrightarrow> pending s = []"
    and read_wait: "poll_read s n = (Pending, s') \<Longrightarrow> pending s' = pending s"
    and read_fail: "poll_read s n = (Ready (Inl e), s') \<Longrightarrow> pending s' = pending s"

text \<open>A stream given by the events its reader observes: not ready, some bytes, or an error.\<close>

datatype async_event = NotReady | Arrived byte bytes | Broken io_error

fun arrived :: "async_event list \<Rightarrow> bytes" where
  "arrived [] = []"
| "arrived (Arrived b bs # es) = b # bs @ arrived es"
| "arrived (_ # es) = arrived es"

fun script_read :: "async_event list hyper_read" where
  "script_read [] n = (Ready (Inr []), [])"
| "script_read (NotReady # es) n = (Pending, es)"
| "script_read (Broken e # es) n = (Ready (Inl e), es)"
| "script_read (Arrived b bs # es) n =
     (Ready (Inr (take n (b # bs))),
      (case drop n (b # bs) of [] \<Rightarrow> es | c # cs \<Rightarrow> Arrived c cs # es))"

lemma script_arrived:
  "arrived (case xs of [] \<Rightarrow> es | c # cs \<Rightarrow> Arrived c cs # es) = xs @ arrived es"
  by (cases xs) simp_all

interpretation script: async_source script_read arrived
proof
  fix s s' n bs e
  show "script_read s n = (Ready (Inr bs), s') \<Longrightarrow> length bs \<le> n \<and> arrived s = bs @ arrived s'"
    by (cases "(s, n)" rule: script_read.cases) (auto simp only: script_read.simps script_arrived arrived.simps
        prod.inject poll.inject sum.inject append_assoc[symmetric] append_take_drop_id append_Cons length_take
        min.cobounded2 append_Nil list.size le0)
  show "script_read s n = (Ready (Inr []), s') \<Longrightarrow> 0 < n \<Longrightarrow> arrived s = []"
    by (cases "(s, n)" rule: script_read.cases) auto
  show "script_read s n = (Pending, s') \<Longrightarrow> arrived s' = arrived s"
    by (cases "(s, n)" rule: script_read.cases) auto
  show "script_read s n = (Ready (Inl e), s') \<Longrightarrow> arrived s' = arrived s"
    by (cases "(s, n)" rule: script_read.cases) auto
qed

section \<open>The adapters\<close>

text \<open>
  \<open>futures_io_poll_read\<close> exposes the cursor's initialised storage (\<open>zeroed\<close>) and advances by the
  reported count; a count beyond the capacity is an error.
\<close>

definition zeroed :: "nat \<Rightarrow> bytes" where
  "zeroed n = replicate n (CHR 0x00)"

definition futures_io_poll_read :: "'s futures_read \<Rightarrow> 's hyper_read" where
  "futures_io_poll_read R s capacity =
     (if capacity = 0 then (Ready (Inr []), s)
      else case R s (zeroed capacity) of
        (Ready (Inr n), dst, s') \<Rightarrow>
          if n > capacity
          then (Ready (Inl (IoError InvalidData ''futures-io AsyncRead returned more bytes than requested'')), s')
          else (Ready (Inr (take n dst)), s')
      | (Ready (Inl e), dst, s') \<Rightarrow> (Ready (Inl e), s')
      | (Pending, dst, s') \<Rightarrow> (Pending, s'))"

definition hyper_io_poll_read :: "'s hyper_read \<Rightarrow> 's futures_read" where
  "hyper_io_poll_read R s buf =
     (if buf = [] then (Ready (Inr 0), buf, s)
      else case R s (length buf) of
        (Ready (Inr bs), s') \<Rightarrow> (Ready (Inr (length bs)), bs @ drop (length bs) buf, s')
      | (Ready (Inl e), s') \<Rightarrow> (Ready (Inl e), buf, s')
      | (Pending, s') \<Rightarrow> (Pending, buf, s'))"

record 's futures_writer =
  fw_poll_write :: "'s \<Rightarrow> bytes \<Rightarrow> (io_error, nat) result poll \<times> 's"
  fw_poll_write_vectored :: "'s \<Rightarrow> bytes list \<Rightarrow> (io_error, nat) result poll \<times> 's"
  fw_poll_flush :: "'s \<Rightarrow> (io_error, unit) result poll \<times> 's"
  fw_poll_close :: "'s \<Rightarrow> (io_error, unit) result poll \<times> 's"

record 's hyper_writer =
  hw_poll_write :: "'s \<Rightarrow> bytes \<Rightarrow> (io_error, nat) result poll \<times> 's"
  hw_poll_write_vectored :: "'s \<Rightarrow> bytes list \<Rightarrow> (io_error, nat) result poll \<times> 's"
  hw_poll_flush :: "'s \<Rightarrow> (io_error, unit) result poll \<times> 's"
  hw_poll_shutdown :: "'s \<Rightarrow> (io_error, unit) result poll \<times> 's"
  hw_is_write_vectored :: bool

definition futures_io_writer :: "'s futures_writer \<Rightarrow> 's hyper_writer" where
  "futures_io_writer W =
     \<lparr>hw_poll_write = fw_poll_write W, hw_poll_write_vectored = fw_poll_write_vectored W,
      hw_poll_flush = fw_poll_flush W, hw_poll_shutdown = fw_poll_close W, hw_is_write_vectored = True\<rparr>"

definition hyper_io_writer :: "'s hyper_writer \<Rightarrow> 's futures_writer" where
  "hyper_io_writer W =
     \<lparr>fw_poll_write = hw_poll_write W, fw_poll_write_vectored = hw_poll_write_vectored W,
      fw_poll_flush = hw_poll_flush W, fw_poll_close = hw_poll_shutdown W\<rparr>"

text \<open>
  The read adapter stays inside its buffer, whatever the wrapped reader does: a reader may
  report any count, but it cannot change the length of the buffer it is given, and then the
  adapter never advances the cursor beyond its capacity, and what it reports as read are bytes
  the reader left in the buffer.
\<close>

theorem futures_io_stays_in_bounds:
  assumes "\<forall>s buf. length (fst (snd (R s buf))) = length buf"
    and "futures_io_poll_read R s capacity = (Ready (Inr bs), s')"
  shows "length bs \<le> capacity \<and> (\<exists>n. bs = take n (fst (snd (R s (zeroed capacity)))))"
proof (cases "capacity = 0")
  case True
  then show ?thesis using assms(2) by (auto simp: futures_io_poll_read_def intro: exI[of _ 0])
next
  case False
  then obtain n dst where "R s (zeroed capacity) = (Ready (Inr n), dst, s')" "n \<le> capacity" "bs = take n dst"
    using assms(2) by (auto simp: futures_io_poll_read_def split: prod.splits poll.splits sum.splits if_splits)
  moreover from this have "length dst = capacity"
    using assms(1)[rule_format, of s "zeroed capacity"] by (simp add: zeroed_def)
  ultimately show ?thesis by auto
qed

theorem futures_io_stays_in_bounds_witness:
  "futures_io_poll_read (\<lambda>s buf. (Ready (Inr 2), take (length buf) (''xyz'' @ buf), s)) () 3 = (Ready (Inr ''xy''), ())
   \<and> length ''xy'' \<le> 3"
proof -
  let ?R = "\<lambda>s buf. (Ready (Inr 2), take (length buf) (''xyz'' @ buf), s) :: (io_error, nat) result poll \<times> bytes \<times> unit"
  have run: "futures_io_poll_read ?R () 3 = (Ready (Inr ''xy''), ())"
    by code_simp
  have "\<forall>s buf. length (fst (snd (?R s buf))) = length buf"
    by simp
  from futures_io_stays_in_bounds[OF this run] run show ?thesis by simp
qed

text \<open>
  The two adapters are inverse: a source behind both of them reads, for every buffer that is
  not empty, and writes like the source itself.
\<close>

theorem adapters_inverse:
  assumes "async_source R pend" and "0 < capacity"
  shows "futures_io_poll_read (hyper_io_poll_read R) s capacity = R s capacity
    \<and> hyper_io_writer (futures_io_writer W) = (W :: 'w futures_writer)"
proof -
  have len: "length bs \<le> capacity" if "R s capacity = (Ready (Inr bs), s')" for bs s'
    using async_source.read_some[OF assms(1) that] by blast
  show ?thesis
    using assms(2) len
    by (auto simp: futures_io_poll_read_def hyper_io_poll_read_def zeroed_def hyper_io_writer_def
        futures_io_writer_def split: prod.splits poll.splits sum.splits)
qed

theorem adapters_inverse_witness:
  "futures_io_poll_read (hyper_io_poll_read script_read) [Arrived CHR ''a'' ''bc''] 2
   = (Ready (Inr ''ab''), [Arrived CHR ''c'' []])"
  using adapters_inverse[OF script.async_source_axioms, of 2 "[Arrived CHR ''a'' ''bc'']", THEN conjunct1] by simp

end
