(* ===== verification/Server_Auto.thy ===== *)
theory Server_Auto
  imports Async_Io
begin

text \<open>
  Protocol selection of the server (\<^verbatim>\<open>src/crates/h12tiny-server/src/conn/auto.rs\<close>): detection of the
  HTTP/2 preface on a cleartext stream, replay of the bytes read by it, selection by ALPN on
  TLS, and the connection future.  The HTTP library's builders and connections are parameters.
  A failed assertion or \<^verbatim>\<open>expect\<close> is None.  Error messages leave out the offending value.
\<close>

section \<open>Replay\<close>

record 's rewind =
  rw_pre :: "bytes option"
  rw_inner :: 's

definition new_buffered :: "'s \<Rightarrow> bytes \<Rightarrow> 's rewind" where
  "new_buffered io pre = \<lparr>rw_pre = Some pre, rw_inner = io\<rparr>"

definition rewind_inner_read :: "'s hyper_read \<Rightarrow> 's rewind hyper_read" where
  "rewind_inner_read R rw n = (case R (rw_inner rw) n of (r, s') \<Rightarrow> (r, \<lparr>rw_pre = None, rw_inner = s'\<rparr>))"

definition rewind_read :: "'s hyper_read \<Rightarrow> 's rewind hyper_read" where
  "rewind_read R rw n =
     (case rw_pre rw of
        None \<Rightarrow> rewind_inner_read R rw n
      | Some pre \<Rightarrow>
          if pre = [] then rewind_inner_read R rw n
          else
            (let copy_len = min (length pre) n; rest = drop copy_len pre in
             (Ready (Inr (take copy_len pre)), rw\<lparr>rw_pre := (if rest = [] then None else Some rest)\<rparr>)))"

definition rewind_lift :: "('s \<Rightarrow> 'r \<times> 's) \<Rightarrow> 's rewind \<Rightarrow> 'r \<times> 's rewind" where
  "rewind_lift f rw = (case f (rw_inner rw) of (r, s') \<Rightarrow> (r, rw\<lparr>rw_inner := s'\<rparr>))"

definition rewind_writer :: "'s hyper_writer \<Rightarrow> 's rewind hyper_writer" where
  "rewind_writer W =
     \<lparr>hw_poll_write = (\<lambda>rw buf. rewind_lift (\<lambda>s. hw_poll_write W s buf) rw),
      hw_poll_write_vectored = (\<lambda>rw bufs. rewind_lift (\<lambda>s. hw_poll_write_vectored W s bufs) rw),
      hw_poll_flush = rewind_lift (hw_poll_flush W),
      hw_poll_shutdown = rewind_lift (hw_poll_shutdown W),
      hw_is_write_vectored = hw_is_write_vectored W\<rparr>"

definition rewind_pending :: "('s \<Rightarrow> bytes) \<Rightarrow> 's rewind \<Rightarrow> bytes" where
  "rewind_pending pend rw = (case rw_pre rw of Some p \<Rightarrow> p | None \<Rightarrow> []) @ pend (rw_inner rw)"

section \<open>Detection\<close>

definition H2_PREFACE :: bytes where
  "H2_PREFACE =
     ''PRI * HTTP/2.0'' @ [CHR 0x0D, CHR 0x0A, CHR 0x0D, CHR 0x0A] @ ''SM'' @ [CHR 0x0D, CHR 0x0A, CHR 0x0D, CHR 0x0A]"

datatype server_version = SvH1 | SvH2

text \<open>\<open>rv_filled\<close> is the initialised part of the detector's buffer.\<close>

record 's read_version =
  rv_io :: "'s option"
  rv_filled :: bytes
  rv_version :: server_version
  rv_cancelled :: bool

definition read_version_new :: "'s \<Rightarrow> 's read_version" where
  "read_version_new io = \<lparr>rv_io = Some io, rv_filled = [], rv_version = SvH2, rv_cancelled = False\<rparr>"

definition read_version_cancel :: "'s read_version \<Rightarrow> 's read_version" where
  "read_version_cancel rv = rv\<lparr>rv_cancelled := True\<rparr>"

function detect ::
  "'s hyper_read \<Rightarrow> 's \<Rightarrow> bytes \<Rightarrow> (io_error, server_version) result poll \<times> 's \<times> bytes" where
  "detect R s filled =
     (if length filled < length H2_PREFACE then
        (case R s (length H2_PREFACE - length filled) of
           (Pending, s') \<Rightarrow> (Pending, s', filled)
         | (Ready (Inl e), s') \<Rightarrow> (Ready (Inl e), s', filled)
         | (Ready (Inr bs), s') \<Rightarrow>
             if bs = [] \<or> bs \<noteq> take (length bs) (drop (length filled) H2_PREFACE)
             then (Ready (Inr SvH1), s', filled @ bs)
             else detect R s' (filled @ bs))
      else (Ready (Inr SvH2), s, filled))"
  by pat_completeness auto
termination
  by (relation "measure (\<lambda>(R, s, filled). length H2_PREFACE - length filled)") (auto simp: length_greater_0_conv[symmetric] simp del: length_greater_0_conv)

declare detect.simps [simp del]

definition read_version_poll ::
  "'s hyper_read \<Rightarrow> 's read_version
     \<Rightarrow> ((io_error, server_version \<times> 's rewind) result poll \<times> 's read_version) option" where
  "read_version_poll R rv =
     (if rv_cancelled rv
      then Some (Ready (Inl (IoError Interrupted ''HTTP protocol detection cancelled'')), rv)
      else case rv_io rv of
        None \<Rightarrow> None
      | Some io \<Rightarrow>
          (case detect R io (rv_filled rv) of
             (Pending, s', filled) \<Rightarrow> Some (Pending, rv\<lparr>rv_io := Some s', rv_filled := filled\<rparr>)
           | (Ready (Inl e), s', filled) \<Rightarrow> Some (Ready (Inl e), rv\<lparr>rv_io := Some s', rv_filled := filled\<rparr>)
           | (Ready (Inr v), s', filled) \<Rightarrow>
               Some (Ready (Inr (v, new_buffered s' filled)),
                     rv\<lparr>rv_io := None, rv_filled := filled, rv_version := v\<rparr>)))"

section \<open>The builder and the connection\<close>

text \<open>
  \<open>'b1\<close> and \<open>'b2\<close> are the HTTP library's builders, absent without the feature; \<open>'c1\<close> and \<open>'c2\<close> its
  connections.
\<close>

record ('b1, 'b2) auto_builder =
  ab_http1 :: "'b1 option"
  ab_http2 :: "'b2 option"
  ab_version :: "server_version option"

record ('s, 'b1, 'b2, 'svc, 'c1, 'c2) serve_ops =
  sv_h1 :: "'b1 \<Rightarrow> 's rewind \<Rightarrow> 'svc \<Rightarrow> 'c1"
  sv_h2 :: "'b2 \<Rightarrow> 's rewind \<Rightarrow> 'svc \<Rightarrow> 'c2"
  sv_poll1 :: "'c1 \<Rightarrow> (io_error, unit) result poll \<times> 'c1"
  sv_poll2 :: "'c2 \<Rightarrow> (io_error, unit) result poll \<times> 'c2"
  sv_graceful1 :: "'c1 \<Rightarrow> 'c1"
  sv_graceful2 :: "'c2 \<Rightarrow> 'c2"

datatype ('s, 'b1, 'b2, 'svc, 'c1, 'c2) conn_state =
    CsReadVersion "'s read_version" "('b1, 'b2) auto_builder" "'svc option"
  | CsH1 'c1
  | CsH2 'c2
  | CsUnsupported "io_error option"

definition auto_builder_new :: "'b1 option \<Rightarrow> 'b2 option \<Rightarrow> ('b1, 'b2) auto_builder" where
  "auto_builder_new b1 b2 = \<lparr>ab_http1 = b1, ab_http2 = b2, ab_version = None\<rparr>"

definition auto_http1_only :: "('b1, 'b2) auto_builder \<Rightarrow> ('b1, 'b2) auto_builder option" where
  "auto_http1_only b = (if ab_version b = None then Some (b\<lparr>ab_version := Some SvH1\<rparr>) else None)"

definition auto_http2_only :: "('b1, 'b2) auto_builder \<Rightarrow> ('b1, 'b2) auto_builder option" where
  "auto_http2_only b = (if ab_version b = None then Some (b\<lparr>ab_version := Some SvH2\<rparr>) else None)"

definition is_http1_available :: "('b1, 'b2) auto_builder \<Rightarrow> bool" where
  "is_http1_available b =
     (case ab_version b of
        Some SvH1 \<Rightarrow> ab_http1 b \<noteq> None
      | Some SvH2 \<Rightarrow> False
      | None \<Rightarrow> ab_http1 b \<noteq> None)"

definition is_http2_available :: "('b1, 'b2) auto_builder \<Rightarrow> bool" where
  "is_http2_available b =
     (case ab_version b of
        Some SvH1 \<Rightarrow> False
      | Some SvH2 \<Rightarrow> ab_http2 b \<noteq> None
      | None \<Rightarrow> ab_http2 b \<noteq> None)"

fun version_unsupported :: "server_version \<Rightarrow> io_error" where
  "version_unsupported SvH1 = IoError Unsupported ''HTTP/1 is not supported''"
| "version_unsupported SvH2 = IoError Unsupported ''HTTP/2 is not supported''"

definition start_version ::
  "('s, 'b1, 'b2, 'svc, 'c1, 'c2) serve_ops \<Rightarrow> ('b1, 'b2) auto_builder \<Rightarrow> server_version \<Rightarrow> 's rewind \<Rightarrow> 'svc
     \<Rightarrow> ('s, 'b1, 'b2, 'svc, 'c1, 'c2) conn_state" where
  "start_version V b v io service =
     (case v of
        SvH1 \<Rightarrow>
          (case ab_http1 b of
             Some b1 \<Rightarrow> CsH1 (sv_h1 V b1 io service)
           | None \<Rightarrow> CsUnsupported (Some (version_unsupported SvH1)))
      | SvH2 \<Rightarrow>
          (case ab_http2 b of
             Some b2 \<Rightarrow> CsH2 (sv_h2 V b2 io service)
           | None \<Rightarrow> CsUnsupported (Some (version_unsupported SvH2))))"

definition serve_connection ::
  "('s, 'b1, 'b2, 'svc, 'c1, 'c2) serve_ops \<Rightarrow> ('b1, 'b2) auto_builder \<Rightarrow> 's \<Rightarrow> 'svc
     \<Rightarrow> ('s, 'b1, 'b2, 'svc, 'c1, 'c2) conn_state" where
  "serve_connection V b io service =
     (case ab_version b of
        Some v \<Rightarrow> start_version V b v (new_buffered io []) service
      | None \<Rightarrow> CsReadVersion (read_version_new io) b (Some service))"

definition serve_tls_connection ::
  "('s, 'b1, 'b2, 'svc, 'c1, 'c2) serve_ops \<Rightarrow> ('b1, 'b2) auto_builder \<Rightarrow> bytes option \<Rightarrow> 's \<Rightarrow> 'svc
     \<Rightarrow> (io_error, ('s, 'b1, 'b2, 'svc, 'c1, 'c2) conn_state) result option" where
  "serve_tls_connection V b alpn io service =
     (if alpn = Some ''h2'' then
        if ab_http2 b = None then Some (Inl (version_unsupported SvH2))
        else map_option (\<lambda>b'. Inr (serve_connection V b' io service)) (auto_http2_only b)
      else if alpn = Some ''http/1.1'' \<or> alpn = None then
        if ab_http1 b = None then Some (Inl (version_unsupported SvH1))
        else map_option (\<lambda>b'. Inr (serve_connection V b' io service)) (auto_http1_only b)
      else Some (Inl (IoError InvalidData ''unexpected TLS ALPN protocol'')))"

fun graceful_shutdown ::
  "('s, 'b1, 'b2, 'svc, 'c1, 'c2) serve_ops \<Rightarrow> ('s, 'b1, 'b2, 'svc, 'c1, 'c2) conn_state
     \<Rightarrow> ('s, 'b1, 'b2, 'svc, 'c1, 'c2) conn_state" where
  "graceful_shutdown V (CsReadVersion rv b svc) = CsReadVersion (read_version_cancel rv) b svc"
| "graceful_shutdown V (CsH1 c) = CsH1 (sv_graceful1 V c)"
| "graceful_shutdown V (CsH2 c) = CsH2 (sv_graceful2 V c)"
| "graceful_shutdown V (CsUnsupported e) = CsUnsupported e"

fun connection_run ::
  "('s, 'b1, 'b2, 'svc, 'c1, 'c2) serve_ops \<Rightarrow> ('s, 'b1, 'b2, 'svc, 'c1, 'c2) conn_state
     \<Rightarrow> ((io_error, unit) result poll \<times> ('s, 'b1, 'b2, 'svc, 'c1, 'c2) conn_state) option" where
  "connection_run V (CsH1 c) = Some (case sv_poll1 V c of (r, c') \<Rightarrow> (r, CsH1 c'))"
| "connection_run V (CsH2 c) = Some (case sv_poll2 V c of (r, c') \<Rightarrow> (r, CsH2 c'))"
| "connection_run V (CsUnsupported (Some e)) = Some (Ready (Inl e), CsUnsupported None)"
| "connection_run V (CsUnsupported None) = None"
| "connection_run V (CsReadVersion rv b svc) = None"

text \<open>A detected version leaves the first state, and the new state is run in the same poll.\<close>

fun connection_poll ::
  "'s hyper_read \<Rightarrow> ('s, 'b1, 'b2, 'svc, 'c1, 'c2) serve_ops \<Rightarrow> ('s, 'b1, 'b2, 'svc, 'c1, 'c2) conn_state
     \<Rightarrow> ((io_error, unit) result poll \<times> ('s, 'b1, 'b2, 'svc, 'c1, 'c2) conn_state) option" where
  "connection_poll R V (CsReadVersion rv b svc) =
     (case read_version_poll R rv of
        None \<Rightarrow> None
      | Some (Pending, rv') \<Rightarrow> Some (Pending, CsReadVersion rv' b svc)
      | Some (Ready (Inl e), rv') \<Rightarrow> Some (Ready (Inl e), CsReadVersion rv' b svc)
      | Some (Ready (Inr (v, io)), rv') \<Rightarrow>
          (case svc of
             None \<Rightarrow> None
           | Some service \<Rightarrow> connection_run V (start_version V b v io service)))"
| "connection_poll R V st = connection_run V st"

section \<open>Properties\<close>

text \<open>A stream behind a replay buffer is a byte source again: first the buffer, then the rest.\<close>

context async_source
begin

lemma rewind_source: "async_source (rewind_read poll_read) (rewind_pending pending)"
proof
  fix s s' n bs e
  have inner: "rw_pre s = None \<or> rw_pre s = Some [] \<Longrightarrow> rewind_read poll_read s n = rewind_inner_read poll_read s n"
    and front: "rw_pre s = None \<or> rw_pre s = Some [] \<Longrightarrow> rewind_pending pending s = pending (rw_inner s)"
    by (auto simp: rewind_read_def rewind_pending_def)
  show "rewind_read poll_read s n = (Ready (Inr bs), s') \<Longrightarrow>
      length bs \<le> n \<and> rewind_pending pending s = bs @ rewind_pending pending s'"
    by (auto simp: rewind_read_def rewind_inner_read_def rewind_pending_def Let_def dest: read_some
        split: option.splits if_splits prod.splits)
  show "rewind_pending pending s = []" if "rewind_read poll_read s n = (Ready (Inr []), s')" "0 < n"
    using that inner front
    by (auto simp: rewind_read_def rewind_inner_read_def rewind_pending_def Let_def dest: read_eof
        split: option.splits if_splits prod.splits)
  show "rewind_read poll_read s n = (Pending, s') \<Longrightarrow> rewind_pending pending s' = rewind_pending pending s"
    by (auto simp: rewind_read_def rewind_inner_read_def rewind_pending_def Let_def dest: read_wait
        split: option.splits if_splits prod.splits)
  show "rewind_read poll_read s n = (Ready (Inl e), s') \<Longrightarrow> rewind_pending pending s' = rewind_pending pending s"
    by (auto simp: rewind_read_def rewind_inner_read_def rewind_pending_def Let_def dest: read_fail
        split: option.splits if_splits prod.splits)
qed

end

interpretation rewound_script: async_source "rewind_read script_read" "rewind_pending arrived"
  by (rule script.rewind_source)

lemma preface_length: "length H2_PREFACE = 24"
  by (simp add: H2_PREFACE_def)

lemma prefix_extend:
  assumes "prefix xs p"
  shows "prefix (xs @ bs) p \<longleftrightarrow> bs = take (length bs) (drop (length xs) p)"
proof -
  from assms obtain q where p: "p = xs @ q" by (auto simp: prefix_def)
  have "prefix (xs @ bs) p \<longleftrightarrow> prefix bs q" by (simp add: p)
  also have "\<dots> \<longleftrightarrow> bs = take (length bs) q" by (metis prefix_def append_eq_conv_conj take_is_prefix)
  finally show ?thesis by (simp add: p)
qed

lemma detect_mismatch:
  assumes "prefix filled H2_PREFACE" and "bs = [] \<Longrightarrow> rest = []" and "length bs \<le> length H2_PREFACE - length filled"
    and "bs = [] \<or> bs \<noteq> take (length bs) (drop (length filled) H2_PREFACE)" and "length filled < length H2_PREFACE"
  shows "\<not> prefix H2_PREFACE (filled @ bs @ rest)"
proof
  assume p: "prefix H2_PREFACE (filled @ bs @ rest)"
  show False
  proof (cases "bs = []")
    case True
    then show False using p assms(2,5) prefix_length_le[OF p] by simp
  next
    case False
    have "prefix (filled @ bs) (filled @ bs @ rest)" by simp
    moreover have "length (filled @ bs) \<le> length H2_PREFACE" using assms(3,5) by simp
    ultimately have "prefix (filled @ bs) H2_PREFACE" using p prefix_length_prefix by blast
    then show False using prefix_extend[OF assms(1)] assms(4) False by blast
  qed
qed

context async_source
begin

lemma detect_sound:
  assumes "prefix filled H2_PREFACE" and "detect poll_read s filled = (r, s', filled')"
  shows "filled @ pending s = filled' @ pending s'
    \<and> (case r of
         Pending \<Rightarrow> strict_prefix filled' H2_PREFACE
       | Ready (Inl e) \<Rightarrow> strict_prefix filled' H2_PREFACE
       | Ready (Inr SvH2) \<Rightarrow> prefix H2_PREFACE (filled @ pending s)
       | Ready (Inr SvH1) \<Rightarrow> \<not> prefix H2_PREFACE (filled @ pending s))"
  using assms
proof (induction "length H2_PREFACE - length filled" arbitrary: s filled rule: less_induct)
  case less
  show ?case
  proof (cases "length filled < length H2_PREFACE")
    case False
    with less.prems have "filled = H2_PREFACE"
      by (metis not_less prefix_length_le prefix_def append_eq_conv_conj le_antisym take_all)
    with less.prems show ?thesis by (auto simp: detect.simps)
  next
    case True
    then have strict: "strict_prefix filled H2_PREFACE" using less.prems(1) by (auto simp: strict_prefix_def)
    obtain x q where x: "poll_read s (length H2_PREFACE - length filled) = (x, q)" by fastforce
    show ?thesis
    proof (cases x)
      case Pending
      then show ?thesis using less.prems(2) True x strict read_wait[of s _ q] by (auto simp: detect.simps)
    next
      case (Ready y)
      show ?thesis
      proof (cases y)
        case (Inl e)
        then show ?thesis
          using less.prems(2) True x Ready strict read_fail[of s _ e q] by (auto simp: detect.simps)
      next
        case (Inr bs)
        note rd = x[unfolded Ready Inr]
        have some: "length bs \<le> length H2_PREFACE - length filled" "pending s = bs @ pending q"
          using read_some[OF rd] by auto
        have eof: "pending q = []" if "bs = []"
          using read_eof[of s _ q] rd some(2) that \<open>length filled < _\<close> by simp
        show ?thesis
        proof (cases "bs = [] \<or> bs \<noteq> take (length bs) (drop (length filled) H2_PREFACE)")
          case True
          then have "detect poll_read s filled = (Ready (Inr SvH1), q, filled @ bs)"
            using \<open>length filled < _\<close> rd by (subst detect.simps) simp
          moreover have "\<not> prefix H2_PREFACE (filled @ bs @ pending q)"
            by (rule detect_mismatch[OF less.prems(1) eof some(1) True \<open>length filled < _\<close>])
          ultimately show ?thesis using less.prems(2) some(2) by auto
        next
          case False
          then have "detect poll_read s filled = detect poll_read q (filled @ bs)"
            using \<open>length filled < _\<close> rd by (subst detect.simps) simp
          moreover have "prefix (filled @ bs) H2_PREFACE"
            using prefix_extend[OF less.prems(1)] False by blast
          moreover have "length H2_PREFACE - length (filled @ bs) < length H2_PREFACE - length filled"
            using False \<open>length filled < _\<close> by (cases bs) auto
          ultimately show ?thesis
            using less.hyps[of "filled @ bs" q] less.prems(2) unfolding some(2) append_assoc by simp
        qed
      qed
    qed
  qed
qed

end

text \<open>
  C25. Detection of HTTP/2 on a cleartext connection is exact and transparent.  However the bytes
  arrive, in whatever pieces and with whatever waiting in between, a finished detection answers
  HTTP/2 exactly if the connection's bytes begin with the HTTP/2 preface, and the stream it
  hands to the chosen parser delivers exactly the bytes of the connection; while it is still
  waiting, the bytes seen so far are a proper prefix of the preface, so a connection that
  differs from it is never kept waiting.
\<close>

theorem protocol_detection_exact:
  assumes source: "async_source R pend"
    and "rv_io rv = Some io" and "\<not> rv_cancelled rv" and "prefix (rv_filled rv) H2_PREFACE"
    and "read_version_poll R rv = Some (r, rv')"
  shows "case r of
      Ready (Inr (v, rw)) \<Rightarrow>
        (v = SvH2 \<longleftrightarrow> prefix H2_PREFACE (rv_filled rv @ pend io))
        \<and> rewind_pending pend rw = rv_filled rv @ pend io
    | _ \<Rightarrow> strict_prefix (rv_filled rv') H2_PREFACE
        \<and> (\<exists>io'. rv_io rv' = Some io' \<and> rv_filled rv' @ pend io' = rv_filled rv @ pend io)"
proof -
  obtain x s' filled where d: "detect R io (rv_filled rv) = (x, s', filled)" by (metis prod_cases3)
  note sound = async_source.detect_sound[OF source assms(4) d]
  show ?thesis
  proof (cases x)
    case Pending
    then show ?thesis using assms(2-5) d sound by (auto simp: read_version_poll_def)
  next
    case (Ready y)
    show ?thesis
    proof (cases y)
      case (Inl e)
      then show ?thesis using assms(2-5) d sound Ready by (auto simp: read_version_poll_def)
    next
      case (Inr v)
      then show ?thesis
        using assms(2-5) d sound Ready
        by (cases v) (auto simp: read_version_poll_def new_buffered_def rewind_pending_def)
    qed
  qed
qed

theorem protocol_detection_exact_witness:
  "\<exists>rw rv'. read_version_poll script_read (read_version_new [Arrived CHR ''P'' ''RI'', Arrived CHR '' '' ''/x''])
       = Some (Ready (Inr (SvH1, rw)), rv')
     \<and> rewind_pending arrived rw = ''PRI /x''"
proof -
  let ?rv = "read_version_new [Arrived CHR ''P'' ''RI'', Arrived CHR '' '' ''/x'']"
  have "fst (the (read_version_poll script_read ?rv))
      = Ready (Inr (SvH1, new_buffered [] ''PRI /x''))" "read_version_poll script_read ?rv \<noteq> None"
    by code_simp+
  then obtain rv' where run: "read_version_poll script_read ?rv = Some (Ready (Inr (SvH1, new_buffered [] ''PRI /x'')), rv')"
    by auto
  show ?thesis
    using run protocol_detection_exact[OF script.async_source_axioms _ _ _ run, of "[Arrived CHR ''P'' ''RI'', Arrived CHR '' '' ''/x'']"]
    by (auto simp: read_version_new_def)
qed

text \<open>
  C26. On TLS the negotiated ALPN protocol alone selects the protocol, and nothing is read before:
  \<^verbatim>\<open>h2\<close> starts HTTP/2, \<^verbatim>\<open>http/1.1\<close> or none starts HTTP/1, on the untouched stream, and any other value
  is an error.  A builder restricted to one protocol, however, cannot serve TLS connections at
  all: the restriction to the negotiated protocol fails its assertion.
\<close>

theorem tls_selection:
  "(ab_version b = None \<longrightarrow> ab_http1 b = Some b1 \<longrightarrow> ab_http2 b = Some b2 \<longrightarrow>
      serve_tls_connection V b (Some ''h2'') io svc = Some (Inr (CsH2 (sv_h2 V b2 (new_buffered io []) svc)))
      \<and> serve_tls_connection V b (Some ''http/1.1'') io svc = Some (Inr (CsH1 (sv_h1 V b1 (new_buffered io []) svc)))
      \<and> serve_tls_connection V b None io svc = Some (Inr (CsH1 (sv_h1 V b1 (new_buffered io []) svc))))
   \<and> (\<forall>p. p \<noteq> ''h2'' \<longrightarrow> p \<noteq> ''http/1.1'' \<longrightarrow> (\<exists>e. serve_tls_connection V b (Some p) io svc = Some (Inl e)))
   \<and> (ab_version b \<noteq> None \<longrightarrow> ab_http1 b \<noteq> None \<longrightarrow> ab_http2 b \<noteq> None \<longrightarrow>
        (\<forall>alpn \<in> {Some ''h2'', Some ''http/1.1'', None}. serve_tls_connection V b alpn io svc = None))"
  by (auto simp: serve_tls_connection_def auto_http1_only_def auto_http2_only_def serve_connection_def
      start_version_def)

definition demo_serve :: "(unit, unit, unit, unit, unit, unit) serve_ops" where
  "demo_serve =
     \<lparr>sv_h1 = (\<lambda>_ _ _. ()), sv_h2 = (\<lambda>_ _ _. ()), sv_poll1 = (\<lambda>c. (Pending, c)), sv_poll2 = (\<lambda>c. (Pending, c)),
      sv_graceful1 = (\<lambda>c. c), sv_graceful2 = (\<lambda>c. c)\<rparr>"

theorem tls_selection_witness:
  "auto_http1_only (auto_builder_new (Some ()) (Some ())) = Some \<lparr>ab_http1 = Some (), ab_http2 = Some (), ab_version = Some SvH1\<rparr>
   \<and> serve_tls_connection demo_serve \<lparr>ab_http1 = Some (), ab_http2 = Some (), ab_version = Some SvH1\<rparr>
       (Some ''http/1.1'') () () = None"
  using tls_selection[of "\<lparr>ab_http1 = Some (), ab_http2 = Some (), ab_version = Some SvH1\<rparr>" "()" "()" demo_serve "()" "()"]
  by (simp add: auto_http1_only_def auto_builder_new_def)

text \<open>
  A connection in detection that is shut down ends with an error at its next poll, and its
  service is never started.
\<close>

lemma shutdown_during_detection:
  "connection_poll R V (graceful_shutdown V (CsReadVersion rv b svc))
   = Some (Ready (Inl (IoError Interrupted ''HTTP protocol detection cancelled'')),
           CsReadVersion (read_version_cancel rv) b svc)"
  by (simp add: read_version_poll_def read_version_cancel_def)

end
