(* ===== verification/Server_Lifecycle.thy ===== *)
theory Server_Lifecycle
  imports Server_Auto "HOL-Library.Multiset"
begin

text \<open>
  The accept loops of the server (\<^verbatim>\<open>src/crates/h12tiny-server/src/lifecycle.rs\<close>): a loop task that
  accepts streams and one driver task per accepted connection, connected by one-shot channels.
  What the futures of the listener, the shutdown signal, the TLS handshake and the HTTP
  connections deliver is arbitrary; the theorems hold for every interleaving of the tasks.
\<close>

section \<open>Model\<close>

record ('b1, 'b2) serve_config =
  sc_builder :: "('b1, 'b2) auto_builder"
  sc_max_connections :: "nat option"
  sc_hook :: bool

definition serve_new :: "'b1 option \<Rightarrow> 'b2 option \<Rightarrow> ('b1, 'b2) serve_config" where
  "serve_new b1 b2 = \<lparr>sc_builder = auto_builder_new b1 b2, sc_max_connections = None, sc_hook = False\<rparr>"

definition serve_tls_new :: "'b1 option \<Rightarrow> 'b2 option \<Rightarrow> ('b1, 'b2) serve_config" where
  "serve_tls_new b1 b2 = \<lparr>sc_builder = auto_builder_new b1 b2, sc_max_connections = None, sc_hook = False\<rparr>"

definition serve_max_connections :: "nat \<Rightarrow> ('b1, 'b2) serve_config \<Rightarrow> ('b1, 'b2) serve_config" where
  "serve_max_connections limit c = c\<lparr>sc_max_connections := Some limit\<rparr>"

definition serve_on_connection_error :: "('b1, 'b2) serve_config \<Rightarrow> ('b1, 'b2) serve_config" where
  "serve_on_connection_error c = c\<lparr>sc_hook := True\<rparr>"

subsection \<open>Driver tasks\<close>

text \<open>
  A driver: in the TLS handshake, serving, serving after a graceful shutdown was requested, or
  finished, when it has completed its \<^verbatim>\<open>done\<close> channel.
\<close>

datatype driver = DrHandshaking | DrServing | DrDraining | DrFinished

text \<open>
  What a poll of a driver observes: the handshake's result, whether the negotiated protocol can be
  served, the connection's result, and its result after a graceful shutdown has been requested.
\<close>

record driver_env =
  de_handshake :: "(io_error, unit) result option"
  de_serve_tls :: "(io_error, unit) result"
  de_conn :: "(io_error, unit) result option"
  de_conn_draining :: "(io_error, unit) result option"

definition hook_errors :: "bool \<Rightarrow> (io_error, unit) result \<Rightarrow> io_error list" where
  "hook_errors hook r = (case r of Inl e \<Rightarrow> if hook then [e] else [] | Inr _ \<Rightarrow> [])"

definition poll_draining :: "bool \<Rightarrow> driver_env \<Rightarrow> driver \<times> io_error list" where
  "poll_draining hook E =
     (case de_conn_draining E of
        Some r \<Rightarrow> (DrFinished, hook_errors hook r)
      | None \<Rightarrow> (DrDraining, []))"

text \<open>\<open>signalled\<close>: the loop has sent the shutdown message.\<close>

definition poll_serving :: "bool \<Rightarrow> bool \<Rightarrow> driver_env \<Rightarrow> driver \<times> io_error list" where
  "poll_serving hook signalled E =
     (case de_conn E of
        Some r \<Rightarrow> (DrFinished, hook_errors hook r)
      | None \<Rightarrow> if signalled then poll_draining hook E else (DrServing, []))"

definition poll_handshake :: "bool \<Rightarrow> bool \<Rightarrow> driver_env \<Rightarrow> driver \<times> io_error list" where
  "poll_handshake hook signalled E =
     (case de_handshake E of
        Some (Inl e) \<Rightarrow> (DrFinished, hook_errors hook (Inl e))
      | Some (Inr _) \<Rightarrow>
          (case de_serve_tls E of
             Inl e \<Rightarrow> (DrFinished, hook_errors hook (Inl e))
           | Inr _ \<Rightarrow> poll_serving hook signalled E)
      | None \<Rightarrow> if signalled then (DrFinished, []) else (DrHandshaking, []))"

fun driver_poll :: "bool \<Rightarrow> bool \<Rightarrow> driver_env \<Rightarrow> driver \<Rightarrow> driver \<times> io_error list" where
  "driver_poll hook signalled E DrHandshaking = poll_handshake hook signalled E"
| "driver_poll hook signalled E DrServing = poll_serving hook signalled E"
| "driver_poll hook signalled E DrDraining = poll_draining hook E"
| "driver_poll hook signalled E DrFinished = (DrFinished, [])"

subsection \<open>The loop\<close>

record active_entry =
  ae_task :: nat
  ae_shutdown :: bool

datatype 's serve_event = EvShutdown | EvAccepted "(io_error, 's) result" | EvDone nat

text \<open>
  The loop is accepting or draining, draining after a failed accept, or has returned; or its
  owner has dropped the future before it returned.
\<close>

datatype loop_phase = LpRunning | LpFailing io_error | LpReturned "(io_error, unit) result" | LpDropped

record 's serve_world =
  lw_phase :: loop_phase
  lw_accepting :: bool
  lw_active :: "active_entry list"
  lw_drivers :: "nat \<Rightarrow> driver"
  lw_signalled :: "nat set"
  lw_spawned :: nat
  lw_rejected :: "'s list"
  lw_errors :: "io_error list"

definition serve_start :: "'s serve_world" where
  "serve_start =
     \<lparr>lw_phase = LpRunning, lw_accepting = True, lw_active = [], lw_drivers = (\<lambda>_. DrFinished),
      lw_signalled = {}, lw_spawned = 0, lw_rejected = [], lw_errors = []\<rparr>"

definition is_done :: "'s serve_world \<Rightarrow> active_entry \<Rightarrow> bool" where
  "is_done w a \<longleftrightarrow> lw_drivers w (ae_task a) = DrFinished"

definition poll_event :: "bool \<Rightarrow> (io_error, 's) result option \<Rightarrow> 's serve_world \<Rightarrow> 's serve_event option" where
  "poll_event shutdown accept w =
     (if lw_accepting w \<and> shutdown then Some EvShutdown
      else case position (is_done w) (lw_active w) of
        Some i \<Rightarrow> Some (EvDone i)
      | None \<Rightarrow> if lw_accepting w then map_option EvAccepted accept else None)"

definition swap_remove :: "nat \<Rightarrow> 'x list \<Rightarrow> 'x list" where
  "swap_remove i xs = butlast (xs[i := last xs])"

definition send_shutdown :: "'s serve_world \<Rightarrow> 's serve_world" where
  "send_shutdown w =
     w\<lparr>lw_signalled := lw_signalled w \<union> ae_task ` set (filter ae_shutdown (lw_active w)),
       lw_active := map (\<lambda>a. a\<lparr>ae_shutdown := False\<rparr>) (lw_active w)\<rparr>"

definition at_capacity :: "nat option \<Rightarrow> 's serve_world \<Rightarrow> bool" where
  "at_capacity limit w \<longleftrightarrow> (case limit of Some l \<Rightarrow> length (lw_active w) \<ge> l | None \<Rightarrow> False)"

definition spawn_driver :: "driver \<Rightarrow> 's serve_world \<Rightarrow> 's serve_world" where
  "spawn_driver d w =
     w\<lparr>lw_drivers := (lw_drivers w)(lw_spawned w := d),
       lw_active := lw_active w @ [\<lparr>ae_task = lw_spawned w, ae_shutdown = True\<rparr>],
       lw_spawned := lw_spawned w + 1\<rparr>"

fun handle_event :: "driver \<Rightarrow> nat option \<Rightarrow> 's serve_event \<Rightarrow> 's serve_world \<Rightarrow> 's serve_world" where
  "handle_event d limit EvShutdown w = (send_shutdown w)\<lparr>lw_accepting := False\<rparr>"
| "handle_event d limit (EvAccepted (Inl e)) w = (send_shutdown w)\<lparr>lw_phase := LpFailing e\<rparr>"
| "handle_event d limit (EvAccepted (Inr s)) w =
     (if at_capacity limit w then w\<lparr>lw_rejected := lw_rejected w @ [s]\<rparr> else spawn_driver d w)"
| "handle_event d limit (EvDone i) w = w\<lparr>lw_active := swap_remove i (lw_active w)\<rparr>"

text \<open>
  One turn of the loop: it returns when it neither accepts nor has active connections, else waits
  for an event; None means that it waits.
\<close>

definition loop_turn ::
  "driver \<Rightarrow> nat option \<Rightarrow> bool \<Rightarrow> (io_error, 's) result option \<Rightarrow> 's serve_world \<Rightarrow> 's serve_world option" where
  "loop_turn d limit shutdown accept w =
     (if \<not> lw_accepting w \<and> lw_active w = [] then Some (w\<lparr>lw_phase := LpReturned (Inr ())\<rparr>)
      else map_option (\<lambda>ev. handle_event d limit ev w) (poll_event shutdown accept w))"

definition drain_turn :: "io_error \<Rightarrow> 's serve_world \<Rightarrow> 's serve_world option" where
  "drain_turn e w =
     (if lw_active w = [] then Some (w\<lparr>lw_phase := LpReturned (Inl e)\<rparr>)
      else map_option (\<lambda>i. w\<lparr>lw_active := swap_remove i (lw_active w)\<rparr>)
             (position (is_done w) (lw_active w)))"

definition serve_turn ::
  "driver \<Rightarrow> nat option \<Rightarrow> bool \<Rightarrow> (io_error, 's) result option \<Rightarrow> 's serve_world \<Rightarrow> 's serve_world option" where
  "serve_turn d limit shutdown accept w =
     (case lw_phase w of
        LpRunning \<Rightarrow> loop_turn d limit shutdown accept w
      | LpFailing e \<Rightarrow> drain_turn e w
      | LpReturned r \<Rightarrow> None
      | LpDropped \<Rightarrow> None)"

definition run_turn ::
  "('b1, 'b2) serve_config \<Rightarrow> bool \<Rightarrow> (io_error, 's) result option \<Rightarrow> 's serve_world \<Rightarrow> 's serve_world option" where
  "run_turn c = serve_turn DrServing (sc_max_connections c)"

definition run_tls_turn ::
  "('b1, 'b2) serve_config \<Rightarrow> bool \<Rightarrow> (io_error, 's) result option \<Rightarrow> 's serve_world \<Rightarrow> 's serve_world option" where
  "run_tls_turn c = serve_turn DrHandshaking (sc_max_connections c)"

text \<open>
  Dropping the server's future drops the senders of its entries.  A driver awaits its receiver
  with \<^verbatim>\<open>select\<close>, which is ready when the message was sent and when the sender is gone.
\<close>

definition serve_drop :: "'s serve_world \<Rightarrow> 's serve_world" where
  "serve_drop w =
     w\<lparr>lw_phase := LpDropped,
       lw_signalled := lw_signalled w \<union> ae_task ` set (filter ae_shutdown (lw_active w)),
       lw_active := []\<rparr>"

text \<open>
  The server: turns of its loop, polls of its drivers, and the drop of its future, in any order.
  A driver observes the shutdown signal when its sender has been used or dropped.
\<close>

inductive serve_step ::
  "bool \<Rightarrow> ('b1, 'b2) serve_config \<Rightarrow> 's serve_world \<Rightarrow> 's serve_world \<Rightarrow> bool"
  for tls :: bool and c :: "('b1, 'b2) serve_config" where
  turn: "(if tls then run_tls_turn else run_turn) c shutdown accept w = Some w' \<Longrightarrow> serve_step tls c w w'"
| drive: "driver_poll (sc_hook c) (t \<in> lw_signalled w) E (lw_drivers w t) = (d', errs) \<Longrightarrow>
    serve_step tls c w (w\<lparr>lw_drivers := (lw_drivers w)(t := d'), lw_errors := lw_errors w @ errs\<rparr>)"
| abandon: "\<forall>r. lw_phase w \<noteq> LpReturned r \<Longrightarrow> serve_step tls c w (serve_drop w)"

inductive serve_reachable :: "bool \<Rightarrow> ('b1, 'b2) serve_config \<Rightarrow> 's serve_world \<Rightarrow> bool"
  for tls :: bool and c :: "('b1, 'b2) serve_config" where
  serve_init: "serve_reachable tls c serve_start"
| serve_next: "serve_reachable tls c w \<Longrightarrow> serve_step tls c w w' \<Longrightarrow> serve_reachable tls c w'"

section \<open>Invariant\<close>

lemma swap_remove_mset:
  assumes "i < length xs"
  shows "mset xs = add_mset (xs ! i) (mset (swap_remove i xs))"
proof -
  have ne: "xs \<noteq> []" using assms by auto
  have "last (xs[i := last xs]) = last xs"
    using ne assms by (simp add: last_list_update)
  then have "mset (swap_remove i xs) = mset (xs[i := last xs]) - {#last xs#}"
    unfolding swap_remove_def using ne by (metis append_butlast_last_id add_mset_remove_trivial list_update_nonempty mset.simps mset_append union_mset_add_mset_right add.right_neutral)
  also have "\<dots> = mset xs - {#xs ! i#}"
    using assms by (simp add: mset_update)
  finally show ?thesis
    using assms by (simp add: insert_DiffM)
qed

lemma swap_remove_facts:
  assumes "i < length xs"
  shows "set xs = insert (xs ! i) (set (swap_remove i xs))" "length (swap_remove i xs) = length xs - 1"
    "distinct (map f xs) \<Longrightarrow> distinct (map f (swap_remove i xs))"
proof -
  note m = swap_remove_mset[OF assms]
  show "set xs = insert (xs ! i) (set (swap_remove i xs))"
    using arg_cong[OF m, of set_mset] by simp
  show "length (swap_remove i xs) = length xs - 1"
    by (simp add: swap_remove_def)
  have "mset (map f xs) = mset (f (xs ! i) # map f (swap_remove i xs))"
    using arg_cong[OF m, of "image_mset f"] by simp
  then show "distinct (map f xs) \<Longrightarrow> distinct (map f (swap_remove i xs))"
    using mset_eq_imp_distinct_iff by fastforce
qed

text \<open>
  Every driver that runs has an entry of its own in the loop's list; the list respects the limit;
  once the loop stops accepting every entry has been told to shut down; and the loop returns
  with an empty list.  Once the future is dropped there is no list, but the drivers that still run
  respect the limit and have been told to shut down.
\<close>

definition running :: "'s serve_world \<Rightarrow> nat set" where
  "running w = {t. lw_drivers w t \<noteq> DrFinished}"

definition loop_inv :: "nat option \<Rightarrow> 's serve_world \<Rightarrow> bool" where
  "loop_inv limit w \<longleftrightarrow>
     distinct (map ae_task (lw_active w)) \<and>
     (\<forall>a \<in> set (lw_active w). ae_task a < lw_spawned w) \<and>
     (\<forall>t. lw_drivers w t \<noteq> DrFinished \<longrightarrow> t \<in> ae_task ` set (lw_active w)) \<and>
     (\<forall>l. limit = Some l \<longrightarrow> length (lw_active w) \<le> l) \<and>
     (\<not> lw_accepting w \<or> lw_phase w \<noteq> LpRunning \<longrightarrow> (\<forall>a \<in> set (lw_active w). \<not> ae_shutdown a)) \<and>
     (\<forall>a \<in> set (lw_active w). \<not> ae_shutdown a \<longrightarrow> ae_task a \<in> lw_signalled w) \<and>
     (\<forall>r. lw_phase w = LpReturned r \<longrightarrow> lw_active w = [])"

definition dropped_inv :: "nat option \<Rightarrow> 's serve_world \<Rightarrow> bool" where
  "dropped_inv limit w \<longleftrightarrow>
     finite (running w) \<and> running w \<subseteq> lw_signalled w \<and> (\<forall>l. limit = Some l \<longrightarrow> card (running w) \<le> l)"

definition serve_inv :: "nat option \<Rightarrow> 's serve_world \<Rightarrow> bool" where
  "serve_inv limit w \<longleftrightarrow> (if lw_phase w = LpDropped then dropped_inv limit w else loop_inv limit w)"

lemma loop_invD:
  assumes "loop_inv limit w"
  shows "distinct (map ae_task (lw_active w))" "a \<in> set (lw_active w) \<Longrightarrow> ae_task a < lw_spawned w"
    "lw_drivers w t \<noteq> DrFinished \<Longrightarrow> t \<in> ae_task ` set (lw_active w)"
    "limit = Some l \<Longrightarrow> length (lw_active w) \<le> l"
    "\<not> lw_accepting w \<or> lw_phase w \<noteq> LpRunning \<Longrightarrow> a \<in> set (lw_active w) \<Longrightarrow> \<not> ae_shutdown a"
    "a \<in> set (lw_active w) \<Longrightarrow> \<not> ae_shutdown a \<Longrightarrow> ae_task a \<in> lw_signalled w"
    "lw_phase w = LpReturned r \<Longrightarrow> lw_active w = []"
  using assms unfolding loop_inv_def by blast+

lemma loop_inv_running:
  assumes "loop_inv limit w"
  shows "finite (running w)" "limit = Some l \<Longrightarrow> card (running w) \<le> l"
proof -
  have sub: "running w \<subseteq> ae_task ` set (lw_active w)"
    using loop_invD(3)[OF assms] by (auto simp: running_def)
  then show "finite (running w)" using finite_subset by blast
  have "card (running w) \<le> card (ae_task ` set (lw_active w))"
    using sub by (simp add: card_mono)
  also have "\<dots> \<le> length (lw_active w)"
    by (metis card_length length_map set_map)
  finally show "limit = Some l \<Longrightarrow> card (running w) \<le> l"
    using loop_invD(4)[OF assms] by fastforce
qed

lemma inv_drop:
  assumes "loop_inv limit w"
  shows "dropped_inv limit (serve_drop w)"
proof -
  have "running (serve_drop w) = running w" by (simp add: running_def serve_drop_def)
  moreover have "t \<in> lw_signalled (serve_drop w)" if "t \<in> running w" for t
    using loop_invD(3)[OF assms, of t] loop_invD(6)[OF assms] that
    by (auto simp: running_def serve_drop_def)
  ultimately show ?thesis
    using loop_inv_running[OF assms] by (auto simp: dropped_inv_def)
qed

lemma inv_start: "loop_inv limit serve_start"
  by (simp add: loop_inv_def serve_start_def)

lemma inv_send_shutdown:
  assumes "loop_inv limit w"
  shows "loop_inv limit ((send_shutdown w)\<lparr>lw_accepting := b\<rparr>)"
    and "lw_phase w = LpRunning \<Longrightarrow> loop_inv limit ((send_shutdown w)\<lparr>lw_phase := LpFailing e\<rparr>)"
  using assms unfolding loop_inv_def send_shutdown_def
  by (auto simp: comp_def image_image)

lemma inv_remove:
  assumes "loop_inv limit w" and "position (is_done w) (lw_active w) = Some i" and "\<forall>r. lw_phase w \<noteq> LpReturned r"
  shows "loop_inv limit (w\<lparr>lw_active := swap_remove i (lw_active w)\<rparr>)"
proof -
  have i: "i < length (lw_active w)" and done_i: "lw_drivers w (ae_task (lw_active w ! i)) = DrFinished"
    using position_Some[OF assms(2)] by (auto simp: is_done_def)
  note facts = swap_remove_facts[OF i]
  have "length (swap_remove i (lw_active w)) \<le> l" if "limit = Some l" for l
    using loop_invD(4)[OF assms(1) that] facts(2) by simp
  moreover have "t \<in> ae_task ` set (swap_remove i (lw_active w))" if "lw_drivers w t \<noteq> DrFinished" for t
    using loop_invD(3)[OF assms(1) that] facts(1) done_i that by auto
  ultimately show ?thesis
    using assms(1,3) facts(1) facts(3)[of ae_task] unfolding loop_inv_def by auto
qed

lemma inv_spawn:
  assumes "loop_inv limit w" and "\<not> at_capacity limit w" and "lw_accepting w" and "lw_phase w = LpRunning"
  shows "loop_inv limit (spawn_driver d w)"
proof -
  have "\<forall>a \<in> set (lw_active w). ae_task a \<noteq> lw_spawned w"
    using loop_invD(2)[OF assms(1)] by fastforce
  then show ?thesis
    using assms unfolding loop_inv_def spawn_driver_def
    by (auto simp: at_capacity_def less_Suc_eq split: if_splits)
qed

lemma inv_turn:
  assumes "loop_inv limit w" and "serve_turn d limit shutdown accept w = Some w'"
  shows "loop_inv limit w'"
proof (cases "lw_phase w")
  case LpRunning
  show ?thesis
  proof (cases "\<not> lw_accepting w \<and> lw_active w = []")
    case True
    then show ?thesis
      using assms LpRunning by (auto simp: serve_turn_def loop_turn_def loop_inv_def)
  next
    case False
    then obtain ev where ev: "poll_event shutdown accept w = Some ev" "w' = handle_event d limit ev w"
      using assms(2) LpRunning by (auto simp: serve_turn_def loop_turn_def)
    show ?thesis
    proof (cases "(d, limit, ev, w)" rule: handle_event.cases)
      case 1
      then show ?thesis using ev inv_send_shutdown(1)[OF assms(1)] by simp
    next
      case 2
      then show ?thesis using ev inv_send_shutdown(2)[OF assms(1)] LpRunning by simp
    next
      case (3 _ _ s)
      then have "lw_accepting w"
        using ev(1) by (auto simp: poll_event_def split: if_splits option.splits)
      then show ?thesis
        using 3 ev inv_spawn[OF assms(1)] LpRunning assms(1) by (auto simp: loop_inv_def)
    next
      case (4 _ _ i)
      then have "position (is_done w) (lw_active w) = Some i"
        using ev(1) by (auto simp: poll_event_def split: if_splits option.splits)
      then show ?thesis using 4 ev inv_remove[OF assms(1)] LpRunning by simp
    qed
  qed
next
  case (LpFailing e)
  then show ?thesis
    using assms inv_remove[OF assms(1)]
    by (auto simp: serve_turn_def drain_turn_def loop_inv_def split: if_splits)
next
  case (LpReturned r)
  then show ?thesis using assms(2) by (simp add: serve_turn_def)
next
  case LpDropped
  then show ?thesis using assms(2) by (simp add: serve_turn_def)
qed

lemma handle_event_phase: "lw_phase w = LpRunning \<Longrightarrow> lw_phase (handle_event d limit ev w) \<noteq> LpDropped"
  by (cases "(d, limit, ev, w)" rule: handle_event.cases)
    (auto simp: send_shutdown_def spawn_driver_def)

lemma turn_not_dropped:
  "serve_turn d limit shutdown accept w = Some w' \<Longrightarrow> lw_phase w \<noteq> LpDropped \<and> lw_phase w' \<noteq> LpDropped"
  unfolding serve_turn_def loop_turn_def drain_turn_def
  by (auto simp: handle_event_phase split: loop_phase.splits if_splits)

lemma inv_drive:
  assumes "serve_inv limit w" and "driver_poll hook sg E (lw_drivers w t) = (d', errs)"
  shows "serve_inv limit (w\<lparr>lw_drivers := (lw_drivers w)(t := d'), lw_errors := lw_errors w @ errs\<rparr>)"
    (is "serve_inv limit ?w'")
proof -
  have step: "lw_drivers w t \<noteq> DrFinished" if "d' \<noteq> DrFinished"
    using assms(2) that by (cases "lw_drivers w t") auto
  then have sub: "running ?w' \<subseteq> running w" by (auto simp: running_def)
  show ?thesis
  proof (cases "lw_phase w = LpDropped")
    case True
    then have "dropped_inv limit w" using assms(1) by (simp add: serve_inv_def)
    then show ?thesis
      using True sub card_mono[OF _ sub] finite_subset[OF sub]
      by (auto simp: serve_inv_def dropped_inv_def intro: order_trans)
  next
    case False
    then show ?thesis using assms(1) step by (auto simp: serve_inv_def loop_inv_def)
  qed
qed

lemma serve_reachable_inv: "serve_reachable tls c w \<Longrightarrow> serve_inv (sc_max_connections c) w"
proof (induction rule: serve_reachable.induct)
  case serve_init
  then show ?case using inv_start by (simp add: serve_inv_def serve_start_def)
next
  case (serve_next w w')
  from serve_next.hyps(2) show ?case
  proof cases
    case (turn shutdown accept)
    then have t: "serve_turn (if tls then DrHandshaking else DrServing) (sc_max_connections c) shutdown accept w = Some w'"
      by (simp add: run_turn_def run_tls_turn_def split: if_splits)
    show ?thesis
      using serve_next.IH turn_not_dropped[OF t] inv_turn[OF _ t] by (simp add: serve_inv_def)
  next
    case drive
    then show ?thesis using inv_drive[OF serve_next.IH] by simp
  next
    case abandon
    then show ?thesis using serve_next.IH inv_drop
      by (auto simp: serve_inv_def serve_drop_def dropped_inv_def running_def split: if_splits)
  qed
qed

lemma reachable_running:
  assumes "serve_reachable tls c w"
  shows "finite (running w)" "sc_max_connections c = Some l \<Longrightarrow> card (running w) \<le> l"
    "\<not> lw_accepting w \<or> lw_phase w \<noteq> LpRunning \<Longrightarrow> lw_phase w \<noteq> LpDropped \<Longrightarrow> running w \<subseteq> lw_signalled w"
    "lw_phase w = LpDropped \<Longrightarrow> running w \<subseteq> lw_signalled w"
    "lw_phase w = LpReturned r \<Longrightarrow> running w = {}"
proof -
  note inv = serve_reachable_inv[OF assms]
  show "finite (running w)" "sc_max_connections c = Some l \<Longrightarrow> card (running w) \<le> l"
    "lw_phase w = LpDropped \<Longrightarrow> running w \<subseteq> lw_signalled w"
    using inv loop_inv_running[of "sc_max_connections c" w]
    by (auto simp: serve_inv_def dropped_inv_def split: if_splits)
  show "running w \<subseteq> lw_signalled w"
    if "\<not> lw_accepting w \<or> lw_phase w \<noteq> LpRunning" "lw_phase w \<noteq> LpDropped"
  proof
    fix t assume t: "t \<in> running w"
    have "loop_inv (sc_max_connections c) w" using inv that(2) by (simp add: serve_inv_def)
    note li = loop_invD[OF this]
    obtain a where "a \<in> set (lw_active w)" "t = ae_task a"
      using li(3)[of t] t by (auto simp: running_def)
    then show "t \<in> lw_signalled w" using li(5)[OF that(1)] li(6) by blast
  qed
  show "running w = {}" if "lw_phase w = LpReturned r"
    using inv that loop_invD(3,7)[of "sc_max_connections c" w] by (auto simp: serve_inv_def running_def)
qed

section \<open>Properties\<close>

text \<open>
  C22. The connection limit holds.  In every reachable state of the server, cleartext or TLS, the
  number of driver tasks that have not finished, handshakes included, is at most the
  configured limit, also after its future has been dropped.
\<close>

theorem server_connections_bounded:
  assumes "serve_reachable tls c w" and "sc_max_connections c = Some limit"
  shows "finite {t. lw_drivers w t \<noteq> DrFinished} \<and> card {t. lw_drivers w t \<noteq> DrFinished} \<le> limit"
  using reachable_running(1,2)[OF assms(1)] assms(2) by (auto simp: running_def)

text \<open>
  C23. Shutdown is graceful and complete.  In every reachable state in which the server has stopped
  accepting, because of the shutdown signal, of a failed accept, or because its future was dropped,
  every driver that is still running has been told to shut down; and when the server's future
  completes, no driver is left running.
\<close>

theorem shutdown_is_complete:
  assumes "serve_reachable tls c w"
  shows "(\<not> lw_accepting w \<or> lw_phase w \<noteq> LpRunning \<longrightarrow> {t. lw_drivers w t \<noteq> DrFinished} \<subseteq> lw_signalled w)
    \<and> ((\<exists>r. lw_phase w = LpReturned r) \<longrightarrow> (\<forall>t. lw_drivers w t = DrFinished))"
proof -
  note facts = reachable_running[OF assms]
  have "running w \<subseteq> lw_signalled w" if "\<not> lw_accepting w \<or> lw_phase w \<noteq> LpRunning"
    using facts(3)[OF that] facts(4) by blast
  moreover have "running w = {}" if "\<exists>r. lw_phase w = LpReturned r"
    using facts(5) that by blast
  ultimately show ?thesis by (auto simp: running_def)
qed

text \<open>The loop's turns, when only drivers' completions are left to happen.\<close>

fun turns :: "nat \<Rightarrow> driver \<Rightarrow> nat option \<Rightarrow> 's serve_world \<Rightarrow> 's serve_world option" where
  "turns 0 d limit w = Some w"
| "turns (Suc n) d limit w = Option.bind (serve_turn d limit True None w) (turns n d limit)"

lemma drains:
  assumes "lw_phase w = LpRunning" and "\<not> lw_accepting w" and "\<forall>t. lw_drivers w t = DrFinished"
  shows "\<exists>w'. turns (Suc (length (lw_active w))) d limit w = Some w' \<and> lw_phase w' = LpReturned (Inr ())"
  using assms
proof (induction "length (lw_active w)" arbitrary: w)
  case 0
  then show ?case by (simp add: serve_turn_def loop_turn_def)
next
  case (Suc n)
  have "position (is_done w) (lw_active w) = Some 0"
    using Suc.prems(3) Suc.hyps(2) by (cases "lw_active w") (auto simp: is_done_def)
  then have turn: "serve_turn d limit True None w = Some (w\<lparr>lw_active := swap_remove 0 (lw_active w)\<rparr>)"
    using Suc.prems Suc.hyps(2) by (auto simp: serve_turn_def loop_turn_def poll_event_def)
  have "n = length (lw_active (w\<lparr>lw_active := swap_remove 0 (lw_active w)\<rparr>))"
    using Suc.hyps(2) by (simp add: swap_remove_def)
  from Suc.hyps(1)[OF this] Suc.prems have
    "\<exists>w'. turns (Suc n) d limit (w\<lparr>lw_active := swap_remove 0 (lw_active w)\<rparr>) = Some w' \<and> lw_phase w' = LpReturned (Inr ())"
    using \<open>n = length _\<close> by simp
  then show ?case
    using turn Suc.hyps(2) by (metis bind.bind_lunit turns.simps(2))
qed

text \<open>
  C24. Shutdown terminates.  Once the shutdown signal has been handled and the drivers, which were
  told to shut down, have finished, the server's future completes successfully, after one turn
  of its loop for each connection it still lists and one more.
\<close>

theorem shutdown_terminates:
  assumes "serve_reachable tls c w" and "lw_phase w = LpRunning" and "\<not> lw_accepting w"
    and "\<forall>t \<in> lw_signalled w. lw_drivers w t = DrFinished"
  shows "\<exists>w'. turns (Suc (length (lw_active w))) (if tls then DrHandshaking else DrServing) (sc_max_connections c) w = Some w'
    \<and> lw_phase w' = LpReturned (Inr ())"
proof -
  have "running w \<subseteq> lw_signalled w" using reachable_running(3)[OF assms(1)] assms(2,3) by simp
  then have "lw_drivers w t = DrFinished" for t using assms(4) by (auto simp: running_def)
  then show ?thesis using drains[OF assms(2,3)] by blast
qed

text \<open>A server with room for one connection accepts one, is told to shut down, and its driver finishes.\<close>

definition demo_config :: "(unit, unit) serve_config" where
  "demo_config = serve_max_connections 1 (serve_new (Some ()) (Some ()))"

definition demo_env :: driver_env where
  "demo_env = \<lparr>de_handshake = None, de_serve_tls = Inr (), de_conn = None, de_conn_draining = Some (Inr ())\<rparr>"

definition demo_accepted :: "nat serve_world" where
  "demo_accepted = spawn_driver DrServing serve_start"

definition demo_draining :: "nat serve_world" where
  "demo_draining = (send_shutdown demo_accepted)\<lparr>lw_accepting := False\<rparr>"

definition demo_drained :: "nat serve_world" where
  "demo_drained = demo_draining\<lparr>lw_drivers := (lw_drivers demo_draining)(0 := DrFinished)\<rparr>"

lemmas demo_defs = demo_config_def demo_env_def demo_accepted_def demo_draining_def demo_drained_def
  serve_max_connections_def serve_new_def serve_start_def spawn_driver_def send_shutdown_def

lemma demo_reachable:
  "serve_reachable False demo_config demo_accepted" "serve_reachable False demo_config demo_draining"
  "serve_reachable False demo_config demo_drained"
proof -
  have "run_turn demo_config False (Some (Inr 7)) serve_start = Some demo_accepted"
    by (simp add: run_turn_def serve_turn_def loop_turn_def poll_event_def at_capacity_def demo_defs)
  then show acc: "serve_reachable False demo_config demo_accepted"
    using serve_reachable.serve_next[OF serve_reachable.serve_init serve_step.turn[of False demo_config]] by simp
  have "run_turn demo_config True None demo_accepted = Some demo_draining"
    by (simp add: run_turn_def serve_turn_def loop_turn_def poll_event_def demo_defs)
  then show dr: "serve_reachable False demo_config demo_draining"
    using serve_reachable.serve_next[OF acc serve_step.turn[of False demo_config]] by simp
  have "driver_poll (sc_hook demo_config) (0 \<in> lw_signalled demo_draining) demo_env (lw_drivers demo_draining 0)
      = (DrFinished, [])"
    by (simp add: demo_defs poll_serving_def poll_draining_def hook_errors_def)
  from serve_reachable.serve_next[OF dr serve_step.drive[OF this]]
  show "serve_reachable False demo_config demo_drained"
    by (simp add: demo_drained_def)
qed

theorem server_connections_bounded_witness:
  "lw_drivers demo_accepted 0 = DrServing \<and> card {t. lw_drivers demo_accepted t \<noteq> DrFinished} \<le> 1"
proof -
  have "sc_max_connections demo_config = Some 1" by (simp add: demo_defs)
  from server_connections_bounded[OF demo_reachable(1) this] show ?thesis by (simp add: demo_defs)
qed

theorem shutdown_is_complete_witness:
  "lw_drivers demo_draining 0 = DrServing \<and> \<not> lw_accepting demo_draining \<and> 0 \<in> lw_signalled demo_draining"
proof -
  have "\<not> lw_accepting demo_draining" "lw_drivers demo_draining 0 = DrServing" by (simp_all add: demo_defs)
  with shutdown_is_complete[OF demo_reachable(2)] show ?thesis by auto
qed

theorem shutdown_terminates_witness:
  "\<exists>w'. turns 2 DrServing (Some 1) demo_drained = Some w' \<and> lw_phase w' = LpReturned (Inr ())"
proof -
  have pre: "lw_phase demo_drained = LpRunning" "\<not> lw_accepting demo_drained"
    "\<forall>t \<in> lw_signalled demo_drained. lw_drivers demo_drained t = DrFinished"
    and eval: "length (lw_active demo_drained) = 1" "sc_max_connections demo_config = Some 1"
    by (simp_all add: demo_defs)
  show ?thesis
    using shutdown_terminates[OF demo_reachable(3) pre] eval by (simp add: numeral_2_eq_2)
qed

end
