(* ===== verification/Core_Runtime.thy ===== *)
theory Core_Runtime
  imports H12_Prelude
begin

text \<open>
  Executor and timer adapters (\<^verbatim>\<open>src/crates/h12tiny-core/src/runtime.rs\<close>).  An executor is what it does
  to the runtime it belongs to when a future is submitted; a sleep is the instant it waits for.
\<close>

section \<open>Executors\<close>

type_synonym ('f, 'w) executor = "'f \<Rightarrow> 'w \<Rightarrow> 'w"

record ('f, 'w) fn_executor =
  fx_submit :: "('f, 'w) executor"

definition fn_executor_new :: "('f, 'w) executor \<Rightarrow> ('f, 'w) fn_executor" where
  "fn_executor_new submit = \<lparr>fx_submit = submit\<rparr>"

definition fn_execute :: "('f, 'w) fn_executor \<Rightarrow> ('f, 'w) executor" where
  "fn_execute x fut w = fx_submit x fut w"

text \<open>\<open>box_pin\<close> erases the type of a concrete future.\<close>

record ('f, 'w) box_executor =
  bx_execute :: "('f, 'w) executor"

definition box_executor_new :: "('f, 'w) executor \<Rightarrow> ('f, 'w) box_executor" where
  "box_executor_new execute = \<lparr>bx_execute = execute\<rparr>"

definition box_execute :: "('c \<Rightarrow> 'f) \<Rightarrow> ('f, 'w) box_executor \<Rightarrow> ('c, 'w) executor" where
  "box_execute box_pin x fut w = bx_execute x (box_pin fut) w"

section \<open>Timers\<close>

text \<open>
  What a component relies on: a sleep made for a deadline is over exactly from that instant on,
  and resetting a sleep, of this timer or of another, moves it to the new deadline.
\<close>

locale deadline_timer =
  fixes make :: "nat \<Rightarrow> 't" and renew :: "nat \<Rightarrow> 't \<Rightarrow> 't" and elapsed :: "nat \<Rightarrow> 't \<Rightarrow> bool"
  assumes elapsed_make: "elapsed now (make d) \<longleftrightarrow> d \<le> now"
    and elapsed_renew: "elapsed now (renew d s) \<longleftrightarrow> d \<le> now"
begin

lemma last_deadline_wins: "elapsed now (foldl (\<lambda>s d. renew d s) (make d) ds) \<longleftrightarrow> last (d # ds) \<le> now"
  by (cases ds rule: rev_cases) (simp_all add: elapsed_make elapsed_renew)

end

text \<open>
  A boxed sleep is one of this timer or of a foreign type, with its own notion of being over.
\<close>

datatype sleep = FuturesSleep nat | ForeignSleep "nat \<Rightarrow> bool"

definition timer_sleep :: "nat \<Rightarrow> duration \<Rightarrow> sleep" where
  "timer_sleep now d = FuturesSleep (now + d)"

definition sleep_until :: "nat \<Rightarrow> sleep" where
  "sleep_until deadline = FuturesSleep deadline"

fun sleep_poll :: "nat \<Rightarrow> sleep \<Rightarrow> unit poll" where
  "sleep_poll now (FuturesSleep deadline) = (if deadline \<le> now then Ready () else Pending)"
| "sleep_poll now (ForeignSleep over) = (if over now then Ready () else Pending)"

definition sleep_reset :: "nat \<Rightarrow> nat \<Rightarrow> nat" where
  "sleep_reset deadline old = deadline"

fun timer_reset :: "nat \<Rightarrow> sleep \<Rightarrow> sleep" where
  "timer_reset deadline (FuturesSleep old) = FuturesSleep (sleep_reset deadline old)"
| "timer_reset deadline (ForeignSleep over) = sleep_until deadline"

interpretation async_io_timer: deadline_timer sleep_until timer_reset "\<lambda>now s. sleep_poll now s = Ready ()"
proof
  fix now d s
  show "sleep_poll now (sleep_until d) = Ready () \<longleftrightarrow> d \<le> now" by (simp add: sleep_until_def)
  show "sleep_poll now (timer_reset d s) = Ready () \<longleftrightarrow> d \<le> now"
    by (cases s) (simp_all add: sleep_until_def sleep_reset_def)
qed

text \<open>
  A timer's sleep fires by its last deadline: after any resets, on a sleep of this timer or of
  a foreign one, a poll is ready exactly from the last deadline set on.
\<close>

theorem timer_fires_at_last_deadline:
  "(sleep_poll now (foldl (\<lambda>s d. timer_reset d s) (sleep_until d) ds) = Ready () \<longleftrightarrow> last (d # ds) \<le> now)
   \<and> (sleep_poll now (foldl (\<lambda>s d. timer_reset d s) (timer_reset d s) ds) = Ready () \<longleftrightarrow> last (d # ds) \<le> now)"
proof
  show "sleep_poll now (foldl (\<lambda>s d. timer_reset d s) (sleep_until d) ds) = Ready () \<longleftrightarrow> last (d # ds) \<le> now"
    by (rule async_io_timer.last_deadline_wins)
  have "timer_reset d s = sleep_until d" by (cases s) (simp_all add: sleep_until_def sleep_reset_def)
  then show "sleep_poll now (foldl (\<lambda>s d. timer_reset d s) (timer_reset d s) ds) = Ready () \<longleftrightarrow> last (d # ds) \<le> now"
    by (simp add: async_io_timer.last_deadline_wins)
qed

end
