(* ===== verification/Util_Body.thy ===== *)
theory Util_Body
  imports Async_Io Http_Api
begin

text \<open>
  Body utilities (\<^verbatim>\<open>src/crates/h12tiny-util/src/lib.rs\<close>): streaming a reader, the idle timeout of a
  body, bounded collection, and replayable requests.  A body of the HTTP library is a state
  with a function that polls its next frame.
\<close>

section \<open>Bodies\<close>

datatype 't frame = DataFrame bytes | TrailersFrame 't

type_synonym ('b, 'e, 't) poll_frame = "'b \<Rightarrow> ('e, 't frame) result option poll \<times> 'b"

section \<open>Reader streams\<close>

record 'r reader_stream =
  rd_reader :: 'r
  rd_chunk_size :: nat
  rd_done :: bool

definition reader_stream_new :: "'r \<Rightarrow> 'r reader_stream" where
  "reader_stream_new r = \<lparr>rd_reader = r, rd_chunk_size = 16 * 1024, rd_done = False\<rparr>"

definition with_chunk_size :: "nat \<Rightarrow> 'r reader_stream \<Rightarrow> 'r reader_stream" where
  "with_chunk_size n st = st\<lparr>rd_chunk_size := max n 1\<rparr>"

definition reader_poll_next ::
  "'r futures_read \<Rightarrow> 'r reader_stream \<Rightarrow> (io_error, bytes) result option poll \<times> 'r reader_stream" where
  "reader_poll_next R st =
     (if rd_done st then (Ready None, st)
      else case R (rd_reader st) (zeroed (rd_chunk_size st)) of
        (Pending, buffer, r') \<Rightarrow> (Pending, st\<lparr>rd_reader := r'\<rparr>)
      | (Ready (Inr n), buffer, r') \<Rightarrow>
          if n = 0 then (Ready None, st\<lparr>rd_reader := r', rd_done := True\<rparr>)
          else (Ready (Some (Inr (take n buffer))), st\<lparr>rd_reader := r'\<rparr>)
      | (Ready (Inl e), buffer, r') \<Rightarrow> (Ready (Some (Inl e)), st\<lparr>rd_reader := r', rd_done := True\<rparr>))"

text \<open>\<^verbatim>\<open>stream_body\<close> turns each item of a data stream into a data frame.\<close>

definition stream_poll_frame ::
  "('s \<Rightarrow> ('e, bytes) result option poll \<times> 's) \<Rightarrow> ('s, 'e, 't) poll_frame" where
  "stream_poll_frame next s =
     (case next s of
        (Pending, s') \<Rightarrow> (Pending, s')
      | (Ready None, s') \<Rightarrow> (Ready None, s')
      | (Ready (Some item), s') \<Rightarrow> (Ready (Some (map_sum id DataFrame item)), s'))"

definition reader_body :: "'r futures_read \<Rightarrow> ('r reader_stream, io_error, 't) poll_frame" where
  "reader_body R = stream_poll_frame (reader_poll_next R)"

section \<open>Idle timeout\<close>

text \<open>\<open>ib_deadline\<close> is when the body's timer fires; \<open>now\<close> is the time of a poll.\<close>

record 'b idle_body =
  ib_inner :: 'b
  ib_deadline :: nat
  ib_idle :: duration
  ib_done :: bool

datatype 'e idle_error = IdleBody 'e | IdleTimedOut duration

definition idle_new :: "nat \<Rightarrow> 'b \<Rightarrow> duration \<Rightarrow> 'b idle_body" where
  "idle_new now inner idle = \<lparr>ib_inner = inner, ib_deadline = now + idle, ib_idle = idle, ib_done = False\<rparr>"

fun idle_is_timeout :: "'e idle_error \<Rightarrow> bool" where
  "idle_is_timeout (IdleTimedOut d) = True"
| "idle_is_timeout (IdleBody e) = False"

fun idle_body_error :: "'e idle_error \<Rightarrow> 'e option" where
  "idle_body_error (IdleBody e) = Some e"
| "idle_body_error (IdleTimedOut d) = None"

text \<open>The texts of errors; \<open>show\<close> is the text of the wrapped body's error, durations are in milliseconds.\<close>

fun idle_error_display :: "('e \<Rightarrow> string) \<Rightarrow> 'e idle_error \<Rightarrow> string" where
  "idle_error_display show (IdleBody e) = ''body error: '' @ show e"
| "idle_error_display show (IdleTimedOut idle) = ''body idle timeout after '' @ show_radix 10 idle @ '' ms''"

definition with_idle_timeout :: "nat \<Rightarrow> 'b \<Rightarrow> duration \<Rightarrow> 'b idle_body" where
  "with_idle_timeout now b idle = idle_new now b idle"

definition idle_poll_frame :: "('b, 'e, 't) poll_frame \<Rightarrow> nat \<Rightarrow> ('b idle_body, 'e idle_error, 't) poll_frame" where
  "idle_poll_frame P now st =
     (if ib_done st then (Ready None, st)
      else case P (ib_inner st) of
        (Ready (Some (Inr f)), b') \<Rightarrow>
          (Ready (Some (Inr f)), st\<lparr>ib_inner := b', ib_deadline := now + ib_idle st\<rparr>)
      | (Ready (Some (Inl e)), b') \<Rightarrow> (Ready (Some (Inl (IdleBody e))), st\<lparr>ib_inner := b', ib_done := True\<rparr>)
      | (Ready None, b') \<Rightarrow> (Ready None, st\<lparr>ib_inner := b', ib_done := True\<rparr>)
      | (Pending, b') \<Rightarrow>
          if now \<ge> ib_deadline st
          then (Ready (Some (Inl (IdleTimedOut (ib_idle st)))), st\<lparr>ib_inner := b', ib_done := True\<rparr>)
          else (Pending, st\<lparr>ib_inner := b'\<rparr>))"

definition idle_is_end_stream :: "('b \<Rightarrow> bool) \<Rightarrow> 'b idle_body \<Rightarrow> bool" where
  "idle_is_end_stream inner_end st \<longleftrightarrow> ib_done st \<or> inner_end (ib_inner st)"

section \<open>Bounded collection\<close>

record body_limit_error =
  bl_limit :: nat
  bl_received :: nat

datatype 'e collection_error =
    CollectBody 'e
  | LimitExceeded body_limit_error
  | InvalidUtf8
  | InvalidJson

fun is_limit_exceeded :: "'e collection_error \<Rightarrow> bool" where
  "is_limit_exceeded (LimitExceeded e) = True"
| "is_limit_exceeded _ = False"

fun limit_error :: "'e collection_error \<Rightarrow> body_limit_error option" where
  "limit_error (LimitExceeded e) = Some e"
| "limit_error _ = None"

definition body_limit_display :: "body_limit_error \<Rightarrow> string" where
  "body_limit_display e =
     ''body exceeded limit of '' @ show_radix 10 (bl_limit e) @ '' bytes (received at least ''
     @ show_radix 10 (bl_received e) @ '' bytes)''"

text \<open>\<open>utf8\<close> and \<open>json\<close> are the texts of the libraries' errors.\<close>

fun collection_error_display :: "('e \<Rightarrow> string) \<Rightarrow> string \<Rightarrow> string \<Rightarrow> 'e collection_error \<Rightarrow> string" where
  "collection_error_display show utf8 json (CollectBody e) = ''body error: '' @ show e"
| "collection_error_display show utf8 json (LimitExceeded e) = body_limit_display e"
| "collection_error_display show utf8 json InvalidUtf8 = ''body was not valid UTF-8: '' @ utf8"
| "collection_error_display show utf8 json InvalidJson = ''invalid JSON body: '' @ json"

text \<open>
  What a collection reserves before it reads, from the body's own bound on its size: a bound that
  is no \<^verbatim>\<open>usize\<close> counts as none.
\<close>

definition initial_capacity :: "nat option \<Rightarrow> nat \<Rightarrow> nat" where
  "initial_capacity upper limit =
     (case upper of
        None \<Rightarrow> 0
      | Some u \<Rightarrow> if u \<le> usize_max then min u limit else 0)"

lemma initial_capacity_le: "initial_capacity upper limit \<le> limit"
  by (auto simp: initial_capacity_def split: option.split)

text \<open>
  \<open>next\<close> is the result of awaiting the body's next frame.  None: the body never ends and never
  exceeds the limit.
\<close>

partial_function (option) collect_loop ::
  "('b \<Rightarrow> ('e, 't frame) result option \<times> 'b) \<Rightarrow> nat \<Rightarrow> bytes \<Rightarrow> nat \<Rightarrow> 'b
     \<Rightarrow> ('e collection_error, bytes) result option" where
  "collect_loop next limit output received b =
     (case next b of
        (None, b') \<Rightarrow> Some (Inr output)
      | (Some (Inl e), b') \<Rightarrow> Some (Inl (CollectBody e))
      | (Some (Inr (TrailersFrame t)), b') \<Rightarrow> collect_loop next limit output received b'
      | (Some (Inr (DataFrame d)), b') \<Rightarrow>
          (let total_len = saturating_add received (length d) in
           if total_len > limit
           then Some (Inl (LimitExceeded \<lparr>bl_limit = limit, bl_received = total_len\<rparr>))
           else collect_loop next limit (output @ d) total_len b'))"

definition collect_bytes_limited ::
  "('b \<Rightarrow> ('e, 't frame) result option \<times> 'b) \<Rightarrow> 'b \<Rightarrow> nat \<Rightarrow> ('e collection_error, bytes) result option" where
  "collect_bytes_limited next b limit = collect_loop next limit [] 0 b"

definition bytes_limited ::
  "('b \<Rightarrow> ('e, 't frame) result option \<times> 'b) \<Rightarrow> ('h, 'b) response \<Rightarrow> nat \<Rightarrow> ('e collection_error, bytes) result option" where
  "bytes_limited next rs limit = collect_bytes_limited next (rs_body rs) limit"

definition text_limited ::
  "('b \<Rightarrow> ('e, 't frame) result option \<times> 'b) \<Rightarrow> ('h, 'b) response \<Rightarrow> nat \<Rightarrow> ('e collection_error, string) result option" where
  "text_limited next rs limit =
     map_option (\<lambda>r. case r of
         Inl e \<Rightarrow> Inl e
       | Inr bs \<Rightarrow> if utf8_valid bs then Inr bs else Inl InvalidUtf8)
       (collect_bytes_limited next (rs_body rs) limit)"

definition json_limited ::
  "(string \<Rightarrow> 'v option) \<Rightarrow> ('b \<Rightarrow> ('e, 't frame) result option \<times> 'b) \<Rightarrow> ('h, 'b) response \<Rightarrow> nat
     \<Rightarrow> ('e collection_error, 'v) result option" where
  "json_limited from_str next rs limit =
     map_option (\<lambda>r. case r of
         Inl e \<Rightarrow> Inl e
       | Inr bs \<Rightarrow>
           if \<not> utf8_valid bs then Inl InvalidJson
           else (case from_str bs of Some v \<Rightarrow> Inr v | None \<Rightarrow> Inl InvalidJson))
       (collect_bytes_limited next (rs_body rs) limit)"

section \<open>Requests and responses\<close>

definition bearer :: "field_ops \<Rightarrow> string \<Rightarrow> header_value option" where
  "bearer F token = header_value_from_str F (''Bearer '' @ token)"

record 'o body_factory =
  bf_factory :: "unit \<Rightarrow> 'o"

definition factory_make :: "'o body_factory \<Rightarrow> 'o" where
  "factory_make f = bf_factory f ()"

definition replayable_value :: "'v \<Rightarrow> 'v body_factory" where
  "replayable_value v = \<lparr>bf_factory = (\<lambda>_. v)\<rparr>"

record ('u, 'h, 'o) replayable_request =
  rp_template :: "('u, 'h, unit) request"
  rp_body :: "'o body_factory"

definition replayable_new :: "('u, 'h, unit) request \<Rightarrow> (unit \<Rightarrow> 'o) \<Rightarrow> ('u, 'h, 'o) replayable_request" where
  "replayable_new template factory = \<lparr>rp_template = template, rp_body = \<lparr>bf_factory = factory\<rparr>\<rparr>"

definition with_body :: "('u, 'h, 'x) request \<Rightarrow> 'b \<Rightarrow> ('u, 'h, 'b) request" where
  "with_body r b =
     \<lparr>rq_method = rq_method r, rq_uri = rq_uri r, rq_version = rq_version r, rq_headers = rq_headers r, rq_body = b\<rparr>"

definition replayable_from_request ::
  "('u, 'h, 'b) request \<Rightarrow> (unit \<Rightarrow> 'o) \<Rightarrow> ('u, 'h, 'o) replayable_request" where
  "replayable_from_request r factory = replayable_new (with_body r ()) factory"

definition replayable_build :: "('u, 'h, 'o) replayable_request \<Rightarrow> ('u, 'h, 'o) request" where
  "replayable_build rp = with_body (rp_template rp) (factory_make (rp_body rp))"

text \<open>A request kept for replay is sent, each time it is built, as the original with a fresh body.\<close>

lemma replay_rebuilds:
  "replayable_build (replayable_from_request r (bf_factory f)) = with_body r (factory_make f)"
  by (simp add: replayable_build_def replayable_from_request_def replayable_new_def with_body_def factory_make_def)

definition json_body :: "('v \<Rightarrow> string) \<Rightarrow> 'v \<Rightarrow> bytes" where
  "json_body to_string v = to_string v"

definition json_response :: "'h header_ops \<Rightarrow> ('v \<Rightarrow> string) \<Rightarrow> 'v \<Rightarrow> ('h, bytes) response" where
  "json_response H to_string v =
     \<lparr>rs_status = 200, rs_version = HTTP_11,
      rs_headers = hm_insert H (hm_new H) ''content-type'' ''application/json'', rs_body = json_body to_string v\<rparr>"

section \<open>Collection is exact\<close>

text \<open>\<open>begins next b items b'\<close>: awaiting frames from \<open>b\<close> gives \<open>items\<close> and leaves \<open>b'\<close>.\<close>

primrec begins :: "('b \<Rightarrow> 'i option \<times> 'b) \<Rightarrow> 'b \<Rightarrow> 'i list \<Rightarrow> 'b \<Rightarrow> bool" where
  "begins next b [] b' \<longleftrightarrow> b = b'"
| "begins next b (i # rest) b' \<longleftrightarrow> fst (next b) = Some i \<and> begins next (snd (next b)) rest b'"

fun body_data :: "('e, 't frame) result list \<Rightarrow> bytes" where
  "body_data [] = []"
| "body_data (Inr (DataFrame d) # rest) = d @ body_data rest"
| "body_data (Inr (TrailersFrame t) # rest) = body_data rest"
| "body_data (Inl e # rest) = body_data rest"

lemma collect_loop_begins:
  assumes "begins next b items b'" "list_all (\<lambda>i. \<not> isl i) items"
    "length out + length (body_data items) \<le> limit" "limit \<le> usize_max"
  shows "collect_loop next limit out (length out) b
    = collect_loop next limit (out @ body_data items) (length out + length (body_data items)) b'"
  using assms
proof (induction items arbitrary: b out rule: body_data.induct)
  case (2 d rest)
  obtain b1 where nb: "next b = (Some (Inr (DataFrame d)), b1)" using 2 by (cases "next b") auto
  have "collect_loop next limit out (length out) b = collect_loop next limit (out @ d) (length (out @ d)) b1"
    using 2 by (subst collect_loop.simps) (simp add: nb saturating_add_def)
  then show ?case using 2 by (simp add: nb 2(1)[of b1 "out @ d", simplified] add.assoc)
next
  case (3 t rest)
  obtain b1 where nb: "next b = (Some (Inr (TrailersFrame t)), b1)" using 3 by (cases "next b") auto
  show ?case using 3 by (subst collect_loop.simps) (simp add: nb)
qed simp_all

text \<open>
  C27. Bounded collection is exact.  After frames whose data fits the limit, a body that ends is
  collected to exactly its data (trailers contribute nothing); a body that fails reports its own
  error; and a data frame that crosses the limit is refused with the limit and the size reached,
  without waiting for the rest of the body, which may be endless.
\<close>

theorem collect_limited_exact:
  assumes "begins next b items b'" "list_all (\<lambda>i. \<not> isl i) items"
    and "length (body_data items) \<le> limit" "limit < usize_max"
  shows "(fst (next b') = None \<longrightarrow> collect_bytes_limited next b limit = Some (Inr (body_data items)))
    \<and> (fst (next b') = Some (Inl e) \<longrightarrow> collect_bytes_limited next b limit = Some (Inl (CollectBody e)))
    \<and> (fst (next b') = Some (Inr (DataFrame d)) \<and> limit < length (body_data items) + length d \<longrightarrow>
        collect_bytes_limited next b limit =
          Some (Inl (LimitExceeded \<lparr>bl_limit = limit,
             bl_received = min (length (body_data items) + length d) usize_max\<rparr>)))"
proof -
  let ?n = "length (body_data items)"
  have start: "collect_bytes_limited next b limit = collect_loop next limit (body_data items) ?n b'"
    using collect_loop_begins[OF assms(1,2), of "[]" limit] assms(3,4) by (simp add: collect_bytes_limited_def)
  show ?thesis
    unfolding start using assms(4)
    by (intro conjI impI; subst collect_loop.simps; cases "next b'") (simp_all add: saturating_add_def)
qed

fun list_next :: "'i list \<Rightarrow> 'i option \<times> 'i list" where
  "list_next [] = (None, [])"
| "list_next (i # rest) = (Some i, rest)"

theorem collect_limited_exact_witness:
  "collect_bytes_limited list_next
     [Inr (DataFrame ''ab''), Inr (TrailersFrame ()), Inr (DataFrame ''cde''), Inl ''reset''] 4
   = Some (Inl (LimitExceeded \<lparr>bl_limit = 4, bl_received = 5\<rparr>))"
  using collect_limited_exact[of list_next "[Inr (DataFrame ''ab''), Inr (TrailersFrame ()), Inr (DataFrame ''cde''), Inl ''reset'']"
      "[Inr (DataFrame ''ab''), Inr (TrailersFrame ())]" "[Inr (DataFrame ''cde''), Inl ''reset'']" 4 undefined "''cde''"]
  by (simp add: usize_max_def)

section \<open>Reader streams deliver the reader's bytes\<close>

primrec reader_polls ::
  "'r futures_read \<Rightarrow> nat \<Rightarrow> 'r reader_stream \<Rightarrow> (io_error, bytes) result option poll list \<times> 'r reader_stream" where
  "reader_polls R 0 st = ([], st)"
| "reader_polls R (Suc k) st =
     (let (a, st1) = reader_poll_next R st; (as, st2) = reader_polls R k st1 in (a # as, st2))"

fun chunks :: "(io_error, bytes) result option poll list \<Rightarrow> bytes list" where
  "chunks [] = []"
| "chunks (Ready (Some (Inr c)) # as) = c # chunks as"
| "chunks (_ # as) = chunks as"

lemma zeroed_size: "length (zeroed n) = n" "zeroed n = [] \<longleftrightarrow> n = 0"
  by (simp_all add: zeroed_def)

lemma reader_poll_hyper:
  assumes "0 < rd_chunk_size st"
  shows "reader_poll_next (hyper_io_poll_read R) st =
    (if rd_done st then (Ready None, st)
     else case R (rd_reader st) (rd_chunk_size st) of
       (Pending, r') \<Rightarrow> (Pending, st\<lparr>rd_reader := r'\<rparr>)
     | (Ready (Inr bs), r') \<Rightarrow>
         if bs = [] then (Ready None, st\<lparr>rd_reader := r', rd_done := True\<rparr>)
         else (Ready (Some (Inr bs)), st\<lparr>rd_reader := r'\<rparr>)
     | (Ready (Inl e), r') \<Rightarrow> (Ready (Some (Inl e)), st\<lparr>rd_reader := r', rd_done := True\<rparr>))"
proof -
  have "hyper_io_poll_read R (rd_reader st) (zeroed (rd_chunk_size st)) =
     (case R (rd_reader st) (rd_chunk_size st) of
        (Ready (Inr bs), s') \<Rightarrow> (Ready (Inr (length bs)), bs @ drop (length bs) (zeroed (rd_chunk_size st)), s')
      | (Ready (Inl e), s') \<Rightarrow> (Ready (Inl e), zeroed (rd_chunk_size st), s')
      | (Pending, s') \<Rightarrow> (Pending, zeroed (rd_chunk_size st), s'))"
    using assms by (simp add: hyper_io_poll_read_def zeroed_size)
  then show ?thesis
    by (simp add: reader_poll_next_def split: prod.split poll.split sum.split)
qed

lemma reader_poll_source:
  assumes src: "async_source R pend" and pos: "0 < rd_chunk_size st"
    and step: "reader_poll_next (hyper_io_poll_read R) st = (a, st')"
  shows "pend (rd_reader st) = concat (chunks [a]) @ pend (rd_reader st')
    \<and> rd_chunk_size st' = rd_chunk_size st
    \<and> (\<forall>c \<in> set (chunks [a]). c \<noteq> [] \<and> length c \<le> rd_chunk_size st)
    \<and> (rd_done st' \<longleftrightarrow> rd_done st \<or> (\<exists>e. a = Ready (Some (Inl e))) \<or> a = Ready None)
    \<and> (a = Ready None \<and> \<not> rd_done st \<longrightarrow> pend (rd_reader st) = [])
    \<and> (rd_done st \<longrightarrow> a = Ready None)"
proof (cases "rd_done st")
  case True
  then show ?thesis using step by (auto simp: reader_poll_next_def)
next
  case False
  note unfolded = step[unfolded reader_poll_hyper[OF pos]]
  obtain p s' where r: "R (rd_reader st) (rd_chunk_size st) = (p, s')" by fastforce
  consider (wait) "p = Pending" | (eof) "p = Ready (Inr [])"
    | (some) bs where "p = Ready (Inr bs)" "bs \<noteq> []" | (fail) e where "p = Ready (Inl e)"
    by (metis poll.exhaust sum.exhaust)
  then show ?thesis
  proof cases
    case wait
    then show ?thesis using unfolded False r async_source.read_wait[OF src, of "rd_reader st"] by auto
  next
    case eof
    then show ?thesis
      using unfolded False r pos async_source.read_eof[OF src, of "rd_reader st"]
        async_source.read_some[OF src, of "rd_reader st"] by auto
  next
    case some
    then show ?thesis using unfolded False r async_source.read_some[OF src, of "rd_reader st"] by auto
  next
    case fail
    then show ?thesis using unfolded False r async_source.read_fail[OF src, of "rd_reader st"] by auto
  qed
qed

lemma chunks_Cons: "chunks (a # as) = chunks [a] @ chunks as"
  by (cases "[a]" rule: chunks.cases) simp_all

lemma reader_polls_done: "rd_done st \<Longrightarrow> reader_polls R k st = (replicate k (Ready None), st)"
  by (induction k) (simp_all add: reader_poll_next_def)

lemma chunks_none: "chunks (replicate k (Ready None)) = []"
  by (induction k) simp_all

text \<open>
  C28. A reader stream delivers the reader's bytes: over any number of polls, whenever the reader
  is not ready and however it splits its data, the chunks so far followed by what the reader
  still holds are the original bytes, no chunk is empty or larger than the configured size, and a
  stream that ended without an error has delivered everything.
\<close>

theorem reader_stream_exact:
  assumes "async_source R pend" "0 < rd_chunk_size st" "\<not> rd_done st"
    and "reader_polls (hyper_io_poll_read R) k st = (as, st')"
  shows "pend (rd_reader st) = concat (chunks as) @ pend (rd_reader st')
    \<and> (\<forall>c \<in> set (chunks as). c \<noteq> [] \<and> length c \<le> rd_chunk_size st)
    \<and> (Ready None \<in> set as \<and> (\<forall>e. Ready (Some (Inl e)) \<notin> set as) \<longrightarrow> concat (chunks as) = pend (rd_reader st))"
  using assms(2-)
proof (induction k arbitrary: st as)
  case 0
  then show ?case by simp
next
  case (Suc k)
  obtain a st1 bs where step: "reader_poll_next (hyper_io_poll_read R) st = (a, st1)"
    and rest: "reader_polls (hyper_io_poll_read R) k st1 = (bs, st')" and as: "as = a # bs"
    using Suc.prems(3) by (auto simp: Let_def split: prod.splits)
  note one = reader_poll_source[OF assms(1) Suc.prems(1) step]
  show ?case
  proof (cases "rd_done st1")
    case True
    then have bs: "bs = replicate k (Ready None)" and st': "st' = st1" using rest by (simp_all add: reader_polls_done)
    have cs: "chunks as = chunks [a]" by (simp add: as bs chunks_Cons[of a "replicate k (Ready None)"] chunks_none)
    consider (fail) e where "a = Ready (Some (Inl e))" | (eof) "a = Ready None"
      using one True Suc.prems(2) by blast
    then show ?thesis
    proof cases
      case fail
      then have "Ready (Some (Inl e)) \<in> set as" by (simp add: as)
      then show ?thesis using one unfolding cs st' by blast
    next
      case eof
      then have "pend (rd_reader st) = []" using one Suc.prems(2) by blast
      then show ?thesis using one unfolding cs st' by simp
    qed
  next
    case False
    have a: "a \<noteq> Ready None" using one False by blast
    have size: "rd_chunk_size st1 = rd_chunk_size st" and src: "pend (rd_reader st) = concat (chunks [a]) @ pend (rd_reader st1)"
      and cs1: "\<forall>c \<in> set (chunks [a]). c \<noteq> [] \<and> length c \<le> rd_chunk_size st"
      using one by blast+
    have cs: "chunks as = chunks [a] @ chunks bs" by (simp only: as chunks_Cons[of a bs])
    have "Ready None \<in> set as \<longleftrightarrow> Ready None \<in> set bs" using a by (simp add: as)
    moreover have "(\<forall>e. Ready (Some (Inl e)) \<notin> set as) \<longrightarrow> (\<forall>e. Ready (Some (Inl e)) \<notin> set bs)" by (simp add: as)
    ultimately show ?thesis
      using Suc.IH[OF _ False rest] Suc.prems(1) cs1 unfolding cs src size concat_append append_assoc set_append
      by blast
  qed
qed

theorem reader_stream_exact_witness:
  "\<exists>as st'. reader_polls (hyper_io_poll_read script_read) 6
       (with_chunk_size 2 (reader_stream_new [Arrived CHR ''a'' ''bc'', NotReady, Arrived CHR ''d'' []])) = (as, st')
     \<and> chunks as = [''ab'', ''c'', ''d''] \<and> concat (chunks as) = ''abcd''"
proof -
  let ?st = "with_chunk_size 2 (reader_stream_new [Arrived CHR ''a'' ''bc'', NotReady, Arrived CHR ''d'' []])"
  let ?as = "[Ready (Some (Inr ''ab'')), Ready (Some (Inr ''c'')), Pending, Ready (Some (Inr ''d'')), Ready None, Ready None]"
  have run: "reader_polls (hyper_io_poll_read script_read) 6 ?st
     = (?as, \<lparr>rd_reader = [], rd_chunk_size = 2, rd_done = True\<rparr>)"
    by code_simp
  have "concat (chunks ?as) = ''abcd''"
    using reader_stream_exact[OF script.async_source_axioms _ _ run]
    by (simp add: with_chunk_size_def reader_stream_new_def)
  then show ?thesis using run by auto
qed

section \<open>The idle timeout measures silence\<close>

primrec idle_polls ::
  "('b, 'e, 't) poll_frame \<Rightarrow> nat list \<Rightarrow> 'b idle_body
     \<Rightarrow> ('e idle_error, 't frame) result option poll list \<times> 'b idle_body" where
  "idle_polls P [] st = ([], st)"
| "idle_polls P (now # ts) st =
     (let (a, st1) = idle_poll_frame P now st; (as, st2) = idle_polls P ts st1 in (a # as, st2))"

text \<open>The time of the last frame, or else the time the body was created.\<close>

fun last_frame :: "nat \<Rightarrow> nat list \<Rightarrow> ('e idle_error, 't frame) result option poll list \<Rightarrow> nat" where
  "last_frame t (now # ts) (Ready (Some (Inr f)) # as) = last_frame now ts as"
| "last_frame t (now # ts) (_ # as) = last_frame t ts as"
| "last_frame t _ _ = t"

lemma idle_poll_step:
  assumes "idle_poll_frame P now st = (a, st')" "\<not> ib_done st" "ib_deadline st = t + ib_idle st"
  shows "ib_idle st' = ib_idle st \<and> ib_deadline st' = last_frame t [now] [a] + ib_idle st'
    \<and> (ib_done st' \<longleftrightarrow> a = Ready None \<or> (\<exists>e. a = Ready (Some (Inl e))))"
  using assms
  by (auto simp: idle_poll_frame_def split: prod.splits poll.splits option.splits sum.splits if_splits)

lemma last_frame_Cons: "last_frame t (now # ts) (a # as) = last_frame (last_frame t [now] [a]) ts as"
  by (cases "(t, now # ts, a # as)" rule: last_frame.cases) auto

lemma idle_poll_done: "ib_done st \<Longrightarrow> idle_poll_frame P now st = (Ready None, st)"
  by (simp add: idle_poll_frame_def)

lemma idle_polls_done: "ib_done st \<Longrightarrow> idle_polls P ts st = (replicate (length ts) (Ready None), st)"
  by (induction ts) (simp_all add: idle_poll_done)

lemma idle_polls_deadline:
  assumes "idle_polls P ts st = (as, st')" "\<not> ib_done st'" "ib_deadline st = t + ib_idle st"
  shows "ib_idle st' = ib_idle st \<and> ib_deadline st' = last_frame t ts as + ib_idle st"
  using assms
proof (induction ts arbitrary: st as t)
  case (Cons now ts)
  obtain a st1 bs where step: "idle_poll_frame P now st = (a, st1)"
    and rest: "idle_polls P ts st1 = (bs, st')" and as: "as = a # bs"
    using Cons.prems(1) by (auto simp: Let_def split: prod.splits)
  have "\<not> ib_done st1" using rest Cons.prems(2) idle_polls_done[of st1 P ts] by auto
  then have "\<not> ib_done st" using step idle_poll_done[of st P now] by auto
  from idle_poll_step[OF step this Cons.prems(3)] Cons.IH[OF rest Cons.prems(2)]
  show ?case by (simp add: as last_frame_Cons[of t now ts a bs])
qed simp

text \<open>
  C29. The idle timeout measures silence exactly.  Poll a body at any times; a further poll
  reports a timeout if and only if the body has nothing ready and its last frame, or its
  creation when there was none, lies at least the idle duration back.  A frame that is ready is
  delivered even then, and a body that timed out, failed or ended stays ended.
\<close>

theorem idle_timeout_exact:
  assumes "idle_polls P ts (idle_new t0 b idle) = (as, st)" "\<not> ib_done st"
    and "idle_poll_frame P now st = (a, st')"
  shows "(a = Ready (Some (Inl (IdleTimedOut d))) \<longleftrightarrow>
            fst (P (ib_inner st)) = Pending \<and> last_frame t0 ts as + idle \<le> now \<and> d = idle)
    \<and> (fst (P (ib_inner st)) = Ready (Some (Inr f)) \<longrightarrow> a = Ready (Some (Inr f)))
    \<and> ((\<exists>e. a = Ready (Some (Inl e))) \<or> a = Ready None \<longrightarrow>
         fst (idle_polls P later st') = replicate (length later) (Ready None))"
proof -
  have dl: "ib_idle st = idle" "ib_deadline st = last_frame t0 ts as + idle"
    using idle_polls_deadline[OF assms(1,2), of t0] by (simp_all add: idle_new_def)
  have "ib_done st'" if "(\<exists>e. a = Ready (Some (Inl e))) \<or> a = Ready None"
    using idle_poll_step[OF assms(3,2)] dl that by auto
  then have "(\<exists>e. a = Ready (Some (Inl e))) \<or> a = Ready None \<longrightarrow>
      fst (idle_polls P later st') = replicate (length later) (Ready None)"
    by (auto simp: idle_polls_done)
  moreover have "(a = Ready (Some (Inl (IdleTimedOut d))) \<longleftrightarrow>
      fst (P (ib_inner st)) = Pending \<and> last_frame t0 ts as + idle \<le> now \<and> d = idle)
    \<and> (fst (P (ib_inner st)) = Ready (Some (Inr f)) \<longrightarrow> a = Ready (Some (Inr f)))"
    using assms(2,3) dl
    by (auto simp: idle_poll_frame_def split: prod.splits poll.splits option.splits sum.splits if_splits)
  ultimately show ?thesis by blast
qed

text \<open>A body given by what its polls answer.\<close>

fun script_frames :: "('e, 't frame) result option poll list \<Rightarrow> ('e, 't frame) result option poll \<times> ('e, 't frame) result option poll list" where
  "script_frames [] = (Pending, [])"
| "script_frames (a # as) = (a, as)"

theorem idle_timeout_exact_witness:
  "fst (idle_polls script_frames [3, 12] (idle_new 0 [Ready (Some (Inr (DataFrame ''x'' :: unit frame))) :: (unit, unit frame) result option poll] 10))
     = [Ready (Some (Inr (DataFrame ''x''))), Pending]
   \<and> fst (idle_poll_frame script_frames 13 \<lparr>ib_inner = ([] :: (unit, unit frame) result option poll list), ib_deadline = 13, ib_idle = 10, ib_done = False\<rparr>)
     = Ready (Some (Inl (IdleTimedOut 10)))"
proof -
  let ?b = "[Ready (Some (Inr (DataFrame ''x'' :: unit frame))) :: (unit, unit frame) result option poll]"
  let ?st = "\<lparr>ib_inner = ([] :: (unit, unit frame) result option poll list), ib_deadline = 13, ib_idle = 10, ib_done = False\<rparr>"
  have run: "idle_polls script_frames [3, 12] (idle_new 0 ?b 10)
     = ([Ready (Some (Inr (DataFrame ''x''))), Pending], ?st)"
    by code_simp
  have live: "\<not> ib_done ?st" by simp
  show ?thesis
    using idle_timeout_exact[OF run live, of 13 "fst (idle_poll_frame script_frames 13 ?st)"
        "snd (idle_poll_frame script_frames 13 ?st)" 10 undefined "[]"] run by simp
qed

end
