(* ===== verification/Web_Extract.thy ===== *)
theory Web_Extract
  imports Util_Body
begin

text \<open>
  Requests and responses of the application layer (\<^verbatim>\<open>src/crates/h12tiny-web/src/lib.rs\<close>): route
  parameters, rejections, conversions to responses, limited request bodies, extractors and the
  glue that runs extractors before a handler.
\<close>

section \<open>Route parameters, metadata and rejections\<close>

type_synonym route_params = "(string \<times> string) list"

definition params_get :: "route_params \<Rightarrow> string \<Rightarrow> string option" where
  "params_get ps name = map_option snd (find (\<lambda>p. fst p = name) ps)"

definition params_values :: "route_params \<Rightarrow> string list" where
  "params_values ps = map snd ps"

record request_meta =
  mt_params :: route_params
  mt_body_limit :: "nat option"

record rejection =
  rj_status :: status_code
  rj_message :: string

definition rejection_new :: "status_code \<Rightarrow> string \<Rightarrow> rejection" where
  "rejection_new status message = \<lparr>rj_status = status, rj_message = message\<rparr>"

section \<open>Bodies\<close>

record body_limit_exceeded =
  be_limit :: nat
  be_received :: nat

definition limit_display :: "body_limit_exceeded \<Rightarrow> string" where
  "limit_display e = ''request body exceeded limit of '' @ show_radix 10 (be_limit e)
     @ '' bytes (received at least '' @ show_radix 10 (be_received e) @ '' bytes)''"

record limited_body_error =
  le_limit :: "body_limit_exceeded option"
  le_message :: string

text \<open>
  The errors a boxed body can hold: those of the limit below, and the transport's.
\<close>

datatype 'e box_error = BoxLimited limited_body_error | BoxTransport 'e

text \<open>
  What the program asks of a transport's error: its text, and whether it is a limit error itself.
\<close>

record 'e transport_errors =
  te_display :: "'e \<Rightarrow> string"
  te_as_limit :: "'e \<Rightarrow> body_limit_exceeded option"

fun box_error_display :: "'e transport_errors \<Rightarrow> 'e box_error \<Rightarrow> string" where
  "box_error_display E (BoxLimited e) = le_message e"
| "box_error_display E (BoxTransport e) = te_display E e"

definition limited_inner :: "string \<Rightarrow> limited_body_error" where
  "limited_inner message = \<lparr>le_limit = None, le_message = message\<rparr>"

definition limited_limit :: "body_limit_exceeded \<Rightarrow> limited_body_error" where
  "limited_limit e = \<lparr>le_limit = Some e, le_message = limit_display e\<rparr>"

text \<open>
  An erased body: the transport's, one under a limit (with the limit and the bytes received so
  far), a single chunk, or nothing.
\<close>

datatype 'b box_body =
    Transport 'b
  | LimitedBody nat nat "'b box_body"
  | FullBody "bytes option"

definition bytes_body :: "bytes \<Rightarrow> 'b box_body" where
  "bytes_body bs = FullBody (if bs = [] then None else Some bs)"

definition empty_body :: "'b box_body" where
  "empty_body = FullBody None"

definition limited_new :: "'b box_body \<Rightarrow> nat \<Rightarrow> 'b box_body" where
  "limited_new b limit = LimitedBody limit 0 b"

text \<open>What a limited body makes of a frame of the body inside, and the bytes received then.\<close>

fun limited_frame ::
  "'e transport_errors \<Rightarrow> nat \<Rightarrow> nat \<Rightarrow> ('e box_error, 't frame) result option
     \<Rightarrow> ('e box_error, 't frame) result option \<times> nat" where
  "limited_frame E limit received (Some (Inr (DataFrame d))) =
     (let n = saturating_add received (length d) in
      if n > limit
      then (Some (Inl (BoxLimited (limited_limit \<lparr>be_limit = limit, be_received = n\<rparr>))), n)
      else (Some (Inr (DataFrame d)), n))"
| "limited_frame E limit received (Some (Inr (TrailersFrame t))) = (Some (Inr (TrailersFrame t)), received)"
| "limited_frame E limit received (Some (Inl e)) =
     (Some (Inl (BoxLimited (limited_inner (box_error_display E e)))), received)"
| "limited_frame E limit received None = (None, received)"

primrec box_poll_frame ::
  "'e transport_errors \<Rightarrow> ('b, 'e, 't) poll_frame \<Rightarrow> ('b box_body, 'e box_error, 't) poll_frame" where
  "box_poll_frame E P (Transport b) =
     (case P b of
        (Pending, b') \<Rightarrow> (Pending, Transport b')
      | (Ready f, b') \<Rightarrow> (Ready (map_option (map_sum BoxTransport id) f), Transport b'))"
| "box_poll_frame E P (LimitedBody limit received b) =
     (case box_poll_frame E P b of
        (Pending, b') \<Rightarrow> (Pending, LimitedBody limit received b')
      | (Ready f, b') \<Rightarrow>
          (let (g, received') = limited_frame E limit received f in (Ready g, LimitedBody limit received' b')))"
| "box_poll_frame E P (FullBody d) = (Ready (map_option (Inr \<circ> DataFrame) d), FullBody None)"

text \<open>The same body when its frames are awaited; \<open>N\<close> awaits the transport's next frame.\<close>

primrec box_next ::
  "'e transport_errors \<Rightarrow> ('b \<Rightarrow> ('e, 't frame) result option \<times> 'b)
     \<Rightarrow> 'b box_body \<Rightarrow> ('e box_error, 't frame) result option \<times> 'b box_body" where
  "box_next E N (Transport b) =
     (let (f, b') = N b in (map_option (map_sum BoxTransport id) f, Transport b'))"
| "box_next E N (LimitedBody limit received b) =
     (let (f, b') = box_next E N b; (g, received') = limited_frame E limit received f
      in (g, LimitedBody limit received' b'))"
| "box_next E N (FullBody d) = (map_option (Inr \<circ> DataFrame) d, FullBody None)"

record size_hint =
  sh_lower :: nat
  sh_upper :: "nat option"

text \<open>\<^verbatim>\<open>SizeHint::set_lower\<close> and \<^verbatim>\<open>set_upper\<close> panic (None) when the bounds would cross.\<close>

definition set_lower :: "nat \<Rightarrow> size_hint \<Rightarrow> size_hint option" where
  "set_lower v h = (if (\<exists>u \<in> set_option (sh_upper h). v > u) then None else Some (h\<lparr>sh_lower := v\<rparr>))"

definition set_upper :: "nat \<Rightarrow> size_hint \<Rightarrow> size_hint option" where
  "set_upper v h = (if v < sh_lower h then None else Some (h\<lparr>sh_upper := Some v\<rparr>))"

definition limited_size_hint :: "nat \<Rightarrow> size_hint \<Rightarrow> size_hint option" where
  "limited_size_hint limit h =
     Option.bind (if sh_lower h > limit then set_lower limit h else Some h)
       (\<lambda>h'. case sh_upper h' of None \<Rightarrow> Some h' | Some u \<Rightarrow> set_upper (min u limit) h')"

section \<open>Responses\<close>

type_synonym ('h, 'b) web_response = "('h, 'b box_body) response"

definition response_new :: "'h header_ops \<Rightarrow> 'b box_body \<Rightarrow> ('h, 'b) web_response" where
  "response_new H b = \<lparr>rs_status = 200, rs_version = HTTP_11, rs_headers = hm_new H, rs_body = b\<rparr>"

definition response_with_body :: "'h header_ops \<Rightarrow> status_code \<Rightarrow> bytes \<Rightarrow> ('h, 'b) web_response" where
  "response_with_body H status bs = (response_new H (bytes_body bs))\<lparr>rs_status := status\<rparr>"

definition rejection_response :: "'h header_ops \<Rightarrow> rejection \<Rightarrow> ('h, 'b) web_response" where
  "rejection_response H r = response_with_body H (rj_status r) (rj_message r)"

definition status_response :: "'h header_ops \<Rightarrow> status_code \<Rightarrow> ('h, 'b) web_response" where
  "status_response H status = (response_new H empty_body)\<lparr>rs_status := status\<rparr>"

definition bytes_response :: "'h header_ops \<Rightarrow> bytes \<Rightarrow> ('h, 'b) web_response" where
  "bytes_response H bs = response_new H (bytes_body bs)"

definition string_response :: "'h header_ops \<Rightarrow> string \<Rightarrow> ('h, 'b) web_response" where
  "string_response H s =
     (let r = response_with_body H 200 s
      in r\<lparr>rs_headers := hm_insert H (rs_headers r) ''content-type'' ''text/plain; charset=utf-8''\<rparr>)"

definition json_into_response :: "'h header_ops \<Rightarrow> ('v \<Rightarrow> string) \<Rightarrow> 'v \<Rightarrow> ('h, 'b) web_response" where
  "json_into_response H to_string v =
     (let r = bytes_response H (to_string v)
      in r\<lparr>rs_headers := hm_insert H (rs_headers r) ''content-type'' ''application/json''\<rparr>)"

definition result_response ::
  "('a \<Rightarrow> ('h, 'b) web_response) \<Rightarrow> ('e \<Rightarrow> ('h, 'b) web_response) \<Rightarrow> ('e, 'a) result \<Rightarrow> ('h, 'b) web_response" where
  "result_response ok err r = (case r of Inr v \<Rightarrow> ok v | Inl e \<Rightarrow> err e)"

text \<open>
  \<^verbatim>\<open>HeaderMap::extend\<close> with another map: the first value of a name replaces the values there, the
  further ones are appended.
\<close>

fun header_extend_loop :: "'h header_ops \<Rightarrow> 'h \<Rightarrow> header_name list \<Rightarrow> (header_name \<times> header_value) list \<Rightarrow> 'h" where
  "header_extend_loop H h seen [] = h"
| "header_extend_loop H h seen ((n, v) # rest) =
     header_extend_loop H ((if n \<in> set seen then hm_append else hm_insert) H h n v) (n # seen) rest"

definition header_extend :: "'h header_ops \<Rightarrow> 'h \<Rightarrow> 'h \<Rightarrow> 'h" where
  "header_extend H h other = header_extend_loop H h [] (hm_iter H other)"

definition status_pair_response :: "status_code \<Rightarrow> ('h, 'b) web_response \<Rightarrow> ('h, 'b) web_response" where
  "status_pair_response status r = r\<lparr>rs_status := status\<rparr>"

definition headers_pair_response :: "'h header_ops \<Rightarrow> 'h \<Rightarrow> ('h, 'b) web_response \<Rightarrow> ('h, 'b) web_response" where
  "headers_pair_response H hs r = r\<lparr>rs_headers := header_extend H (rs_headers r) hs\<rparr>"

definition status_headers_response ::
  "'h header_ops \<Rightarrow> status_code \<Rightarrow> 'h \<Rightarrow> ('h, 'b) web_response \<Rightarrow> ('h, 'b) web_response" where
  "status_headers_response H status hs r =
     r\<lparr>rs_status := status, rs_headers := header_extend H (rs_headers r) hs\<rparr>"

section \<open>Extractors\<close>

text \<open>
  An extractor takes a request, the router's state and the request's metadata and gives the value
  and the rest of the request, or a rejection.  None: the body it awaits never ends.  The
  extensions of a request are a typed map of the HTTP library; an extractor of one type reads it
  through a lookup.
\<close>

record ('u, 'h, 'b, 'x) web_request = "('u, 'h, 'b box_body) request" +
  wr_extensions :: 'x

type_synonym ('r, 's, 'a) extractor = "'r \<Rightarrow> 's option \<Rightarrow> request_meta \<Rightarrow> (rejection, 'a \<times> 'r) result option"

definition extract_state :: "('r, 's, 's) extractor" where
  "extract_state rq state meta =
     Some (case state of
        Some s \<Rightarrow> Inr (s, rq)
      | None \<Rightarrow> Inl (rejection_new 500 ''router state is not configured''))"

definition extract_extension ::
  "('x \<Rightarrow> 'v option) \<Rightarrow> (('u, 'h, 'b, 'x) web_request, 's, 'v) extractor" where
  "extract_extension get rq state meta =
     Some (case get (wr_extensions rq) of
        Some v \<Rightarrow> Inr (v, rq)
      | None \<Rightarrow> Inl (rejection_new 500 ''request extension is missing''))"

definition extract_optional_extension ::
  "('x \<Rightarrow> 'v option) \<Rightarrow> (('u, 'h, 'b, 'x) web_request, 's, 'v option) extractor" where
  "extract_optional_extension get rq state meta = Some (Inr (get (wr_extensions rq), rq))"

fun body_limit_from_collection :: "'e transport_errors \<Rightarrow> 'e box_error collection_error \<Rightarrow> body_limit_exceeded option" where
  "body_limit_from_collection E (CollectBody (BoxLimited e)) = le_limit e"
| "body_limit_from_collection E (CollectBody (BoxTransport e)) = te_as_limit E e"
| "body_limit_from_collection E (LimitExceeded e) = Some \<lparr>be_limit = bl_limit e, be_received = bl_received e\<rparr>"
| "body_limit_from_collection E _ = None"

definition collection_rejection :: "'e transport_errors \<Rightarrow> string \<Rightarrow> 'e box_error collection_error \<Rightarrow> rejection" where
  "collection_rejection E message e =
     (case body_limit_from_collection E e of
        Some l \<Rightarrow> rejection_new 413 (limit_display l)
      | None \<Rightarrow> rejection_new 400 message)"

definition collect_request ::
  "'e transport_errors \<Rightarrow> ('b \<Rightarrow> ('e, 't frame) result option \<times> 'b) \<Rightarrow> string
     \<Rightarrow> ('u, 'h, 'b, 'x) web_request \<Rightarrow> request_meta \<Rightarrow> (rejection, bytes) result option" where
  "collect_request E N message rq meta =
     map_option (map_sum (collection_rejection E message) id)
       (collect_bytes_limited (box_next E N) (rq_body rq)
         (case mt_body_limit meta of Some l \<Rightarrow> l | None \<Rightarrow> usize_max))"

definition extract_bytes ::
  "'e transport_errors \<Rightarrow> ('b \<Rightarrow> ('e, 't frame) result option \<times> 'b)
     \<Rightarrow> (('u, 'h, 'b, 'x) web_request, 's, bytes) extractor" where
  "extract_bytes E N rq state meta =
     map_option (map_sum id (\<lambda>bs. (bs, rq\<lparr>rq_body := empty_body\<rparr>)))
       (collect_request E N ''failed to read request body'' rq meta)"

text \<open>\<open>from_str\<close> is the JSON library's parser; its error is the text it prints.\<close>

definition json_from_bytes :: "(string \<Rightarrow> (string, 'v) result) \<Rightarrow> bytes \<Rightarrow> (rejection, 'v) result" where
  "json_from_bytes from_str bs =
     (if \<not> utf8_valid bs then Inl (rejection_new 400 ''invalid JSON: miniserde error'')
      else case from_str bs of
        Inr v \<Rightarrow> Inr v
      | Inl e \<Rightarrow> Inl (rejection_new 400 (''invalid JSON: '' @ e)))"

definition extract_json ::
  "(string \<Rightarrow> (string, 'v) result) \<Rightarrow> 'e transport_errors \<Rightarrow> ('b \<Rightarrow> ('e, 't frame) result option \<times> 'b)
     \<Rightarrow> (('u, 'h, 'b, 'x) web_request, 's, 'v) extractor" where
  "extract_json from_str E N rq state meta =
     map_option (\<lambda>r. case r of
         Inl e \<Rightarrow> Inl e
       | Inr bs \<Rightarrow> map_sum id (\<lambda>v. (v, rq\<lparr>rq_body := empty_body\<rparr>)) (json_from_bytes from_str bs))
       (collect_request E N ''failed to read JSON body'' rq meta)"

definition extract_optional_json ::
  "(string \<Rightarrow> (string, 'v) result) \<Rightarrow> 'e transport_errors \<Rightarrow> ('b \<Rightarrow> ('e, 't frame) result option \<times> 'b)
     \<Rightarrow> (('u, 'h, 'b, 'x) web_request, 's, 'v option) extractor" where
  "extract_optional_json from_str E N rq state meta =
     map_option (\<lambda>r. case r of
         Inl e \<Rightarrow> Inl e
       | Inr bs \<Rightarrow>
           map_sum id (\<lambda>v. (v, rq\<lparr>rq_body := empty_body\<rparr>))
             (if bs = [] then Inr None else map_sum id Some (json_from_bytes from_str bs)))
       (collect_request E N ''failed to read optional JSON body'' rq meta)"

subsection \<open>Path values\<close>

type_synonym 'a parse_scalar = "string \<Rightarrow> (rejection, 'a) result"

definition parse_scalar_string :: "string parse_scalar" where
  "parse_scalar_string v = Inr v"

text \<open>\<open>parse\<close> is the type's \<^verbatim>\<open>str::parse\<close>; for the unsigned types it is the prelude's.\<close>

definition parse_scalar_with :: "(string \<Rightarrow> 'a option) \<Rightarrow> 'a parse_scalar" where
  "parse_scalar_with parse v =
     (case parse v of Some x \<Rightarrow> Inr x | None \<Rightarrow> Inl (rejection_new 400 (''invalid path parameter: '' @ v)))"

definition parse_scalar_unsigned :: "nat \<Rightarrow> nat parse_scalar" where
  "parse_scalar_unsigned mx = parse_scalar_with (from_str_radix 10 mx)"

definition path_one :: "'a parse_scalar \<Rightarrow> route_params \<Rightarrow> (rejection, 'a) result" where
  "path_one parse ps =
     (case params_values ps of
        [v] \<Rightarrow> parse v
      | _ \<Rightarrow> Inl (rejection_new 400 ''expected one path parameter''))"

definition path_two :: "'a parse_scalar \<Rightarrow> 'c parse_scalar \<Rightarrow> route_params \<Rightarrow> (rejection, 'a \<times> 'c) result" where
  "path_two pa pc ps =
     (case params_values ps of
        [] \<Rightarrow> Inl (rejection_new 400 ''missing first path parameter'')
      | [a] \<Rightarrow> Inl (rejection_new 400 ''missing second path parameter'')
      | [a, c] \<Rightarrow>
          (case pa a of
             Inl e \<Rightarrow> Inl e
           | Inr x \<Rightarrow> (case pc c of Inl e \<Rightarrow> Inl e | Inr y \<Rightarrow> Inr (x, y)))
      | _ \<Rightarrow> Inl (rejection_new 400 ''too many path parameters''))"

definition path_three ::
  "'a parse_scalar \<Rightarrow> 'c parse_scalar \<Rightarrow> 'd parse_scalar \<Rightarrow> route_params \<Rightarrow> (rejection, 'a \<times> 'c \<times> 'd) result" where
  "path_three pa pc pd ps =
     (case params_values ps of
        [a, c, d] \<Rightarrow>
          (case pa a of
             Inl e \<Rightarrow> Inl e
           | Inr x \<Rightarrow> (case pc c of
               Inl e \<Rightarrow> Inl e
             | Inr y \<Rightarrow> (case pd d of Inl e \<Rightarrow> Inl e | Inr z \<Rightarrow> Inr (x, y, z))))
      | _ \<Rightarrow> Inl (rejection_new 400 ''expected three path parameters''))"

definition extract_path :: "(route_params \<Rightarrow> (rejection, 'a) result) \<Rightarrow> ('r, 's, 'a) extractor" where
  "extract_path from_path rq state meta = Some (map_sum id (\<lambda>v. (v, rq)) (from_path (mt_params meta)))"

text \<open>The whole request; \<open>fresh\<close> is the HTTP library's new request with the given body.\<close>

definition extract_request ::
  "('b box_body \<Rightarrow> ('u, 'h, 'b, 'x) web_request) \<Rightarrow>
     (('u, 'h, 'b, 'x) web_request, 's, ('u, 'h, 'b, 'x) web_request) extractor" where
  "extract_request fresh rq state meta = Some (Inr (rq, fresh empty_body))"

definition extract_raw_query ::
  "('u \<Rightarrow> string option) \<Rightarrow> (('u, 'h, 'b, 'x) web_request, 's, string option) extractor" where
  "extract_raw_query uri_query rq state meta = Some (Inr (uri_query (rq_uri rq), rq))"

subsection \<open>Handlers\<close>

text \<open>
  A handler runs its extractors in order, each on the rest the one before left; the first
  rejection is the response and the handler is not called.
\<close>

fun run_extractors ::
  "('r, 's, 'a) extractor list \<Rightarrow> 'r \<Rightarrow> 's option \<Rightarrow> request_meta \<Rightarrow> (rejection, 'a list) result option" where
  "run_extractors [] rq state meta = Some (Inr [])"
| "run_extractors (ex # exs) rq state meta =
     (case ex rq state meta of
        None \<Rightarrow> None
      | Some (Inl e) \<Rightarrow> Some (Inl e)
      | Some (Inr (v, rest)) \<Rightarrow> map_option (map_sum id (\<lambda>vs. v # vs)) (run_extractors exs rest state meta))"

definition handler_call ::
  "'h header_ops \<Rightarrow> ('r, 's, 'a) extractor list \<Rightarrow> ('a list \<Rightarrow> ('h, 'b) web_response option)
     \<Rightarrow> 'r \<Rightarrow> 's option \<Rightarrow> request_meta \<Rightarrow> ('h, 'b) web_response option" where
  "handler_call H exs handler rq state meta =
     (case run_extractors exs rq state meta of
        None \<Rightarrow> None
      | Some (Inl e) \<Rightarrow> Some (rejection_response H e)
      | Some (Inr vs) \<Rightarrow> handler vs)"

section \<open>Limits hold\<close>

primrec box_polls ::
  "'e transport_errors \<Rightarrow> ('b, 'e, 't) poll_frame \<Rightarrow> nat \<Rightarrow> 'b box_body
     \<Rightarrow> ('e box_error, 't frame) result option poll list \<times> 'b box_body" where
  "box_polls E P 0 b = ([], b)"
| "box_polls E P (Suc k) b =
     (let (a, b1) = box_poll_frame E P b; (as, b2) = box_polls E P k b1 in (a # as, b2))"

fun delivered :: "('e, 't frame) result option poll list \<Rightarrow> bytes" where
  "delivered [] = []"
| "delivered (Ready (Some (Inr (DataFrame d))) # as) = d @ delivered as"
| "delivered (_ # as) = delivered as"

fun limit_hit :: "('e box_error, 't frame) result option poll \<Rightarrow> bool" where
  "limit_hit (Ready (Some (Inl (BoxLimited e)))) = (le_limit e \<noteq> None)"
| "limit_hit _ = False"

lemma delivered_Cons: "delivered (a # as) = delivered [a] @ delivered as"
  by (cases "[a]" rule: delivered.cases) simp_all

lemma limited_frame_bound:
  assumes "limited_frame E limit received f = (g, received')" "limit < usize_max"
  shows "(received \<le> limit \<longrightarrow> received' = received + length (delivered [Ready g]) \<and> received' \<le> limit \<or> limit < received' \<and> delivered [Ready g] = [])
    \<and> (limit < received \<longrightarrow> limit < received' \<and> delivered [Ready g] = [])
    \<and> (limit_hit (Ready g) \<longrightarrow> limit < received')"
  using assms
  by (cases "(E, limit, received, f)" rule: limited_frame.cases)
     (auto simp: saturating_add_def limited_limit_def limited_inner_def Let_def split: if_splits)

lemma limited_polls_bound:
  assumes "box_polls E P k (LimitedBody limit received b) = (as, b')" "limit < usize_max"
  shows "length (delivered as) \<le> limit - received \<and> (limit < received \<longrightarrow> delivered as = [])
    \<and> (\<forall>i < length as. limit_hit (as ! i) \<longrightarrow> delivered (drop (Suc i) as) = [])"
  using assms(1)
proof (induction k arbitrary: received b as)
  case (Suc k)
  obtain a b1 cs where step: "box_poll_frame E P (LimitedBody limit received b) = (a, b1)"
    and rest: "box_polls E P k b1 = (cs, b')" and as: "as = a # cs"
    using Suc.prems by (auto simp: Let_def split: prod.splits)
  show ?case
  proof (cases a)
    case Pending
    then obtain c where "b1 = LimitedBody limit received c"
      using step by (auto simp: Let_def split: prod.splits poll.splits)
    then have IH: "length (delivered cs) \<le> limit - received \<and> (limit < received \<longrightarrow> delivered cs = [])
        \<and> (\<forall>i < length cs. limit_hit (cs ! i) \<longrightarrow> delivered (drop (Suc i) cs) = [])"
      using Suc.IH[of received c cs] rest by simp
    moreover have "delivered (drop (Suc i) as) = []" if "i < length as" "limit_hit (as ! i)" for i
      using that IH by (cases i) (auto simp: as Pending)
    ultimately show ?thesis by (simp add: as Pending)
  next
    case (Ready g)
    then obtain f c received' where b1: "b1 = LimitedBody limit received' c"
      and frame: "limited_frame E limit received f = (g, received')"
      using step by (auto simp: Let_def split: prod.splits poll.splits)
    note frame_bound = limited_frame_bound[OF frame assms(2)] and IH = Suc.IH[of received' c cs, OF rest[unfolded b1]]
    have "length (delivered as) \<le> limit - received \<and> (limit < received \<longrightarrow> delivered as = [])"
      using frame_bound IH unfolding as Ready delivered_Cons[of "Ready g" cs] by auto
    moreover have "delivered (drop (Suc i) as) = []" if "i < length as" "limit_hit (as ! i)" for i
      using that frame_bound IH by (cases i) (auto simp: as Ready)
    ultimately show ?thesis by blast
  qed
qed simp

text \<open>
  C31. A limited request body never delivers more than its limit: however the body behind it
  behaves and however often it is polled, the data frames delivered add up to at most the limit,
  and once the limit was reported no further data comes through, even when the reader goes on
  after the error.
\<close>

theorem limited_body_bounded:
  assumes "box_polls E P k (limited_new b limit) = (as, b')" "limit < usize_max"
  shows "length (delivered as) \<le> limit
    \<and> (\<forall>i < length as. limit_hit (as ! i) \<longrightarrow> delivered (drop (Suc i) as) = [])"
  using limited_polls_bound[OF assms(1)[unfolded limited_new_def] assms(2)] by simp

definition plain_errors :: "string transport_errors" where
  "plain_errors = \<lparr>te_display = (\<lambda>e. e), te_as_limit = (\<lambda>e. None)\<rparr>"

theorem limited_body_bounded_witness:
  "\<exists>as b'. box_polls plain_errors script_frames 4
      (limited_new (Transport [Ready (Some (Inr (DataFrame ''abc''))), Pending,
         Ready (Some (Inr (DataFrame ''de''))), Ready (Some (Inr (DataFrame ''f'' :: unit frame)))]) 4) = (as, b')
     \<and> delivered as = ''abc'' \<and> length (delivered as) \<le> 4"
proof -
  let ?b = "limited_new (Transport [Ready (Some (Inr (DataFrame ''abc''))), Pending,
      Ready (Some (Inr (DataFrame ''de''))), Ready (Some (Inr (DataFrame ''f'' :: unit frame)))]) 4"
  obtain as b' where run: "box_polls plain_errors script_frames 4 ?b = (as, b')" by fastforce
  have "delivered (fst (box_polls plain_errors script_frames 4 ?b)) = ''abc''" by code_simp
  then have "delivered as = ''abc''" by (simp add: run)
  moreover have "length (delivered as) \<le> 4"
    using limited_body_bounded[OF run] by (simp add: usize_max_def)
  ultimately show ?thesis using run by blast
qed

lemma limited_begins:
  assumes "begins N b items b'" "list_all (\<lambda>i. \<not> isl i) items"
    "received + length (body_data items) \<le> limit" "limit \<le> usize_max"
  shows "begins (box_next E N) (LimitedBody limit received (Transport b)) (map (map_sum BoxTransport id) items)
    (LimitedBody limit (received + length (body_data items)) (Transport b'))"
  using assms
proof (induction items arbitrary: b received rule: body_data.induct)
  case (2 d rest)
  obtain b1 where "N b = (Some (Inr (DataFrame d)), b1)" using 2(2) by (cases "N b") auto
  then show ?case
    using 2(1)[of b1 "received + length d"] 2(2-) by (simp add: saturating_add_def Let_def add.assoc)
next
  case (3 t rest)
  obtain b1 where "N b = (Some (Inr (TrailersFrame t)), b1)" using 3(2) by (cases "N b") auto
  then show ?case using 3(1)[of b1 received] 3(2-) by simp
qed simp_all

lemma body_data_map: "body_data (map (map_sum f id) items) = body_data items"
  by (induction items rule: body_data.induct) simp_all

lemma limited_extraction:
  assumes "begins N b items b'" "list_all (\<lambda>i. \<not> isl i) items"
    and "length (body_data items) \<le> limit" "limit < usize_max"
    and "rq_body rq = limited_new (Transport b) limit" "mt_body_limit meta = Some limit"
  shows "fst (N b') = None \<Longrightarrow>
      extract_bytes E N rq state meta = Some (Inr (body_data items, rq\<lparr>rq_body := empty_body\<rparr>))"
    and "fst (N b') = Some (Inr (DataFrame d)) \<and> limit < length (body_data items) + length d \<Longrightarrow>
      handler_call H [extract_bytes E N] handler rq state meta =
        Some (response_with_body H 413
          (limit_display \<lparr>be_limit = limit, be_received = min (length (body_data items) + length d) usize_max\<rparr>))"
    and "fst (N b') = Some (Inl e) \<Longrightarrow>
      handler_call H [extract_bytes E N] handler rq state meta =
        Some (response_with_body H 400 ''failed to read request body'')"
proof -
  let ?n = "length (body_data items)" and ?items = "map (map_sum BoxTransport id) items"
  let ?b' = "LimitedBody limit ?n (Transport b')"
  have start: "begins (box_next E N) (rq_body rq) ?items ?b'"
    using limited_begins[OF assms(1,2), of 0 limit E] assms(3-5) by (simp add: limited_new_def)
  have ok: "list_all (\<lambda>i. \<not> isl i) ?items"
    using assms(2) by (auto simp: list_all_iff map_sum_def split: sum.splits)
  have collect: "collect_bytes_limited (box_next E N) (rq_body rq) limit
      = collect_loop (box_next E N) limit (body_data items) ?n ?b'"
    using collect_loop_begins[OF start ok, of "[]" limit] assms(3,4)
    by (simp add: collect_bytes_limited_def body_data_map)
  let ?collect = "collect_bytes_limited (box_next E N) (rq_body rq) limit"
  have ends: "?collect = Some (Inr (body_data items))" if "fst (N b') = None"
    unfolding collect by (subst collect_loop.simps) (use that in \<open>cases "N b'"; simp\<close>)
  have crosses: "?collect = Some (Inl (CollectBody (BoxLimited (limited_limit
      \<lparr>be_limit = limit, be_received = min (?n + length d) usize_max\<rparr>))))"
    if "fst (N b') = Some (Inr (DataFrame d)) \<and> limit < ?n + length d"
    unfolding collect
    by (subst collect_loop.simps) (use that assms(4) in \<open>cases "N b'"; simp add: Let_def saturating_add_def\<close>)
  have fails: "?collect = Some (Inl (CollectBody (BoxLimited (limited_inner (te_display E e)))))"
    if "fst (N b') = Some (Inl e)"
    unfolding collect by (subst collect_loop.simps) (use that in \<open>cases "N b'"; simp\<close>)
  note defs = extract_bytes_def collect_request_def handler_call_def collection_rejection_def
    rejection_response_def rejection_new_def limited_limit_def limited_inner_def assms(6)
  show "fst (N b') = None \<Longrightarrow>
      extract_bytes E N rq state meta = Some (Inr (body_data items, rq\<lparr>rq_body := empty_body\<rparr>))"
    by (drule ends) (simp add: defs)
  show "fst (N b') = Some (Inr (DataFrame d)) \<and> limit < length (body_data items) + length d \<Longrightarrow>
      handler_call H [extract_bytes E N] handler rq state meta =
        Some (response_with_body H 413
          (limit_display \<lparr>be_limit = limit, be_received = min (length (body_data items) + length d) usize_max\<rparr>))"
    by (drule crosses) (simp add: defs)
  show "fst (N b') = Some (Inl e) \<Longrightarrow>
      handler_call H [extract_bytes E N] handler rq state meta =
        Some (response_with_body H 400 ''failed to read request body'')"
    by (drule fails) (simp add: defs)
qed

text \<open>
  On a route with a body limit the bytes extractor returns exactly the request's body when it
  fits, answers 413 with the limit as soon as a frame crosses it (the handler is not called and
  the rest of the body, which may be endless, is not awaited), and 400 when the transport fails.
\<close>

theorem bytes_extractor_enforces_limit:
  assumes "begins N b items b'" "list_all (\<lambda>i. \<not> isl i) items"
    and "length (body_data items) \<le> limit" "limit < usize_max"
    and "rq_body rq = limited_new (Transport b) limit" "mt_body_limit meta = Some limit"
  shows "(fst (N b') = None \<longrightarrow>
            extract_bytes E N rq state meta = Some (Inr (body_data items, rq\<lparr>rq_body := empty_body\<rparr>)))
    \<and> (fst (N b') = Some (Inr (DataFrame d)) \<and> limit < length (body_data items) + length d \<longrightarrow>
         handler_call H [extract_bytes E N] handler rq state meta =
           Some (response_with_body H 413
             (limit_display \<lparr>be_limit = limit, be_received = min (length (body_data items) + length d) usize_max\<rparr>)))
    \<and> (fst (N b') = Some (Inl e) \<longrightarrow>
         handler_call H [extract_bytes E N] handler rq state meta =
           Some (response_with_body H 400 ''failed to read request body''))"
  using limited_extraction[OF assms] by blast

definition demo_upload :: "('e, unit frame) result list \<Rightarrow> (unit, unit, ('e, unit frame) result list, unit) web_request" where
  "demo_upload items =
     \<lparr>rq_method = ''POST'', rq_uri = (), rq_version = HTTP_11, rq_headers = (),
      rq_body = limited_new (Transport items) 4, wr_extensions = ()\<rparr>"

theorem bytes_extractor_enforces_limit_witness:
  "handler_call alist_headers [extract_bytes plain_errors list_next] (\<lambda>_. None)
     (demo_upload [Inr (DataFrame ''abc''), Inr (DataFrame ''de'')]) (None :: unit option)
     \<lparr>mt_params = [], mt_body_limit = Some 4\<rparr>
   = Some (response_with_body alist_headers 413
       (limit_display \<lparr>be_limit = 4, be_received = 5\<rparr>) :: (_, (string, unit frame) result list) web_response)"
  using bytes_extractor_enforces_limit[of list_next "[Inr (DataFrame ''abc''), Inr (DataFrame ''de'')]"
      "[Inr (DataFrame ''abc'')]" "[Inr (DataFrame ''de'')]" 4
      "demo_upload [Inr (DataFrame ''abc''), Inr (DataFrame ''de'')]" "\<lparr>mt_params = [], mt_body_limit = Some 4\<rparr>"
      plain_errors None "''de''" alist_headers "\<lambda>_. None" undefined]
  by (simp add: demo_upload_def usize_max_def Suc_eq_plus1 del: One_nat_def)

end
