(* ===== verification/Web_Router.thy ===== *)
theory Web_Router
  imports Web_Extract
begin

text \<open>
  The router (\<^verbatim>\<open>src/crates/h12tiny-web/src/lib.rs\<close>): endpoints with their limits and deadlines,
  method routers, routes, nesting, the CORS policy and dispatch.  The path matcher is the third-party
  \<^verbatim>\<open>matchit\<close>, a parameter with the behaviour its documentation states.
\<close>

section \<open>CORS policies\<close>

record cors =
  cr_origins :: "header_value list"
  cr_methods :: header_value
  cr_headers :: header_value

definition cors_new :: cors where
  "cors_new = \<lparr>cr_origins = [], cr_methods = ''GET, POST, PUT, PATCH, DELETE, HEAD, OPTIONS'',
     cr_headers = ''content-type, authorization''\<rparr>"

definition cors_allow_origin :: "field_ops \<Rightarrow> string \<Rightarrow> cors \<Rightarrow> cors" where
  "cors_allow_origin F origin c =
     (case header_value_from_str F origin of
        Some v \<Rightarrow> c\<lparr>cr_origins := cr_origins c @ [v]\<rparr>
      | None \<Rightarrow> c)"

definition cors_allow_methods :: "field_ops \<Rightarrow> string \<Rightarrow> cors \<Rightarrow> cors" where
  "cors_allow_methods F methods c =
     (case header_value_from_str F methods of Some v \<Rightarrow> c\<lparr>cr_methods := v\<rparr> | None \<Rightarrow> c)"

definition cors_allow_headers :: "field_ops \<Rightarrow> string \<Rightarrow> cors \<Rightarrow> cors" where
  "cors_allow_headers F headers c =
     (case header_value_from_str F headers of Some v \<Rightarrow> c\<lparr>cr_headers := v\<rparr> | None \<Rightarrow> c)"

definition origin_allowed :: "cors \<Rightarrow> header_value \<Rightarrow> bool" where
  "origin_allowed c origin \<longleftrightarrow> list_ex (\<lambda>allowed. allowed = ''*'' \<or> allowed = origin) (cr_origins c)"

definition apply_response ::
  "'h header_ops \<Rightarrow> cors \<Rightarrow> ('h, 'b) web_response \<Rightarrow> header_value option \<Rightarrow> ('h, 'b) web_response" where
  "apply_response H c r origin =
     (case origin of
        Some v \<Rightarrow>
          if origin_allowed c v
          then r\<lparr>rs_headers := hm_insert H (hm_insert H (rs_headers r) ''access-control-allow-origin'' v) ''vary'' ''Origin''\<rparr>
          else r
      | None \<Rightarrow> r)"

definition preflight_response :: "'h header_ops \<Rightarrow> cors \<Rightarrow> header_value option \<Rightarrow> ('h, 'b) web_response" where
  "preflight_response H c origin =
     (let r = status_response H 204;
          h1 = hm_insert H (rs_headers r) ''allow'' (cr_methods c);
          h2 = hm_insert H h1 ''access-control-allow-methods'' (cr_methods c);
          h3 = hm_insert H h2 ''access-control-allow-headers'' (cr_headers c)
      in apply_response H c (r\<lparr>rs_headers := h3\<rparr>) origin)"

section \<open>Response futures and endpoints\<close>

text \<open>
  The future a dispatch returns: a finished response, a handler's future, one under a deadline
  that starts with the first poll, or one whose response passes through a CORS policy.
\<close>

datatype ('f, 'r) handler_future =
    HfReady 'r
  | HfHandler 'f
  | HfTimeout duration 'f
  | HfRacing nat 'f
  | HfCors cors "header_value option" "('f, 'r) handler_future"

definition race_deadline ::
  "'h header_ops \<Rightarrow> ('f \<Rightarrow> ('h, 'b) web_response poll \<times> 'f) \<Rightarrow> nat \<Rightarrow> nat \<Rightarrow> 'f
     \<Rightarrow> ('h, 'b) web_response poll \<times> ('f, ('h, 'b) web_response) handler_future" where
  "race_deadline H PF now deadline f =
     (case PF f of
        (Ready r, f') \<Rightarrow> (Ready r, HfRacing deadline f')
      | (Pending, f') \<Rightarrow>
          (if now \<ge> deadline then Ready (response_with_body H 408 ''request handler deadline exceeded'') else Pending,
           HfRacing deadline f'))"

primrec poll_future ::
  "'h header_ops \<Rightarrow> ('f \<Rightarrow> ('h, 'b) web_response poll \<times> 'f) \<Rightarrow> nat \<Rightarrow> ('f, ('h, 'b) web_response) handler_future
     \<Rightarrow> ('h, 'b) web_response poll \<times> ('f, ('h, 'b) web_response) handler_future" where
  "poll_future H PF now (HfReady r) = (Ready r, HfReady r)"
| "poll_future H PF now (HfHandler f) = apsnd HfHandler (PF f)"
| "poll_future H PF now (HfTimeout d f) = race_deadline H PF now (now + d) f"
| "poll_future H PF now (HfRacing deadline f) = race_deadline H PF now deadline f"
| "poll_future H PF now (HfCors c origin fut) =
     (case poll_future H PF now fut of
        (Ready r, fut') \<Rightarrow> (Ready (apply_response H c r origin), HfCors c origin fut')
      | (Pending, fut') \<Rightarrow> (Pending, HfCors c origin fut'))"

record ('r, 's, 'f) endpoint =
  ep_handler :: "'r \<Rightarrow> 's option \<Rightarrow> request_meta \<Rightarrow> 'f"
  ep_body_limit :: "nat option"
  ep_timeout :: "duration option"

definition endpoint_call ::
  "(('u, 'h, 'b, 'x) web_request, 's, 'f) endpoint \<Rightarrow> ('u, 'h, 'b, 'x) web_request \<Rightarrow> 's option \<Rightarrow> route_params
     \<Rightarrow> ('f, ('h, 'b) web_response) handler_future" where
  "endpoint_call ep rq state params =
     (let rq' = (case ep_body_limit ep of
                   Some limit \<Rightarrow> rq\<lparr>rq_body := limited_new (rq_body rq) limit\<rparr>
                 | None \<Rightarrow> rq);
          f = ep_handler ep rq' state \<lparr>mt_params = params, mt_body_limit = ep_body_limit ep\<rparr>
      in case ep_timeout ep of Some d \<Rightarrow> HfTimeout d f | None \<Rightarrow> HfHandler f)"

section \<open>Method routers\<close>

type_synonym ('r, 's, 'f) method_router = "http_method \<rightharpoonup> ('r, 's, 'f) endpoint"

definition method_router_of :: "http_method \<Rightarrow> ('r \<Rightarrow> 's option \<Rightarrow> request_meta \<Rightarrow> 'f) \<Rightarrow> ('r, 's, 'f) method_router" where
  "method_router_of m handler =
     Map.empty(m \<mapsto> \<lparr>ep_handler = handler, ep_body_limit = None, ep_timeout = None\<rparr>)"

definition web_get :: "('r \<Rightarrow> 's option \<Rightarrow> request_meta \<Rightarrow> 'f) \<Rightarrow> ('r, 's, 'f) method_router" where
  "web_get = method_router_of ''GET''"

definition web_post :: "('r \<Rightarrow> 's option \<Rightarrow> request_meta \<Rightarrow> 'f) \<Rightarrow> ('r, 's, 'f) method_router" where
  "web_post = method_router_of ''POST''"

definition web_put :: "('r \<Rightarrow> 's option \<Rightarrow> request_meta \<Rightarrow> 'f) \<Rightarrow> ('r, 's, 'f) method_router" where
  "web_put = method_router_of ''PUT''"

definition web_patch :: "('r \<Rightarrow> 's option \<Rightarrow> request_meta \<Rightarrow> 'f) \<Rightarrow> ('r, 's, 'f) method_router" where
  "web_patch = method_router_of ''PATCH''"

definition web_delete :: "('r \<Rightarrow> 's option \<Rightarrow> request_meta \<Rightarrow> 'f) \<Rightarrow> ('r, 's, 'f) method_router" where
  "web_delete = method_router_of ''DELETE''"

definition web_head :: "('r \<Rightarrow> 's option \<Rightarrow> request_meta \<Rightarrow> 'f) \<Rightarrow> ('r, 's, 'f) method_router" where
  "web_head = method_router_of ''HEAD''"

definition web_options :: "('r \<Rightarrow> 's option \<Rightarrow> request_meta \<Rightarrow> 'f) \<Rightarrow> ('r, 's, 'f) method_router" where
  "web_options = method_router_of ''OPTIONS''"

definition mr_body_limit :: "nat \<Rightarrow> ('r, 's, 'f) method_router \<Rightarrow> ('r, 's, 'f) method_router" where
  "mr_body_limit limit mr = map_option (\<lambda>ep. ep\<lparr>ep_body_limit := Some limit\<rparr>) \<circ> mr"

definition mr_timeout :: "duration \<Rightarrow> ('r, 's, 'f) method_router \<Rightarrow> ('r, 's, 'f) method_router" where
  "mr_timeout d mr = map_option (\<lambda>ep. ep\<lparr>ep_timeout := Some d\<rparr>) \<circ> mr"

definition mr_without_timeout :: "('r, 's, 'f) method_router \<Rightarrow> ('r, 's, 'f) method_router" where
  "mr_without_timeout mr = map_option (\<lambda>ep. ep\<lparr>ep_timeout := None\<rparr>) \<circ> mr"

definition mr_merge :: "('r, 's, 'f) method_router \<Rightarrow> ('r, 's, 'f) method_router \<Rightarrow> ('r, 's, 'f) method_router" where
  "mr_merge mr other = mr ++ other"

section \<open>Path matching\<close>

text \<open>
  \<open>mm_insert\<close> answers None for an invalid or conflicting route, \<open>mm_at\<close> gives the value of the
  route a path matches and its parameters.
\<close>

record 'm match_ops =
  mm_new :: 'm
  mm_insert :: "'m \<Rightarrow> string \<Rightarrow> nat \<Rightarrow> 'm option"
  mm_at :: "'m \<Rightarrow> string \<Rightarrow> (nat \<times> route_params) option"



section \<open>Routers\<close>

type_synonym ('r, 's, 'f) routes = "(string \<times> ('r, 's, 'f) method_router) list"

record ('r, 's, 'f, 'm) router =
  rt_routes :: "('r, 's, 'f) routes"
  rt_matcher :: 'm
  rt_fallback :: "('r, 's, 'f) endpoint option"
  rt_state :: "'s option"
  rt_cors :: "cors option"

fun build_loop :: "'m match_ops \<Rightarrow> 'm \<Rightarrow> nat \<Rightarrow> ('r, 's, 'f) routes \<Rightarrow> 'm option" where
  "build_loop M m i [] = Some m"
| "build_loop M m i ((path, mr) # rest) =
     (case mm_insert M m path i of None \<Rightarrow> None | Some m' \<Rightarrow> build_loop M m' (Suc i) rest)"

definition build_matcher :: "'m match_ops \<Rightarrow> ('r, 's, 'f) routes \<Rightarrow> 'm option" where
  "build_matcher M routes = build_loop M (mm_new M) 0 routes"

definition router_new :: "'m match_ops \<Rightarrow> ('r, 's, 'f, 'm) router" where
  "router_new M = \<lparr>rt_routes = [], rt_matcher = mm_new M, rt_fallback = None, rt_state = None, rt_cors = None\<rparr>"

definition router_clone :: "'m match_ops \<Rightarrow> ('r, 's, 'f, 'm) router \<Rightarrow> ('r, 's, 'f, 'm) router option" where
  "router_clone M r = map_option (\<lambda>m. r\<lparr>rt_matcher := m\<rparr>) (build_matcher M (rt_routes r))"

definition with_state :: "'s \<Rightarrow> ('r, 's, 'f, 'm) router \<Rightarrow> ('r, 's, 'f, 'm) router" where
  "with_state s r = r\<lparr>rt_state := Some s\<rparr>"

fun extend_route :: "string \<Rightarrow> ('r, 's, 'f) method_router \<Rightarrow> ('r, 's, 'f) routes \<Rightarrow> ('r, 's, 'f) routes option" where
  "extend_route path mr [] = None"
| "extend_route path mr ((p, e) # rest) =
     (if p = path then Some ((p, mr_merge e mr) # rest)
      else map_option (\<lambda>rs. (p, e) # rs) (extend_route path mr rest))"

definition router_route ::
  "'m match_ops \<Rightarrow> string \<Rightarrow> ('r, 's, 'f) method_router \<Rightarrow> ('r, 's, 'f, 'm) router \<Rightarrow> ('r, 's, 'f, 'm) router option" where
  "router_route M path mr r =
     (case extend_route path mr (rt_routes r) of
        Some routes \<Rightarrow> Some (r\<lparr>rt_routes := routes\<rparr>)
      | None \<Rightarrow>
          (let routes = rt_routes r @ [(path, mr)]
           in map_option (\<lambda>m. r\<lparr>rt_routes := routes, rt_matcher := m\<rparr>) (build_matcher M routes)))"

definition router_timeout :: "duration \<Rightarrow> ('r, 's, 'f, 'm) router \<Rightarrow> ('r, 's, 'f, 'm) router" where
  "router_timeout d r = r\<lparr>rt_routes := map (apsnd (mr_timeout d)) (rt_routes r)\<rparr>"

definition router_without_timeout :: "('r, 's, 'f, 'm) router \<Rightarrow> ('r, 's, 'f, 'm) router" where
  "router_without_timeout r = r\<lparr>rt_routes := map (apsnd mr_without_timeout) (rt_routes r)\<rparr>"

definition router_body_limit :: "nat \<Rightarrow> ('r, 's, 'f, 'm) router \<Rightarrow> ('r, 's, 'f, 'm) router" where
  "router_body_limit limit r = r\<lparr>rt_routes := map (apsnd (mr_body_limit limit)) (rt_routes r)\<rparr>"

definition router_fallback ::
  "('r \<Rightarrow> 's option \<Rightarrow> request_meta \<Rightarrow> 'f) \<Rightarrow> ('r, 's, 'f, 'm) router \<Rightarrow> ('r, 's, 'f, 'm) router" where
  "router_fallback handler r =
     r\<lparr>rt_fallback := Some \<lparr>ep_handler = handler, ep_body_limit = None, ep_timeout = None\<rparr>\<rparr>"

definition router_cors :: "cors \<Rightarrow> ('r, 's, 'f, 'm) router \<Rightarrow> ('r, 's, 'f, 'm) router" where
  "router_cors c r = r\<lparr>rt_cors := Some c\<rparr>"

definition slash :: byte where "slash = CHR ''/''"

definition join_paths :: "string \<Rightarrow> string \<Rightarrow> string" where
  "join_paths pre path =
     (if pre = [slash] then path
      else let pre' = rev (dropWhile (\<lambda>c. c = slash) (rev pre));
               path' = dropWhile (\<lambda>c. c = slash) path
           in if path' = [] then pre' else pre' @ [slash] @ path')"

text \<open>The fallback and the state of the other router are kept when this one has none.\<close>

definition adopt :: "('r, 's, 'f, 'm) router \<Rightarrow> ('r, 's, 'f, 'm) router \<Rightarrow> ('r, 's, 'f, 'm) router" where
  "adopt other r =
     r\<lparr>rt_fallback := (case rt_fallback r of None \<Rightarrow> rt_fallback other | Some f \<Rightarrow> Some f),
       rt_state := (case rt_state r of None \<Rightarrow> rt_state other | Some s \<Rightarrow> Some s)\<rparr>"

text \<open>A nested root is registered with a trailing slash too.\<close>

definition route_slashed ::
  "'m match_ops \<Rightarrow> string \<Rightarrow> string \<Rightarrow> ('r, 's, 'f) method_router \<Rightarrow> ('r, 's, 'f, 'm) router \<Rightarrow> ('r, 's, 'f, 'm) router option" where
  "route_slashed M p path mr r =
     (if p = [slash] \<and> path \<noteq> [slash] then router_route M (path @ [slash]) mr r else Some r)"

fun nest_loop ::
  "'m match_ops \<Rightarrow> string \<Rightarrow> ('r, 's, 'f) routes \<Rightarrow> ('r, 's, 'f, 'm) router \<Rightarrow> ('r, 's, 'f, 'm) router option" where
  "nest_loop M pre [] r = Some r"
| "nest_loop M pre ((p, mr) # rest) r =
     (let path = join_paths pre p in
      case route_slashed M p path mr r of
        None \<Rightarrow> None
      | Some r1 \<Rightarrow>
          (case router_route M path mr r1 of
             None \<Rightarrow> None
           | Some r2 \<Rightarrow> nest_loop M pre rest r2))"

definition router_nest ::
  "'m match_ops \<Rightarrow> string \<Rightarrow> ('r, 's, 'f, 'm) router \<Rightarrow> ('r, 's, 'f, 'm) router \<Rightarrow> ('r, 's, 'f, 'm) router option" where
  "router_nest M pre nested r = map_option (adopt nested) (nest_loop M pre (rt_routes nested) r)"

fun merge_loop :: "'m match_ops \<Rightarrow> ('r, 's, 'f) routes \<Rightarrow> ('r, 's, 'f, 'm) router \<Rightarrow> ('r, 's, 'f, 'm) router option" where
  "merge_loop M [] r = Some r"
| "merge_loop M ((p, mr) # rest) r =
     (case router_route M p mr r of None \<Rightarrow> None | Some r1 \<Rightarrow> merge_loop M rest r1)"

definition router_merge ::
  "'m match_ops \<Rightarrow> ('r, 's, 'f, 'm) router \<Rightarrow> ('r, 's, 'f, 'm) router \<Rightarrow> ('r, 's, 'f, 'm) router option" where
  "router_merge M other r = map_option (adopt other) (merge_loop M (rt_routes other) r)"

section \<open>Dispatch\<close>

datatype ('r, 's, 'f) selection = Chosen "('r, 's, 'f) endpoint" route_params | NotAllowed | Unrouted

text \<open>None: the index the matcher answered with is out of range, a panic.\<close>

definition select_endpoint ::
  "'m match_ops \<Rightarrow> ('r, 's, 'f, 'm) router \<Rightarrow> http_method \<Rightarrow> string \<Rightarrow> ('r, 's, 'f) selection option" where
  "select_endpoint M r m path =
     (case mm_at M (rt_matcher r) path of
        Some (i, params) \<Rightarrow>
          if i < length (rt_routes r)
          then Some (case snd (rt_routes r ! i) m of Some ep \<Rightarrow> Chosen ep params | None \<Rightarrow> NotAllowed)
          else None
      | None \<Rightarrow>
          Some (case rt_fallback r of Some ep \<Rightarrow> Chosen ep [] | None \<Rightarrow> Unrouted))"

definition method_not_allowed :: "'h header_ops \<Rightarrow> ('h, 'b) web_response" where
  "method_not_allowed H =
     (let r = response_with_body H 405 ''method not allowed''
      in r\<lparr>rs_headers := hm_insert H (rs_headers r) ''allow'' ''GET, POST, PUT, PATCH, DELETE, HEAD, OPTIONS''\<rparr>)"

definition call_boxed ::
  "'h header_ops \<Rightarrow> ('u \<Rightarrow> string) \<Rightarrow> 'm match_ops \<Rightarrow> (('u, 'h, 'b, 'x) web_request, 's, 'f, 'm) router
     \<Rightarrow> ('u, 'h, 'b, 'x) web_request \<Rightarrow> ('f, ('h, 'b) web_response) handler_future option" where
  "call_boxed H uri_path M r rq =
     (let origin = (case hm_get_all H (rq_headers rq) ''origin'' of [] \<Rightarrow> None | v # vs \<Rightarrow> Some v) in
      if rt_cors r \<noteq> None \<and> rq_method rq = ''OPTIONS'' \<and> hm_contains_key H (rq_headers rq) ''origin''
      then Some (HfReady (preflight_response H (the (rt_cors r)) origin))
      else map_option (\<lambda>sel. case sel of
          NotAllowed \<Rightarrow> HfReady (method_not_allowed H)
        | Unrouted \<Rightarrow> HfReady (response_with_body H 404 ''not found'')
        | Chosen ep params \<Rightarrow>
            (let fut = endpoint_call ep rq (rt_state r) params
             in case rt_cors r of Some c \<Rightarrow> HfCors c origin fut | None \<Rightarrow> fut))
        (select_endpoint M r (rq_method rq) (uri_path (rq_uri rq))))"

text \<open>A request from the transport: its body is erased, its extensions \<open>x\<close> stay.\<close>

definition box_request :: "('u, 'h, 'b) request \<Rightarrow> 'x \<Rightarrow> ('u, 'h, 'b, 'x) web_request" where
  "box_request rq x =
     \<lparr>rq_method = rq_method rq, rq_uri = rq_uri rq, rq_version = rq_version rq, rq_headers = rq_headers rq,
      rq_body = Transport (rq_body rq), wr_extensions = x\<rparr>"

definition router_call ::
  "'h header_ops \<Rightarrow> ('u \<Rightarrow> string) \<Rightarrow> 'm match_ops \<Rightarrow> (('u, 'h, 'b, 'x) web_request, 's, 'f, 'm) router
     \<Rightarrow> ('u, 'h, 'b) request \<Rightarrow> 'x \<Rightarrow> ('f, ('h, 'b) web_response) handler_future option" where
  "router_call H uri_path M r rq x = call_boxed H uri_path M r (box_request rq x)"

text \<open>An application's dispatch wrapper gets the request and a clone of the router.\<close>

record ('r, 's, 'f, 'm, 'fut) router_service =
  sv_router :: "('r, 's, 'f, 'm) router"
  sv_dispatch :: "'r \<Rightarrow> ('r, 's, 'f, 'm) router \<Rightarrow> 'fut"

definition service_with ::
  "('r, 's, 'f, 'm) router \<Rightarrow> ('r \<Rightarrow> ('r, 's, 'f, 'm) router \<Rightarrow> 'fut) \<Rightarrow> ('r, 's, 'f, 'm, 'fut) router_service" where
  "service_with r dispatch = \<lparr>sv_router = r, sv_dispatch = dispatch\<rparr>"

definition router_service_clone ::
  "'m match_ops \<Rightarrow> ('r, 's, 'f, 'm, 'fut) router_service \<Rightarrow> ('r, 's, 'f, 'm, 'fut) router_service option" where
  "router_service_clone M sv = map_option (\<lambda>r. sv\<lparr>sv_router := r\<rparr>) (router_clone M (sv_router sv))"

definition router_service_call_boxed ::
  "'m match_ops \<Rightarrow> ('r, 's, 'f, 'm, 'fut) router_service \<Rightarrow> 'r \<Rightarrow> 'fut option" where
  "router_service_call_boxed M sv rq = map_option (sv_dispatch sv rq) (router_clone M (sv_router sv))"

definition router_service_call ::
  "'m match_ops \<Rightarrow> (('u, 'h, 'b, 'x) web_request, 's, 'f, 'm, 'fut) router_service \<Rightarrow> ('u, 'h, 'b) request \<Rightarrow> 'x \<Rightarrow> 'fut option" where
  "router_service_call M sv rq x = router_service_call_boxed M sv (box_request rq x)"

section \<open>The matcher follows the routes\<close>

text \<open>The routers an application can build.\<close>

inductive built_router :: "'m match_ops \<Rightarrow> ('r, 's, 'f, 'm) router \<Rightarrow> bool" for M where
  new: "built_router M (router_new M)"
| state: "built_router M r \<Longrightarrow> built_router M (with_state s r)"
| route: "built_router M r \<Longrightarrow> router_route M path mr r = Some r' \<Longrightarrow> built_router M r'"
| timeout: "built_router M r \<Longrightarrow> built_router M (router_timeout d r)"
| without_timeout: "built_router M r \<Longrightarrow> built_router M (router_without_timeout r)"
| body_limit: "built_router M r \<Longrightarrow> built_router M (router_body_limit limit r)"
| fallback: "built_router M r \<Longrightarrow> built_router M (router_fallback handler r)"
| cors: "built_router M r \<Longrightarrow> built_router M (router_cors c r)"
| nest: "built_router M r \<Longrightarrow> built_router M nested \<Longrightarrow> router_nest M pre nested r = Some r' \<Longrightarrow> built_router M r'"
| merge: "built_router M r \<Longrightarrow> built_router M other \<Longrightarrow> router_merge M other r = Some r' \<Longrightarrow> built_router M r'"
| clone: "built_router M r \<Longrightarrow> router_clone M r = Some r' \<Longrightarrow> built_router M r'"

definition router_ok :: "'m match_ops \<Rightarrow> ('r, 's, 'f, 'm) router \<Rightarrow> bool" where
  "router_ok M r \<longleftrightarrow> build_matcher M (rt_routes r) = Some (rt_matcher r)"

lemma build_loop_paths:
  "map fst rs = map fst rs' \<Longrightarrow> build_loop M m i rs = build_loop M m i rs'"
proof (induction rs arbitrary: rs' m i)
  case (Cons a rs)
  then obtain b rs2 where "rs' = b # rs2" "fst a = fst b" "map fst rs = map fst rs2" by (cases rs') auto
  with Cons.IH[of rs2] show ?case by (cases a; cases b) (simp split: option.split)
qed simp


lemma extend_route_paths: "extend_route path mr rs = Some rs' \<Longrightarrow> map fst rs' = map fst rs"
  by (induction rs arbitrary: rs' rule: extend_route.induct) (auto split: if_splits)

lemma router_ok_paths: "router_ok M r \<Longrightarrow> map fst rs = map fst (rt_routes r) \<Longrightarrow> router_ok M (r\<lparr>rt_routes := rs\<rparr>)"
  by (simp add: router_ok_def build_matcher_def build_loop_paths[of rs])

lemma build_matcher_apsnd: "build_matcher M (map (apsnd f) rs) = build_matcher M rs"
  unfolding build_matcher_def by (rule build_loop_paths) simp

lemma router_route_ok: "router_ok M r \<Longrightarrow> router_route M path mr r = Some r' \<Longrightarrow> router_ok M r'"
  by (auto simp: router_route_def Let_def router_ok_def intro: router_ok_paths[unfolded router_ok_def] dest: extend_route_paths
      split: option.splits)

lemma nest_loop_ConsE:
  assumes "nest_loop M pre ((p, mr) # rest) r = Some r'"
  obtains r1 r2 where "route_slashed M p (join_paths pre p) mr r = Some r1"
    and "router_route M (join_paths pre p) mr r1 = Some r2" "nest_loop M pre rest r2 = Some r'"
  using assms by (auto simp: Let_def split: option.splits)

lemma route_slashed_ok: "router_ok M r \<Longrightarrow> route_slashed M p path mr r = Some r' \<Longrightarrow> router_ok M r'"
  by (auto simp: route_slashed_def dest: router_route_ok split: if_splits)

lemma nest_loop_ok: "nest_loop M pre rs r = Some r' \<Longrightarrow> router_ok M r \<Longrightarrow> router_ok M r'"
proof (induction rs arbitrary: r)
  case (Cons a rs)
  obtain p mr where a: "a = (p, mr)" by fastforce
  obtain r1 r2 where r: "route_slashed M p (join_paths pre p) mr r = Some r1"
      "router_route M (join_paths pre p) mr r1 = Some r2" "nest_loop M pre rs r2 = Some r'"
    using Cons.prems(1) unfolding a by (rule nest_loop_ConsE)
  show ?case
    by (rule Cons.IH[OF r(3) router_route_ok[OF route_slashed_ok[OF Cons.prems(2) r(1)] r(2)]])
qed simp

lemma merge_loop_ok: "merge_loop M rs r = Some r' \<Longrightarrow> router_ok M r \<Longrightarrow> router_ok M r'"
  by (induction M rs r rule: merge_loop.induct) (auto dest: router_route_ok split: option.splits)

lemma adopt_ok: "router_ok M (adopt other r) = router_ok M r"
  by (simp add: adopt_def router_ok_def)

lemma built_router_ok: "built_router M r \<Longrightarrow> router_ok M r"
proof (induction rule: built_router.induct)
  case new
  then show ?case by (simp add: router_ok_def router_new_def build_matcher_def)
next
  case (route r path mr r')
  then show ?case by (blast intro: router_route_ok)
next
  case (nest r nested pre r')
  then show ?case by (auto simp: router_nest_def adopt_ok dest: nest_loop_ok)
next
  case (merge r other r')
  then show ?case by (auto simp: router_merge_def adopt_ok dest: merge_loop_ok)
next
  case (clone r r')
  then show ?case by (auto simp: router_clone_def router_ok_def)
qed (simp_all add: router_ok_def router_timeout_def router_without_timeout_def router_body_limit_def
    with_state_def router_fallback_def router_cors_def build_matcher_apsnd)

lemma extend_route_absent: "extend_route path mr rs = None \<longleftrightarrow> path \<notin> fst ` set rs"
  by (induction path mr rs rule: extend_route.induct) auto

lemma router_route_distinct:
  "router_route M path mr r = Some r' \<Longrightarrow> distinct (map fst (rt_routes r)) \<Longrightarrow> distinct (map fst (rt_routes r'))"
  by (auto simp: router_route_def Let_def extend_route_absent dest: extend_route_paths split: option.splits)

lemma nest_loop_distinct:
  "nest_loop M pre rs r = Some r' \<Longrightarrow> distinct (map fst (rt_routes r)) \<Longrightarrow> distinct (map fst (rt_routes r'))"
proof (induction rs arbitrary: r)
  case (Cons a rs)
  obtain p mr where a: "a = (p, mr)" by fastforce
  obtain r1 r2 where r: "route_slashed M p (join_paths pre p) mr r = Some r1"
      "router_route M (join_paths pre p) mr r1 = Some r2" "nest_loop M pre rs r2 = Some r'"
    using Cons.prems(1) unfolding a by (rule nest_loop_ConsE)
  have "distinct (map fst (rt_routes r1))"
    using r(1) Cons.prems(2) router_route_distinct[of M "join_paths pre p @ [slash]" mr r r1]
    by (auto simp: route_slashed_def split: if_splits)
  from Cons.IH[OF r(3) router_route_distinct[OF r(2) this]] show ?case .
qed simp

lemma merge_loop_distinct:
  "merge_loop M rs r = Some r' \<Longrightarrow> distinct (map fst (rt_routes r)) \<Longrightarrow> distinct (map fst (rt_routes r'))"
  by (induction M rs r rule: merge_loop.induct) (auto dest: router_route_distinct split: option.splits)

lemma built_router_distinct: "built_router M r \<Longrightarrow> distinct (map fst (rt_routes r))"
proof (induction rule: built_router.induct)
  case (route r path mr r')
  then show ?case by (blast intro: router_route_distinct)
next
  case (nest r nested pre r')
  then show ?case by (auto simp: router_nest_def adopt_def dest: nest_loop_distinct)
next
  case (merge r other r')
  then show ?case by (auto simp: router_merge_def adopt_def dest: merge_loop_distinct)
qed (auto simp: router_new_def with_state_def router_timeout_def router_without_timeout_def
    router_body_limit_def router_fallback_def router_cors_def router_clone_def)

text \<open>
  C33. Routers are well formed: whatever operations built it, a router lists every path once and
  holds the matcher of exactly its routes, so that cloning it, which rebuilds the matcher, neither
  panics nor changes it, and an application's dispatch wrapper always gets the router itself.
\<close>

theorem router_well_formed:
  assumes "built_router M r"
  shows "distinct (map fst (rt_routes r)) \<and> build_matcher M (rt_routes r) = Some (rt_matcher r)
    \<and> router_clone M r = Some r \<and> router_service_call_boxed M (service_with r dispatch) rq = Some (dispatch rq r)"
  using built_router_ok[OF assms] built_router_distinct[OF assms]
  by (simp add: router_ok_def router_clone_def router_service_call_boxed_def service_with_def)

text \<open>A service whose dispatch only routes answers every request as its router does.\<close>

lemma routing_service_is_router:
  assumes "built_router M r"
  shows "router_service_call M (service_with r (\<lambda>rq r. call_boxed H uri_path M r rq)) rq x =
     Some (router_call H uri_path M r rq x)"
  using built_router_ok[OF assms]
  by (simp add: router_ok_def router_clone_def router_service_call_def router_service_call_boxed_def
      service_with_def router_call_def)

section \<open>Dispatch is correct\<close>




text \<open>A matcher for literal paths.\<close>

definition literal_match :: "(string \<times> nat) list match_ops" where
  "literal_match =
     \<lparr>mm_new = [],
      mm_insert = (\<lambda>m p i. if p \<in> fst ` set m then None else Some (m @ [(p, i)])),
      mm_at = (\<lambda>m path. map_option (\<lambda>i. (i, [])) (map_of m path))\<rparr>"



definition demo_routes :: "(unit, unit, string, (string \<times> nat) list) router option" where
  "demo_routes =
     Option.bind (router_route literal_match ''/'' (web_get (\<lambda>_ _ _. ''index'')) (router_new literal_match))
       (\<lambda>inner. router_nest literal_match ''/api'' inner (router_fallback (\<lambda>_ _ _. ''fallback'') (router_new literal_match)))"

lemma demo_routes_built:
  assumes "demo_routes = Some r"
  shows "built_router literal_match r"
proof -
  obtain inner where inner: "router_route literal_match ''/'' (web_get (\<lambda>_ _ _. ''index'')) (router_new literal_match) = Some inner"
    and outer: "router_nest literal_match ''/api'' inner (router_fallback (\<lambda>_ _ _. ''fallback'') (router_new literal_match)) = Some r"
    using assms unfolding demo_routes_def bind_eq_Some_conv by (elim exE conjE) (rule that)
  show ?thesis
    by (rule built_router.nest[OF built_router.fallback[OF built_router.new]
          built_router.route[OF built_router.new inner] outer])
qed

theorem router_well_formed_witness:
  "\<exists>r. demo_routes = Some r \<and> map fst (rt_routes r) = [''/api/'', ''/api''] \<and> router_clone literal_match r = Some r"
proof -
  have "demo_routes \<noteq> None" by code_simp
  then obtain r where r: "demo_routes = Some r" by blast
  have "map_option (\<lambda>r. map fst (rt_routes r)) demo_routes = Some [''/api/'', ''/api'']" by code_simp
  then have "map fst (rt_routes r) = [''/api/'', ''/api'']" unfolding r by simp
  then show ?thesis using r router_well_formed[OF demo_routes_built[OF r], of "\<lambda>_ _. True" "()"] by (intro exI[of _ r]) simp
qed



section \<open>Nesting registers every route\<close>










section \<open>The CORS policy\<close>

abbreviation allowed_origins :: "'h header_ops \<Rightarrow> ('h, 'b) web_response \<Rightarrow> header_value list" where
  "allowed_origins H r \<equiv> hm_get_all H (rs_headers r) ''access-control-allow-origin''"

lemma apply_response_origin:
  assumes "header_laws H"
  shows "allowed_origins H (apply_response H c r (Some v)) = (if origin_allowed c v then [v] else allowed_origins H r)"
    and "rs_status (apply_response H c r (Some v)) = rs_status r"
  by (simp_all add: apply_response_def header_laws_get_all[OF assms])

lemma preflight_response_origin:
  assumes "header_laws H"
  shows "allowed_origins H (preflight_response H c (Some v)) = (if origin_allowed c v then [v] else [])"
    and "rs_status (preflight_response H c (Some v)) = 204"
  by (simp_all add: preflight_response_def Let_def apply_response_origin[OF assms] status_response_def
      response_new_def header_laws_get_all[OF assms])

text \<open>
  C35. A router with a CORS policy names an origin only when the policy allows it.  For a request
  with an origin, an OPTIONS request is answered at once with 204, without consulting a route, and
  every other request gets the response of its handler; both name exactly the request's origin
  when the policy allows it, and otherwise nothing is added.
\<close>

theorem cors_policy_enforced:
  assumes "header_laws H" "rt_cors r = Some c" "hm_get_all H (rq_headers rq) ''origin'' = v # vs"
    and "call_boxed H uri_path M r rq = Some fut" "poll_future H PF now fut = (Ready resp, fut')"
  shows "(rq_method rq = ''OPTIONS'' \<longrightarrow>
            rs_status resp = 204 \<and> allowed_origins H resp = (if origin_allowed c v then [v] else []))
    \<and> (rq_method rq \<noteq> ''OPTIONS'' \<and> select_endpoint M r (rq_method rq) (uri_path (rq_uri rq)) = Some (Chosen ep ps) \<longrightarrow>
         (\<exists>own. fst (poll_future H PF now (endpoint_call ep rq (rt_state r) ps)) = Ready own
            \<and> rs_status resp = rs_status own
            \<and> allowed_origins H resp = (if origin_allowed c v then [v] else allowed_origins H own)))"
proof (cases "rq_method rq = ''OPTIONS''")
  case True
  then have "fut = HfReady (preflight_response H c (Some v))"
    using assms(2-4) by (simp add: call_boxed_def header_laws_get_all(4)[OF assms(1)])
  then show ?thesis using True assms(5) preflight_response_origin[OF assms(1), of c v] by auto
next
  case False
  have "\<exists>own. fst (poll_future H PF now (endpoint_call ep rq (rt_state r) ps)) = Ready own
        \<and> resp = apply_response H c own (Some v)"
    if "select_endpoint M r (rq_method rq) (uri_path (rq_uri rq)) = Some (Chosen ep ps)"
  proof -
    have "fut = HfCors c (Some v) (endpoint_call ep rq (rt_state r) ps)"
      using assms(2-4) False that by (simp add: call_boxed_def Let_def)
    then show ?thesis using assms(5) by (auto split: prod.splits poll.splits)
  qed
  then show ?thesis using False by (auto simp: apply_response_origin[OF assms(1)] split del: if_split)
qed

definition demo_cors :: cors where
  "demo_cors = cors_allow_origin demo_fields ''https://a'' cors_new"

definition cors_request :: "http_method \<Rightarrow> string \<Rightarrow> string \<Rightarrow> (string, (header_name \<times> header_value) list, unit, unit) web_request" where
  "cors_request m path origin =
     \<lparr>rq_method = m, rq_uri = path, rq_version = HTTP_11, rq_headers = [(''origin'', origin)],
      rq_body = empty_body, wr_extensions = ()\<rparr>"

theorem cors_policy_enforced_witness:
  "allowed_origins alist_headers (preflight_response alist_headers demo_cors (Some ''https://a'') :: (_, unit) web_response) = [''https://a'']
   \<and> allowed_origins alist_headers (preflight_response alist_headers demo_cors (Some ''https://b'') :: (_, unit) web_response) = []"
proof -
  let ?r = "router_cors demo_cors (router_new literal_match)
    :: ((string, (header_name \<times> header_value) list, unit, unit) web_request, unit, unit, (string \<times> nat) list) router"
  let ?resp = "\<lambda>v. preflight_response alist_headers demo_cors (Some v) :: (_, unit) web_response"
  have pre: "call_boxed alist_headers (\<lambda>p. p) literal_match ?r (cors_request ''OPTIONS'' ''/'' v) = Some (HfReady (?resp v))" for v
    by (simp add: call_boxed_def router_cors_def router_new_def cors_request_def alist_headers_def)
  have cors: "rt_cors ?r = Some demo_cors" by (simp add: router_cors_def)
  have origin: "hm_get_all alist_headers (rq_headers (cors_request ''OPTIONS'' ''/'' v)) ''origin'' = v # []" for v
    by (simp add: cors_request_def alist_headers_def)
  have "allowed_origins alist_headers (?resp v) = (if origin_allowed demo_cors v then [v] else [])" for v
    using cors_policy_enforced[OF header_laws_alist cors origin pre poll_future.simps(1)[where PF = "\<lambda>f. (Pending, f)" and now = 0]]
    by (simp add: cors_request_def)
  moreover have "origin_allowed demo_cors ''https://a'' \<and> \<not> origin_allowed demo_cors ''https://b''" by code_simp
  ultimately show ?thesis by simp
qed

section \<open>Handler deadlines\<close>

primrec future_polls ::
  "'h header_ops \<Rightarrow> ('f \<Rightarrow> ('h, 'b) web_response poll \<times> 'f) \<Rightarrow> ('f, ('h, 'b) web_response) handler_future
     \<Rightarrow> nat list \<Rightarrow> ('h, 'b) web_response poll list" where
  "future_polls H PF fut [] = []"
| "future_polls H PF fut (t # ts) =
     (case poll_future H PF t fut of (r, fut') \<Rightarrow> r # future_polls H PF fut' ts)"

definition under_deadline :: "'h header_ops \<Rightarrow> bool \<Rightarrow> ('h, 'b) web_response poll \<Rightarrow> ('h, 'b) web_response poll" where
  "under_deadline H expired r =
     (if r = Pending \<and> expired then Ready (response_with_body H 408 ''request handler deadline exceeded'') else r)"

lemma race_deadline_step:
  "race_deadline H PF now deadline f =
     (under_deadline H (deadline \<le> now) (fst (PF f)), HfRacing deadline (snd (PF f)))"
  by (simp add: race_deadline_def under_deadline_def split: prod.split poll.split)

lemma racing_polls:
  "i < length ts \<Longrightarrow> future_polls H PF (HfRacing deadline f) ts ! i =
     under_deadline H (deadline \<le> ts ! i) (fst (PF (((snd \<circ> PF) ^^ i) f)))"
  by (induction ts arbitrary: f i)
    (auto simp: race_deadline_step nth_Cons funpow_Suc_right simp del: funpow.simps split: nat.split)

text \<open>
  A route's deadline is kept exactly.  However the time of the polls is spaced, every poll of a
  dispatch with deadline \<open>d\<close> answers what the handler's own future answers at that poll, except
  that a handler still pending \<open>d\<close> or more after the first poll is answered with status 408: a
  handler that finishes at the deadline still wins, and none is cut off early.
\<close>

theorem handler_deadline_exact:
  assumes "i < length ts"
  shows "future_polls H PF (HfTimeout d f) ts ! i =
     under_deadline H (ts ! 0 + d \<le> ts ! i) (fst (PF (((snd \<circ> PF) ^^ i) f)))"
proof (cases ts)
  case (Cons t0 us)
  with assms show ?thesis
    by (cases i) (simp_all add: race_deadline_step racing_polls funpow_Suc_right del: funpow.simps(2))
qed (use assms in simp)

end
