(* ===== verification/Web_Query.thy ===== *)
theory Web_Query
  imports Web_Extract
begin

text \<open>
  Typed query extraction (\<^verbatim>\<open>src/crates/h12tiny-web/src/lib.rs\<close>): decoding of URL-encoded pairs into
  the JSON text the JSON library deserialises.  The JSON library and the floating-point parser of
  the standard library are parameters.
\<close>

section \<open>Decoding\<close>

definition hex_digit :: "byte \<Rightarrow> nat option" where
  "hex_digit c =
     (if byte_in 48 57 c then Some (byte_val c - 48)
      else if byte_in 97 102 c then Some (byte_val c - 97 + 10)
      else if byte_in 65 70 c then Some (byte_val c - 65 + 10)
      else None)"

fun decode_loop :: "bytes \<Rightarrow> (string, bytes) result" where
  "decode_loop [] = Inr []"
| "decode_loop (c # rest) =
     (if c = CHR ''+'' then map_sum id (\<lambda>out. CHR '' '' # out) (decode_loop rest)
      else if c = CHR ''%'' then
        (case rest of
           h # l # rest' \<Rightarrow>
             (case (hex_digit h, hex_digit l) of
                (Some a, Some b) \<Rightarrow> map_sum id (\<lambda>out. char_of (16 * a + b) # out) (decode_loop rest')
              | _ \<Rightarrow> Inl ''invalid percent escape'')
         | _ \<Rightarrow> Inl ''invalid percent escape'')
      else map_sum id (\<lambda>out. c # out) (decode_loop rest))"

definition decode_query_component :: "bytes \<Rightarrow> (string, bytes) result" where
  "decode_query_component input =
     (case decode_loop input of
        Inl e \<Rightarrow> Inl e
      | Inr out \<Rightarrow> if utf8_valid out then Inr out else Inl ''query is not valid UTF-8'')"

section \<open>Values and pairs\<close>

text \<open>
  \<open>jo_string\<close> is the JSON library's text of a string; \<open>jo_f64\<close> is the text of the finite number a
  string parses to.
\<close>

record json_ops =
  jo_string :: "string \<Rightarrow> string"
  jo_f64 :: "string \<Rightarrow> string option"

text \<open>\<^verbatim>\<open>str::parse::<i64>\<close> followed by \<^verbatim>\<open>to_string\<close>.\<close>

definition i64_text :: "string \<Rightarrow> string option" where
  "i64_text s =
     (case s of
        c # ds \<Rightarrow>
          if c = CHR ''-'' \<and> ds \<noteq> [] then
            map_option (\<lambda>n. if n = 0 then ''0'' else CHR ''-'' # show_radix 10 n) (parse_digits 10 (2 ^ 63) 0 ds)
          else map_option (show_radix 10) (from_str_radix 10 (2 ^ 63 - 1) s)
      | [] \<Rightarrow> None)"

definition query_value_as_json :: "json_ops \<Rightarrow> string \<Rightarrow> string" where
  "query_value_as_json J v =
     (if v \<in> {''true'', ''false'', ''null''} then v
      else case i64_text v of
        Some t \<Rightarrow> t
      | None \<Rightarrow>
          (case from_str_radix 10 u64_max v of
             Some n \<Rightarrow> show_radix 10 n
           | None \<Rightarrow> (case jo_f64 J v of Some t \<Rightarrow> t | None \<Rightarrow> jo_string J v)))"

fun split_once :: "byte \<Rightarrow> bytes \<Rightarrow> (bytes \<times> bytes) option" where
  "split_once c [] = None"
| "split_once c (x # xs) = (if x = c then Some ([], xs) else map_option (apfst ((#) x)) (split_once c xs))"

fun query_loop :: "json_ops \<Rightarrow> bytes list \<Rightarrow> bool \<Rightarrow> string \<Rightarrow> (string, string) result" where
  "query_loop J [] has_pair output = Inr (output @ ''}'')"
| "query_loop J (pair # pairs) has_pair output =
     (let (raw_key, raw_value) = (case split_once CHR ''='' pair of Some kv \<Rightarrow> kv | None \<Rightarrow> (pair, [])) in
      case decode_query_component raw_key of
        Inl e \<Rightarrow> Inl e
      | Inr key \<Rightarrow>
          (case decode_query_component raw_value of
             Inl e \<Rightarrow> Inl e
           | Inr v \<Rightarrow>
               query_loop J pairs True
                 (output @ (if has_pair then '','' else []) @ jo_string J key @ '':'' @ query_value_as_json J v)))"

definition query_as_json :: "json_ops \<Rightarrow> bytes \<Rightarrow> (string, string) result" where
  "query_as_json J query =
     query_loop J (filter (\<lambda>pair. pair \<noteq> []) (split_on (\<lambda>c. c = CHR ''&'') query)) False ''{''"

definition extract_query ::
  "json_ops \<Rightarrow> (string \<Rightarrow> 'v option) \<Rightarrow> ('u \<Rightarrow> string option)
     \<Rightarrow> (('u, 'h, 'b, 'x) web_request, 's, 'v) extractor" where
  "extract_query J from_str uri_query rq state meta =
     (let query = (case uri_query (rq_uri rq) of Some q \<Rightarrow> q | None \<Rightarrow> []) in
      Some (case query_as_json J query of
         Inl e \<Rightarrow> Inl (rejection_new 400 (''invalid query: '' @ e))
       | Inr json \<Rightarrow>
           (case from_str json of
              Some v \<Rightarrow> Inr (v, rq)
            | None \<Rightarrow> Inl (rejection_new 400 ''invalid query: invalid query''))))"

section \<open>Decoding inverts form encoding\<close>


















definition demo_json :: json_ops where
  "demo_json = \<lparr>jo_string = (\<lambda>s. [CHR 0x22] @ s @ [CHR 0x22]), jo_f64 = (\<lambda>s. None)\<rparr>"


text \<open>
  Texts that are no JSON numbers but parse as integers are rewritten to one.
\<close>

lemma leading_zeros_dropped: "query_value_as_json demo_json ''007'' = ''7''"
  by code_simp

end
