(* ===== verification/Web_Sse.thy ===== *)
theory Web_Sse
  imports Web_Extract
begin

text \<open>
  Server-sent events (\<^verbatim>\<open>src/crates/h12tiny-web/src/lib.rs\<close>): events and their encoding, keep-alive
  streams and the streaming response; and, as the specification of the encoding, the parser of
  the event stream format that browsers follow.
\<close>

section \<open>Events\<close>

abbreviation line_feed :: byte where "line_feed \<equiv> CHR 0x0A"
abbreviation carriage_return :: byte where "carriage_return \<equiv> CHR 0x0D"

record event =
  ev_data :: "string option"
  ev_event :: "string option"
  ev_id :: "string option"
  ev_retry :: "u64 option"
  ev_comments :: "string list"

definition event_new :: event where
  "event_new = \<lparr>ev_data = None, ev_event = None, ev_id = None, ev_retry = None, ev_comments = []\<rparr>"

definition event_data :: "string \<Rightarrow> event \<Rightarrow> event" where
  "event_data data e = e\<lparr>ev_data := Some data\<rparr>"

definition event_event :: "string \<Rightarrow> event \<Rightarrow> event" where
  "event_event name e = e\<lparr>ev_event := Some name\<rparr>"

definition event_id :: "string \<Rightarrow> event \<Rightarrow> event" where
  "event_id i e = e\<lparr>ev_id := Some i\<rparr>"

definition event_retry :: "u64 \<Rightarrow> event \<Rightarrow> event" where
  "event_retry ms e = e\<lparr>ev_retry := Some ms\<rparr>"

text \<open>None: the assertion fails.\<close>

definition event_comment :: "string \<Rightarrow> event \<Rightarrow> event option" where
  "event_comment comment e =
     (if line_feed \<in> set comment \<or> carriage_return \<in> set comment then None else Some (e\<lparr>ev_comments := ev_comments e @ [comment]\<rparr>))"

definition sse_field_line :: "string \<Rightarrow> string \<Rightarrow> string" where
  "sse_field_line name v = name @ '': '' @ v @ [line_feed]"

definition event_encode :: "event \<Rightarrow> bytes" where
  "event_encode e =
     concat (map (\<lambda>c. '':'' @ c @ [line_feed]) (ev_comments e))
     @ (case ev_data e of
          Some data \<Rightarrow> concat (map (sse_field_line ''data'') (split_on (\<lambda>c. c = line_feed) data))
        | None \<Rightarrow> [])
     @ (case ev_event e of Some v \<Rightarrow> sse_field_line ''event'' v | None \<Rightarrow> [])
     @ (case ev_id e of Some v \<Rightarrow> sse_field_line ''id'' v | None \<Rightarrow> [])
     @ (case ev_retry e of Some ms \<Rightarrow> sse_field_line ''retry'' (show_radix 10 (unat ms)) | None \<Rightarrow> [])
     @ [line_feed]"

section \<open>Keep-alive\<close>

record keep_alive =
  ka_event :: event
  ka_interval :: duration

definition keep_alive_new :: "keep_alive option" where
  "keep_alive_new =
     map_option (\<lambda>e. \<lparr>ka_event = e, ka_interval = 15000\<rparr>) (event_comment [] event_new)"

definition keep_alive_interval :: "duration \<Rightarrow> keep_alive \<Rightarrow> keep_alive option" where
  "keep_alive_interval d ka = (if d = 0 then None else Some (ka\<lparr>ka_interval := d\<rparr>))"

definition keep_alive_event :: "event \<Rightarrow> keep_alive \<Rightarrow> keep_alive" where
  "keep_alive_event e ka = ka\<lparr>ka_event := e\<rparr>"

definition keep_alive_text :: "string \<Rightarrow> keep_alive \<Rightarrow> keep_alive option" where
  "keep_alive_text txt ka = map_option (\<lambda>e. keep_alive_event e ka) (event_comment txt event_new)"

text \<open>
  \<open>ks_deadline\<close> is when the stream's timer fires; \<open>item\<close> makes a stream item of the keep-alive
  event (\<^verbatim>\<open>KeepAliveItem::keep_alive\<close>).
\<close>

record 's keep_alive_stream =
  ks_inner :: 's
  ks_deadline :: nat
  ks_keep_alive :: keep_alive

definition keep_alive_stream_new :: "nat \<Rightarrow> 's \<Rightarrow> keep_alive \<Rightarrow> 's keep_alive_stream" where
  "keep_alive_stream_new now inner ka =
     \<lparr>ks_inner = inner, ks_deadline = now + ka_interval ka, ks_keep_alive = ka\<rparr>"

definition reset_timer :: "nat \<Rightarrow> 's keep_alive_stream \<Rightarrow> 's keep_alive_stream" where
  "reset_timer now st = st\<lparr>ks_deadline := now + ka_interval (ks_keep_alive st)\<rparr>"

definition keep_alive_poll_next ::
  "('s \<Rightarrow> 'i option poll \<times> 's) \<Rightarrow> (event \<Rightarrow> 'i) \<Rightarrow> nat \<Rightarrow> 's keep_alive_stream
     \<Rightarrow> 'i option poll \<times> 's keep_alive_stream" where
  "keep_alive_poll_next P item now st =
     (case P (ks_inner st) of
        (Ready (Some i), s') \<Rightarrow> (Ready (Some i), reset_timer now (st\<lparr>ks_inner := s'\<rparr>))
      | (Ready None, s') \<Rightarrow> (Ready None, st\<lparr>ks_inner := s'\<rparr>)
      | (Pending, s') \<Rightarrow>
          if now \<ge> ks_deadline st
          then (Ready (Some (item (ka_event (ks_keep_alive st)))), reset_timer now (st\<lparr>ks_inner := s'\<rparr>))
          else (Pending, st\<lparr>ks_inner := s'\<rparr>))"

section \<open>The response\<close>

text \<open>The body of an event stream: each item becomes one data frame, an error ends as the body's error.\<close>

definition sse_poll_frame :: "('s \<Rightarrow> ('e, event) result option poll \<times> 's) \<Rightarrow> ('s, 'e, 't) poll_frame" where
  "sse_poll_frame P s =
     (case P s of
        (Pending, s') \<Rightarrow> (Pending, s')
      | (Ready i, s') \<Rightarrow> (Ready (map_option (map_sum id (DataFrame \<circ> event_encode)) i), s'))"

definition sse_response :: "'h header_ops \<Rightarrow> 's \<Rightarrow> ('h, 's) response" where
  "sse_response H stream =
     \<lparr>rs_status = 200, rs_version = HTTP_11,
      rs_headers = hm_insert H (hm_insert H (hm_new H) ''content-type'' ''text/event-stream'') ''cache-control'' ''no-cache'',
      rs_body = stream\<rparr>"

section \<open>The event stream format\<close>

text \<open>
  Lines end with a line feed, a carriage return or both; an unterminated last line is dropped.
\<close>

fun sse_lines :: "string \<Rightarrow> string \<Rightarrow> string list" where
  "sse_lines acc [] = []"
| "sse_lines acc (c # s) =
     (if c = line_feed then rev acc # sse_lines [] s
      else if c = carriage_return then rev acc # (case s of d # s' \<Rightarrow> (if d = line_feed then sse_lines [] s' else sse_lines [] s) | [] \<Rightarrow> [])
      else sse_lines (c # acc) s)"

record client_state =
  cl_data :: "string list"
  cl_type :: string
  cl_id :: string
  cl_retry :: "nat option"

text \<open>A dispatched event: its data, type and the last event identifier.\<close>

type_synonym sse_message = "string \<times> string \<times> string"

definition field_value :: "string \<Rightarrow> string" where
  "field_value v = (case v of c # cs \<Rightarrow> if c = CHR '' '' then cs else v | [] \<Rightarrow> [])"

definition set_field :: "string \<Rightarrow> string \<Rightarrow> client_state \<Rightarrow> client_state" where
  "set_field name v st =
     (if name = ''event'' then st\<lparr>cl_type := v\<rparr>
      else if name = ''data'' then st\<lparr>cl_data := cl_data st @ [v]\<rparr>
      else if name = ''id'' then (if CHR 0x00 \<in> set v then st else st\<lparr>cl_id := v\<rparr>)
      else if name = ''retry'' then
        (if v \<noteq> [] \<and> list_all (\<lambda>c. to_digit 10 c \<noteq> None) v then st\<lparr>cl_retry := parse_digits 10 u64_max 0 v\<rparr> else st)
      else st)"

definition sse_line :: "string \<Rightarrow> client_state \<Rightarrow> sse_message list \<times> client_state" where
  "sse_line l st =
     (if l = [] then
        (if cl_data st = [] then [] else [(join_with line_feed (cl_data st), cl_type st, cl_id st)],
         st\<lparr>cl_data := [], cl_type := []\<rparr>)
      else ([],
        (let name = takeWhile (\<lambda>c. c \<noteq> CHR '':'') l; rest = dropWhile (\<lambda>c. c \<noteq> CHR '':'') l in
         if name = [] then st
         else set_field name (case rest of [] \<Rightarrow> [] | c # v \<Rightarrow> field_value v) st)))"

fun sse_run :: "string list \<Rightarrow> client_state \<Rightarrow> sse_message list \<times> client_state" where
  "sse_run [] st = ([], st)"
| "sse_run (l # ls) st =
     (let (ms, st1) = sse_line l st; (ms', st2) = sse_run ls st1 in (ms @ ms', st2))"

definition client_new :: client_state where
  "client_new = \<lparr>cl_data = [], cl_type = [], cl_id = [], cl_retry = None\<rparr>"

text \<open>What a client dispatches for the text of a stream.\<close>

definition sse_parse :: "string \<Rightarrow> sse_message list" where
  "sse_parse s = fst (sse_run (sse_lines [] s) client_new)"

section \<open>The encoding is read back\<close>

definition one_line :: "string \<Rightarrow> bool" where
  "one_line s \<longleftrightarrow> line_feed \<notin> set s \<and> carriage_return \<notin> set s"

text \<open>Events whose fields are single lines (the data apart, which may hold line feeds).\<close>

definition clean_event :: "event \<Rightarrow> bool" where
  "clean_event e \<longleftrightarrow>
     list_all one_line (ev_comments e)
     \<and> (case ev_data e of Some d \<Rightarrow> carriage_return \<notin> set d | None \<Rightarrow> True)
     \<and> (case ev_event e of Some v \<Rightarrow> one_line v | None \<Rightarrow> True)
     \<and> (case ev_id e of Some v \<Rightarrow> one_line v \<and> CHR 0x00 \<notin> set v | None \<Rightarrow> True)"

definition field_text :: "string \<Rightarrow> string \<Rightarrow> string" where
  "field_text name v = name @ '': '' @ v"

definition event_lines :: "event \<Rightarrow> string list" where
  "event_lines e =
     map (\<lambda>c. '':'' @ c) (ev_comments e)
     @ (case ev_data e of Some d \<Rightarrow> map (field_text ''data'') (split_on (\<lambda>c. c = line_feed) d) | None \<Rightarrow> [])
     @ (case ev_event e of Some v \<Rightarrow> [field_text ''event'' v] | None \<Rightarrow> [])
     @ (case ev_id e of Some v \<Rightarrow> [field_text ''id'' v] | None \<Rightarrow> [])
     @ (case ev_retry e of Some ms \<Rightarrow> [field_text ''retry'' (show_radix 10 (unat ms))] | None \<Rightarrow> [])
     @ [[]]"

lemma sse_field_line_text: "sse_field_line name = (\<lambda>v. field_text name v @ [line_feed])"
  by (simp add: fun_eq_iff sse_field_line_def field_text_def)

lemma encode_lines: "event_encode e = concat (map (\<lambda>l. l @ [line_feed]) (event_lines e))"
  by (simp add: event_encode_def event_lines_def sse_field_line_text comp_def split: option.split)

lemma sse_lines_line: "one_line l \<Longrightarrow> sse_lines acc (l @ line_feed # s) = (rev acc @ l) # sse_lines [] s"
  by (induction l arbitrary: acc) (auto simp: one_line_def)

lemma sse_lines_concat:
  "list_all one_line ls \<Longrightarrow> sse_lines [] (concat (map (\<lambda>l. l @ [line_feed]) ls) @ rest) = ls @ sse_lines [] rest"
  by (induction ls) (simp_all add: sse_lines_line)

lemma decimal_one_line: "one_line (show_radix 10 n)"
proof -
  have "c \<noteq> line_feed \<and> c \<noteq> carriage_return" if "c \<in> set (show_radix 10 n)" for c
    using show_radix_chars[of 10 c n] that by auto
  then show ?thesis by (auto simp: one_line_def)
qed

lemma one_line_simps [simp]:
  "one_line []" "one_line (c # s) \<longleftrightarrow> c \<noteq> line_feed \<and> c \<noteq> carriage_return \<and> one_line s"
  by (auto simp: one_line_def)

lemma split_on_subset: "ys \<in> set (split_on p xs) \<Longrightarrow> set ys \<subseteq> set xs"
proof (induction xs arbitrary: ys)
  case (Cons x xs)
  then show ?case by (cases "split_on p xs") (fastforce split: if_splits)+
qed simp

lemma data_lines_clean:
  assumes "carriage_return \<notin> set d" "l \<in> set (split_on (\<lambda>c. c = line_feed) d)"
  shows "one_line l"
  using assms split_on_pieces[OF assms(2)] split_on_subset[OF assms(2)] by (auto simp: one_line_def)

lemma event_lines_clean: "clean_event e \<Longrightarrow> list_all one_line (event_lines e)"
  by (auto simp: clean_event_def event_lines_def field_text_def list_all_iff decimal_one_line data_lines_clean
      split: option.splits)

lemma sse_run_append:
  "sse_run (ls @ ls') st =
     (let (ms, st1) = sse_run ls st; (ms', st2) = sse_run ls' st1 in (ms @ ms', st2))"
  by (induction ls arbitrary: st) (simp_all add: Let_def split: prod.split)

lemma field_text_parts:
  assumes "CHR '':'' \<notin> set name" "name \<noteq> []"
  shows "sse_line (field_text name v) st = ([], set_field name v st)"
proof -
  have "takeWhile (\<lambda>c. c \<noteq> CHR '':'') (name @ CHR '':'' # '' '' @ v) = name"
    "dropWhile (\<lambda>c. c \<noteq> CHR '':'') (name @ CHR '':'' # '' '' @ v) = CHR '':'' # '' '' @ v"
    using assms(1) by (subst takeWhile_append2 dropWhile_append2; auto)+
  then show ?thesis using assms(2) by (simp add: sse_line_def field_text_def field_value_def)
qed

lemma sse_run_comments: "sse_run (map (\<lambda>c. '':'' @ c) cs) st = ([], st)"
  by (induction cs) (simp_all add: sse_line_def)

lemma sse_run_data: "sse_run (map (field_text ''data'') ds) st = ([], st\<lparr>cl_data := cl_data st @ ds\<rparr>)"
  by (induction ds arbitrary: st) (simp_all add: field_text_parts set_field_def)

lemma decimal_retry: "set_field ''retry'' (show_radix 10 (unat (ms :: u64))) st = st\<lparr>cl_retry := Some (unat ms)\<rparr>"
proof -
  have "to_digit 10 c \<noteq> None" if "c \<in> set (show_radix 10 (unat ms))" for c
    using set_show_radix[of 10 c "unat ms"] that by (auto simp: to_digit_digit_char)
  moreover have "unat ms < 2 ^ LENGTH(64)" by (rule unsigned_less)
  then have "unat ms \<le> u64_max" by (simp add: u64_max_def)
  ultimately show ?thesis by (simp add: set_field_def list_all_iff parse_digits_show_radix)
qed

text \<open>What a client makes of an event, from the identifier seen last.\<close>

definition event_messages :: "string \<Rightarrow> event \<Rightarrow> sse_message list" where
  "event_messages last_id e =
     (case ev_data e of
        None \<Rightarrow> []
      | Some d \<Rightarrow> [(d, case ev_event e of Some v \<Rightarrow> v | None \<Rightarrow> [], case ev_id e of Some i \<Rightarrow> i | None \<Rightarrow> last_id)])"

fun stream_messages :: "string \<Rightarrow> event list \<Rightarrow> sse_message list" where
  "stream_messages last_id [] = []"
| "stream_messages last_id (e # es) =
     event_messages last_id e @ stream_messages (case ev_id e of Some i \<Rightarrow> i | None \<Rightarrow> last_id) es"

definition after_event :: "event \<Rightarrow> client_state \<Rightarrow> client_state" where
  "after_event e st =
     st\<lparr>cl_id := (case ev_id e of Some i \<Rightarrow> i | None \<Rightarrow> cl_id st),
        cl_retry := (case ev_retry e of Some ms \<Rightarrow> Some (unat ms) | None \<Rightarrow> cl_retry st)\<rparr>"

lemma sse_run_event:
  assumes "clean_event e" "cl_data st = []" "cl_type st = []"
  shows "sse_run (event_lines e) st = (event_messages (cl_id st) e, after_event e st)"
proof -
  have colon: "CHR '':'' \<notin> set ''data''" "CHR '':'' \<notin> set ''event''" "CHR '':'' \<notin> set ''id''" "CHR '':'' \<notin> set ''retry''"
    by simp_all
  have "sse_run (event_lines e) st =
      (let st1 = (case ev_data e of Some d \<Rightarrow> st\<lparr>cl_data := split_on (\<lambda>c. c = line_feed) d\<rparr> | None \<Rightarrow> st);
           st2 = (case ev_event e of Some v \<Rightarrow> st1\<lparr>cl_type := v\<rparr> | None \<Rightarrow> st1);
           st3 = (case ev_id e of Some v \<Rightarrow> st2\<lparr>cl_id := v\<rparr> | None \<Rightarrow> st2);
           st4 = (case ev_retry e of Some ms \<Rightarrow> st3\<lparr>cl_retry := Some (unat ms)\<rparr> | None \<Rightarrow> st3)
       in sse_line [] st4)"
    using assms(1,2)
    by (cases "ev_data e"; cases "ev_event e"; cases "ev_id e"; cases "ev_retry e")
       (simp_all add: event_lines_def sse_run_append sse_run_comments[simplified] sse_run_data field_text_parts[OF colon(2)]
          field_text_parts[OF colon(3)] field_text_parts[OF colon(4)] decimal_retry Let_def clean_event_def
          set_field_def[of "''event''"] set_field_def[of "''id''"])
  then show ?thesis
    using assms(2,3)
    by (cases "ev_data e"; cases "ev_event e"; cases "ev_id e"; cases "ev_retry e")
       (simp_all add: sse_line_def Let_def event_messages_def after_event_def join_with_split_on)
qed

lemma sse_run_events:
  assumes "list_all clean_event es" "cl_data st = []" "cl_type st = []"
  shows "fst (sse_run (concat (map event_lines es)) st) = stream_messages (cl_id st) es"
  using assms
proof (induction es arbitrary: st)
  case (Cons e es)
  have "sse_run (event_lines e) st = (event_messages (cl_id st) e, after_event e st)"
    using Cons.prems by (intro sse_run_event) simp_all
  then show ?case
    using Cons.IH[of "after_event e st"] Cons.prems
    by (cases "sse_run (concat (map event_lines es)) (after_event e st)")
      (simp add: sse_run_append Let_def, simp add: after_event_def)
qed simp

lemma sse_lines_events:
  "list_all clean_event es \<Longrightarrow> sse_lines [] (concat (map event_encode es)) = concat (map event_lines es)"
proof (induction es)
  case (Cons e es)
  then show ?case
    using sse_lines_concat[OF event_lines_clean, of e "concat (map event_encode es)"] by (simp add: encode_lines[symmetric])
qed simp

text \<open>
  C37. Event streams are read back.  A client that follows the event stream format dispatches, for
  the concatenated encodings of any events whose fields are single lines, exactly the events
  that carry data, in order, each with its data (which may hold line feeds and be empty), its type
  and the identifier seen last; comments and events without data dispatch nothing.
\<close>

theorem sse_roundtrip:
  assumes "list_all clean_event es"
  shows "sse_parse (concat (map event_encode es)) = stream_messages [] es"
  using sse_run_events[OF assms, of client_new]
  by (simp add: sse_parse_def sse_lines_events[OF assms] client_new_def)

theorem sse_roundtrip_witness:
  "sse_parse (concat (map event_encode
      [event_id ''7'' (event_data (''a'' @ [line_feed] @ ''b: c'') event_new),
       event_new\<lparr>ev_comments := [[]]\<rparr>,
       event_retry 5 (event_event ''tick'' (event_data [] event_new))]))
   = [(''a'' @ [line_feed] @ ''b: c'', [], ''7''), ([], ''tick'', ''7'')]"
proof -
  let ?es = "[event_id ''7'' (event_data (''a'' @ [line_feed] @ ''b: c'') event_new),
       event_new\<lparr>ev_comments := [[]]\<rparr>, event_retry 5 (event_event ''tick'' (event_data [] event_new))]"
  have "list_all clean_event ?es" by code_simp
  from sse_roundtrip[OF this] show ?thesis
    by (simp add: event_id_def event_data_def event_new_def event_retry_def event_event_def event_messages_def)
qed

text \<open>
  The fields of an event are not isolated from each other.  Comments are refused when they hold
  a line break, but types and identifiers are written as they are: a type with a line feed adds
  data of its own; and a carriage return in the data, which also ends a line, sets the identifier.
\<close>

theorem sse_fields_not_isolated:
  "sse_parse (event_encode (event_event (''x'' @ [line_feed] @ ''data: evil'') (event_data ''ok'' event_new)))
     = [(''ok'' @ [line_feed] @ ''evil'', ''x'', [])]
   \<and> sse_parse (event_encode (event_data (''ok'' @ [carriage_return] @ ''id: 9'') event_new)) = [(''ok'', [], ''9'')]
   \<and> event_comment (''x'' @ [line_feed] @ ''data: evil'') event_new = None"
  by code_simp

section \<open>Keep-alive frames fill the silence\<close>

primrec keep_alive_polls ::
  "('s \<Rightarrow> 'i option poll \<times> 's) \<Rightarrow> (event \<Rightarrow> 'i) \<Rightarrow> nat list \<Rightarrow> 's keep_alive_stream
     \<Rightarrow> 'i option poll list \<times> 's keep_alive_stream" where
  "keep_alive_polls P item [] st = ([], st)"
| "keep_alive_polls P item (now # ts) st =
     (let (a, st1) = keep_alive_poll_next P item now st; (as, st2) = keep_alive_polls P item ts st1
      in (a # as, st2))"

text \<open>The answers of the stream inside to as many polls.\<close>

primrec inner_polls :: "('s \<Rightarrow> 'i option poll \<times> 's) \<Rightarrow> nat \<Rightarrow> 's \<Rightarrow> 'i option poll list" where
  "inner_polls P 0 s = []"
| "inner_polls P (Suc k) s = fst (P s) # inner_polls P k (snd (P s))"

fun last_item :: "nat \<Rightarrow> nat list \<Rightarrow> 'i option poll list \<Rightarrow> nat" where
  "last_item t (now # ts) (Ready (Some i) # as) = last_item now ts as"
| "last_item t (now # ts) (a # as) = last_item t ts as"
| "last_item t _ _ = t"

definition fills :: "'i \<Rightarrow> 'i option poll \<Rightarrow> 'i option poll \<Rightarrow> bool" where
  "fills k a b \<longleftrightarrow> a = b \<or> b = Pending \<and> a = Ready (Some k)"

lemma keep_alive_poll_step:
  assumes "keep_alive_poll_next P item now st = (a, st')" "ks_deadline st = t + ka_interval (ks_keep_alive st)"
  shows "ks_inner st' = snd (P (ks_inner st)) \<and> ks_keep_alive st' = ks_keep_alive st
    \<and> ks_deadline st' = last_item t [now] [a] + ka_interval (ks_keep_alive st)
    \<and> fills (item (ka_event (ks_keep_alive st))) a (fst (P (ks_inner st)))
    \<and> (a = Pending \<longrightarrow> now < t + ka_interval (ks_keep_alive st))
    \<and> (fst (P (ks_inner st)) = Pending \<and> now < t + ka_interval (ks_keep_alive st) \<longrightarrow> a = Pending)"
  using assms
  by (auto simp: keep_alive_poll_next_def reset_timer_def fills_def split: prod.splits poll.splits option.splits if_splits)

lemma last_item_Cons: "last_item t (now # ts) (a # as) = last_item (last_item t [now] [a]) ts as"
  by (cases "(t, now # ts, a # as)" rule: last_item.cases) auto

lemma keep_alive_polls_state:
  assumes "keep_alive_polls P item ts st = (as, st')" "ks_deadline st = t + ka_interval (ks_keep_alive st)"
  shows "ks_keep_alive st' = ks_keep_alive st
    \<and> ks_deadline st' = last_item t ts as + ka_interval (ks_keep_alive st)
    \<and> list_all2 (fills (item (ka_event (ks_keep_alive st)))) as (inner_polls P (length ts) (ks_inner st))"
  using assms
proof (induction ts arbitrary: st as t)
  case (Cons now ts)
  obtain a st1 bs where step: "keep_alive_poll_next P item now st = (a, st1)"
    and rest: "keep_alive_polls P item ts st1 = (bs, st')" and as: "as = a # bs"
    using Cons.prems(1) by (auto simp: Let_def split: prod.splits)
  note one = keep_alive_poll_step[OF step Cons.prems(2)]
  then have "ks_deadline st1 = last_item t [now] [a] + ka_interval (ks_keep_alive st1)" by simp
  from Cons.IH[OF rest this] one show ?case by (simp add: as last_item_Cons[of t now ts a bs])
qed simp

text \<open>
  C38. A keep-alive stream is its source with the silences filled.  Over any polls, its answers are
  those of the source, in order and none lost, except that a keep-alive item may stand where the
  source had nothing ready; and a further poll is left waiting exactly when the source has nothing
  ready and less than the interval has passed since the last item, or since the start.
\<close>

theorem keep_alive_fills_silence:
  assumes "keep_alive_polls P item ts (keep_alive_stream_new t0 s ka) = (as, st)"
    and "keep_alive_poll_next P item now st = (a, st')"
  shows "list_all2 (fills (item (ka_event ka))) as (inner_polls P (length ts) s)
    \<and> fills (item (ka_event ka)) a (fst (P (ks_inner st)))
    \<and> (a = Pending \<longleftrightarrow> fst (P (ks_inner st)) = Pending \<and> now < last_item t0 ts as + ka_interval ka)"
proof -
  have st: "ks_keep_alive st = ka" "ks_deadline st = last_item t0 ts as + ka_interval ka"
      "list_all2 (fills (item (ka_event ka))) as (inner_polls P (length ts) s)"
    using keep_alive_polls_state[OF assms(1), of t0] by (simp_all add: keep_alive_stream_new_def)
  have "ks_deadline st = last_item t0 ts as + ka_interval (ks_keep_alive st)" by (simp add: st)
  from keep_alive_poll_step[OF assms(2) this] st show ?thesis
    by (auto simp: fills_def)
qed

fun script_items :: "'i option poll list \<Rightarrow> 'i option poll \<times> 'i option poll list" where
  "script_items [] = (Pending, [])"
| "script_items (a # as) = (a, as)"

definition demo_keep_alive :: keep_alive where
  "demo_keep_alive = \<lparr>ka_event = event_new\<lparr>ev_comments := [[]]\<rparr>, ka_interval = 10\<rparr>"

theorem keep_alive_fills_silence_witness:
  "fst (keep_alive_polls script_items (\<lambda>e. e) [4, 9, 15] (keep_alive_stream_new 0 [Ready (Some event_new)] demo_keep_alive))
     = [Ready (Some event_new), Pending, Ready (Some (ka_event demo_keep_alive))]
   \<and> list_all2 (fills (ka_event demo_keep_alive))
       [Ready (Some event_new), Pending, Ready (Some (ka_event demo_keep_alive))]
       [Ready (Some event_new), Pending, Pending]"
proof -
  let ?st = "\<lparr>ks_inner = ([] :: event option poll list), ks_deadline = 25, ks_keep_alive = demo_keep_alive\<rparr>"
  let ?as = "[Ready (Some event_new), Pending, Ready (Some (ka_event demo_keep_alive))]"
  have run: "keep_alive_polls script_items (\<lambda>e. e) [4, 9, 15] (keep_alive_stream_new 0 [Ready (Some event_new)] demo_keep_alive)
     = (?as, ?st)"
    by code_simp
  have more: "keep_alive_poll_next script_items (\<lambda>e. e) 16 ?st = (Pending, ?st)" by code_simp
  show ?thesis using run keep_alive_fills_silence[OF run more] by simp
qed

end
