(* ===== verification/Web_Socket.thy ===== *)
theory Web_Socket
  imports Web_Extract
begin











record 'o websocket_upgrade =
  wu_accept :: string
  wu_on_upgrade :: 'o




text \<open>
  After the switching response: the upgraded stream, in the wrapper \<^verbatim>\<open>HyperIo\<close> that only changes the
  traits it is read and written by, is split into halves, and framed for the server's role, with
  fragments collected on the reading side.  The split and the framing are library functions.
\<close>

record ('io, 'rd, 'wr, 'frd, 'crd, 'fwr) frame_ops =
  fo_split :: "'io \<Rightarrow> 'rd \<times> 'wr"
  fo_after_handshake_server :: "'rd \<Rightarrow> 'wr \<Rightarrow> 'frd \<times> 'fwr"
  fo_collect :: "'frd \<Rightarrow> 'crd"

record ('crd, 'fwr) websocket_connection =
  wc_reader :: 'crd
  wc_writer :: 'fwr

definition websocket_split :: "('crd, 'fwr) websocket_connection \<Rightarrow> 'crd \<times> 'fwr" where
  "websocket_split c = (wc_reader c, wc_writer c)"

text \<open>\<open>await\<close> is the upgrade's result, when the connection driver has delivered it.\<close>

definition into_connection ::
  "('io, 'rd, 'wr, 'frd, 'crd, 'fwr) frame_ops \<Rightarrow> ('o \<Rightarrow> ('e, 'io) result) \<Rightarrow> 'o websocket_upgrade
     \<Rightarrow> ('e, ('crd, 'fwr) websocket_connection) result" where
  "into_connection P await up =
     (case await (wu_on_upgrade up) of
        Inl e \<Rightarrow> Inl e
      | Inr upgraded \<Rightarrow>
          (let (read, write) = fo_split P upgraded;
               (reader, writer) = fo_after_handshake_server P read write
           in Inr \<lparr>wc_reader = fo_collect P reader, wc_writer = writer\<rparr>))"

text \<open>The raw upgrade is captured without validation.\<close>

definition extract_upgrade ::
  "(('u, 'h, 'b, 'x) web_request \<Rightarrow> 'o \<times> ('u, 'h, 'b, 'x) web_request)
     \<Rightarrow> (('u, 'h, 'b, 'x) web_request, 's, 'o) extractor" where
  "extract_upgrade on rq state meta = Some (Inr (on rq))"

section \<open>The handshake is the standard's\<close>











end
