(* ===== verification/Bench_Server.thy ===== *)
theory Bench_Server
  imports Util_Body
begin

text \<open>
  The benchmark servers (\<^verbatim>\<open>src/examples/interop-server.rs\<close>, \<^verbatim>\<open>src/examples/h2-reference-server.rs\<close>) and the
  service they share (\<^verbatim>\<open>src/examples/support/benchmark.rs\<close>): command lines, the payload service, the
  accept loops and what a connection's task reports.
\<close>

section \<open>Command lines\<close>

text \<open>
  What parsing a command line gives: the usage is printed and the process exits successfully, an
  error, or the options.
\<close>

datatype 'a cli = CliHelp | CliError string | CliOptions 'a

definition unknown_option :: "string \<Rightarrow> string \<Rightarrow> string" where
  "unknown_option other usage = ''unknown option '' @ debug_text other @ [CHR 0x0A, CHR 0x0A] @ usage"

subsection \<open>The interoperability server\<close>

record interop_options =
  io_plain :: "string option"
  io_tls :: "string option"

definition interop_usage :: string where
  "interop_usage =
     ''usage: cargo run --example interop-server -- [--plain ADDR] [--tls ADDR]'' @ [CHR 0x0A, CHR 0x0A]
     @ ''defaults: --plain 127.0.0.1:3000 --tls 127.0.0.1:3443'' @ [CHR 0x0A]
     @ ''endpoints: /0, /1k, /64k''"

fun interop_options_loop :: "string option \<Rightarrow> string option \<Rightarrow> string list \<Rightarrow> interop_options cli" where
  "interop_options_loop plain tls [] =
     (if plain = None \<and> tls = None then CliError ''at least one listener must be enabled''
      else CliOptions \<lparr>io_plain = plain, io_tls = tls\<rparr>)"
| "interop_options_loop plain tls (arg # args) =
     (if arg = ''--help'' \<or> arg = ''-h'' then CliHelp
      else if arg = ''--plain'' then
        (case args of
           [] \<Rightarrow> CliError ''--plain needs ADDR''
         | v # rest \<Rightarrow> interop_options_loop (Some v) tls rest)
      else if arg = ''--tls'' then
        (case args of
           [] \<Rightarrow> CliError ''--tls needs ADDR''
         | v # rest \<Rightarrow> interop_options_loop plain (Some v) rest)
      else if arg = ''--no-plain'' then interop_options_loop None tls args
      else if arg = ''--no-tls'' then interop_options_loop plain None args
      else CliError (unknown_option arg interop_usage))"

definition interop_options_parse :: "string list \<Rightarrow> interop_options cli" where
  "interop_options_parse = interop_options_loop (Some ''127.0.0.1:3000'') (Some ''127.0.0.1:3443'')"

subsection \<open>The reference server\<close>

definition reference_usage :: string where
  "reference_usage =
     ''usage: cargo run --example h2-reference-server -- [--addr ADDR]'' @ [CHR 0x0A, CHR 0x0A]
     @ ''default: --addr 127.0.0.1:3001'' @ [CHR 0x0A]
     @ ''endpoints: /0, /1k, /64k'' @ [CHR 0x0A, CHR 0x0A]
     @ ''This is a direct-Hyper H2 prior-knowledge benchmark reference, not a production server.''"

fun reference_options_loop :: "string \<Rightarrow> string list \<Rightarrow> string cli" where
  "reference_options_loop address [] = CliOptions address"
| "reference_options_loop address (arg # args) =
     (if arg = ''--help'' \<or> arg = ''-h'' then CliHelp
      else if arg = ''--addr'' then
        (case args of
           [] \<Rightarrow> CliError ''--addr needs ADDR''
         | v # rest \<Rightarrow> reference_options_loop v rest)
      else CliError (unknown_option arg reference_usage))"

definition reference_options_parse :: "string list \<Rightarrow> string cli" where
  "reference_options_parse = reference_options_loop ''127.0.0.1:3001''"

section \<open>The payload service\<close>

definition BODY_1K :: bytes where
  "BODY_1K = replicate 1024 (CHR ''x'')"

definition BODY_64K :: bytes where
  "BODY_64K = replicate (64 * 1024) (CHR ''x'')"

text \<open>A body that emits its payload in one frame; it holds the payload until then.\<close>

type_synonym one_frame_body = "bytes option"

definition one_frame_from_bytes :: "bytes \<Rightarrow> one_frame_body" where
  "one_frame_from_bytes body = (if body = [] then None else Some body)"

definition one_frame_poll_frame :: "(one_frame_body, 'e, 't) poll_frame" where
  "one_frame_poll_frame b = (Ready (map_option (\<lambda>body. Inr (DataFrame body)) b), None)"

definition one_frame_is_end_stream :: "one_frame_body \<Rightarrow> bool" where
  "one_frame_is_end_stream b \<longleftrightarrow> b = None"

definition benchmark_payload :: "string \<Rightarrow> status_code \<times> bytes" where
  "benchmark_payload path =
     (if path = ''/0'' then (200, [])
      else if path = ''/1k'' then (200, BODY_1K)
      else if path = ''/64k'' then (200, BODY_64K)
      else (404, ''use /0, /1k, or /64k'' @ [CHR 0x0A]))"

definition benchmark_call :: "'h header_ops \<Rightarrow> ('u \<Rightarrow> string) \<Rightarrow> ('u, 'h, 'b) request \<Rightarrow> ('h, one_frame_body) response" where
  "benchmark_call H uri_path rq =
     (let (status, body) = benchmark_payload (uri_path (rq_uri rq))
      in \<lparr>rs_status = status, rs_version = HTTP_11,
          rs_headers = hm_append H (hm_new H) ''content-type'' ''application/octet-stream'',
          rs_body = one_frame_from_bytes body\<rparr>)"

section \<open>Accept loops\<close>

text \<open>
  The connections an accept loop spawns a task for, given what the listener delivers, and whether
  it panicked: a failing listener ends the loop.
\<close>

fun accept_loop :: "(io_error, 's) result list \<Rightarrow> 's list \<times> bool" where
  "accept_loop [] = ([], False)"
| "accept_loop (Inl e # rs) = ([], True)"
| "accept_loop (Inr s # rs) = apfst (\<lambda>ss. s # ss) (accept_loop rs)"

text \<open>The lines the task of one connection writes; an error is given by the text it prints.\<close>

definition plain_connection_log :: "string \<Rightarrow> (string, unit) result \<Rightarrow> string list" where
  "plain_connection_log peer r =
     (case r of
        Inl e \<Rightarrow> [''plain connection '' @ peer @ '' ended with error: '' @ e]
      | Inr _ \<Rightarrow> [])"

definition tls_connection_log ::
  "string \<Rightarrow> (string, 'tls) result \<Rightarrow> ('tls \<Rightarrow> (string, 'c) result) \<Rightarrow> ('c \<Rightarrow> (string, unit) result) \<Rightarrow> string list" where
  "tls_connection_log peer handshake serve_tls run =
     (case handshake of
        Inl e \<Rightarrow> [''TLS handshake from '' @ peer @ '' failed: '' @ e]
      | Inr tls \<Rightarrow>
          (case serve_tls tls of
             Inl e \<Rightarrow> [''TLS protocol selection for '' @ peer @ '' failed: '' @ e]
           | Inr connection \<Rightarrow>
               (case run connection of
                  Inl e \<Rightarrow> [''TLS connection '' @ peer @ '' ended with error: '' @ e]
                | Inr _ \<Rightarrow> [])))"

definition reference_connection_log :: "string \<Rightarrow> (string, unit) result \<Rightarrow> string list" where
  "reference_connection_log peer r =
     (case r of
        Inl e \<Rightarrow> [''direct Hyper H2 connection '' @ peer @ '' ended with error: '' @ e]
      | Inr _ \<Rightarrow> [])"

section \<open>Options\<close>

text \<open>The interoperability server never starts without a listener, whatever its arguments.\<close>

theorem interop_has_listener:
  "interop_options_parse args = CliOptions opts \<Longrightarrow> io_plain opts \<noteq> None \<or> io_tls opts \<noteq> None"
proof -
  have "interop_options_loop plain tls args = CliOptions opts \<Longrightarrow> io_plain opts \<noteq> None \<or> io_tls opts \<noteq> None"
    for plain tls
  proof (induction plain tls args rule: interop_options_loop.induct)
    case (2 plain tls arg args)
    from "2.prems" consider
        v rest where "args = v # rest" "arg = ''--plain''" "interop_options_loop (Some v) tls rest = CliOptions opts"
      | v rest where "args = v # rest" "arg = ''--tls''" "interop_options_loop plain (Some v) rest = CliOptions opts"
      | "arg = ''--no-plain''" "interop_options_loop None tls args = CliOptions opts"
      | "arg = ''--no-tls''" "interop_options_loop plain None args = CliOptions opts"
      by (simp split: if_split_asm list.split_asm)
    then show ?case by cases (rule "2.IH"; simp)+
  qed (auto split: if_splits)
  then show "interop_options_parse args = CliOptions opts \<Longrightarrow> ?thesis"
    by (simp add: interop_options_parse_def)
qed

text \<open>The arguments that ask for given listeners are understood as such.\<close>

definition interop_args :: "interop_options \<Rightarrow> string list" where
  "interop_args opts =
     (case io_plain opts of Some a \<Rightarrow> [''--plain'', a] | None \<Rightarrow> [''--no-plain''])
     @ (case io_tls opts of Some a \<Rightarrow> [''--tls'', a] | None \<Rightarrow> [''--no-tls''])"

theorem interop_options_roundtrip:
  "io_plain opts \<noteq> None \<or> io_tls opts \<noteq> None \<Longrightarrow> interop_options_parse (interop_args opts) = CliOptions opts"
  by (cases opts) (auto simp: interop_args_def interop_options_parse_def split: option.split)

text \<open>The tasks spawned are the connections delivered before the listener first failed.\<close>

lemma accept_loop_spec:
  "accept_loop rs = (map projr (takeWhile (\<lambda>r. \<not> isl r) rs), list_ex isl rs)"
  by (induction rs rule: accept_loop.induct) auto

end
