(* ===== verification/Client_Errors.thy ===== *)
theory Client_Errors
  imports Client_Request
begin

text \<open>
  What a failed call of the futures-based client tells its user (\<^verbatim>\<open>src/crates/h12tiny-client/src\<close>): the texts
  of the errors and the chain of their sources.  The text of an error of a library is the message it
  is modelled by.
\<close>

fun client_kind_display :: "client_error_kind \<Rightarrow> string" where
  "client_kind_display Canceled = ''request was cancelled before it could be sent''"
| "client_kind_display UnsupportedScheme = ''request URI scheme is unsupported''"
| "client_kind_display Connect = ''connection establishment failed''"
| "client_kind_display Tls = ''TLS negotiation or certificate validation failed''"
| "client_kind_display Alpn = ''TLS ALPN did not select an allowed HTTP protocol''"
| "client_kind_display Handshake = ''HTTP connection handshake failed''"
| "client_kind_display SendRequest = ''request dispatch failed''"
| "client_kind_display UnsupportedMethod = ''request method is unsupported for this HTTP version''"
| "client_kind_display UnsupportedVersion = ''request HTTP version is unsupported''"
| "client_kind_display AbsoluteUriRequired = ''client requests require an absolute URI''"
| "client_kind_display ProtocolUnavailable = ''the selected protocol was not enabled in this build''"

definition client_error_display :: "client_error \<Rightarrow> string" where
  "client_error_display e = client_kind_display (ce_kind e)"

fun connect_error_display :: "connect_error \<Rightarrow> string" where
  "connect_error_display MissingHost = ''URI has no host''"
| "connect_error_display (CUnsupportedScheme scheme) = ''unsupported URI scheme '' @ debug_text scheme"
| "connect_error_display TlsDisabled = ''HTTPS requires the `tls` feature''"
| "connect_error_display (CInvalidServerName host) = ''invalid TLS server name '' @ debug_text host"
| "connect_error_display (UnexpectedAlpn p) = ''server selected unsupported ALPN '' @ debug_bytes p"
| "connect_error_display RequiredHttp2NotNegotiated = ''HTTP/2 was required but ALPN did not select h2''"
| "connect_error_display (ConnectIo e) = io_message e"
| "connect_error_display (ResolveError e) = e"
| "connect_error_display (CustomError e) = e"
| "connect_error_display ConnectTimeout = ''connection establishment timed out''"
| "connect_error_display (TlsIo e) = io_message e"

text \<open>The text of the source of a connect error, when it has one.\<close>

fun connect_error_cause :: "connect_error \<Rightarrow> string option" where
  "connect_error_cause (ConnectIo e) = Some (io_message e)"
| "connect_error_cause (ResolveError e) = Some e"
| "connect_error_cause (CustomError e) = Some e"
| "connect_error_cause (TlsIo e) = Some (io_message e)"
| "connect_error_cause _ = None"

fun checkout_error_display :: "checkout_error \<Rightarrow> string" where
  "checkout_error_display PoolDisabled = ''connection pool is disabled''"
| "checkout_error_display NoLongerWanted = ''pool checkout was cancelled''"
| "checkout_error_display ClosedValue = ''checked-out connection was closed''"

fun normalize_error_display :: "normalize_error \<Rightarrow> string" where
  "normalize_error_display OriginAbsoluteUriRequired = ''client requests require an absolute URI''"

text \<open>The texts of an error's source and of the sources below it.\<close>

fun source_chain :: "client_error_source \<Rightarrow> string list" where
  "source_chain (ConnectSource e) =
     connect_error_display e # (case connect_error_cause e of Some c \<Rightarrow> [c] | None \<Rightarrow> [])"
| "source_chain (NormalizeSource e) = [normalize_error_display e]"
| "source_chain (CheckoutSource e) = [checkout_error_display e]"
| "source_chain (HyperSource e) = [e]"

definition error_chain :: "client_error \<Rightarrow> string list" where
  "error_chain e =
     client_error_display e # (case ce_source e of Some s \<Rightarrow> source_chain s | None \<Rightarrow> [])"

text \<open>The text of a client error identifies its kind.\<close>

lemma client_kind_display_inject: "client_kind_display a = client_kind_display b \<longleftrightarrow> a = b"
  by (cases a; cases b) simp_all

text \<open>
  A failed establishment is reported with the text of the connector's own error, whatever
  kind it is classified as, and a library's message is never lost: it ends the chain.
\<close>

theorem connect_failure_explained:
  "error_chain (client_error_with_source (connect_error_kind e) (ConnectSource e)) ! 1 = connect_error_display e
   \<and> (\<forall>c. connect_error_cause e = Some c \<longrightarrow>
        last (error_chain (client_error_with_source (connect_error_kind e) (ConnectSource e))) = c)"
  by (cases e) (auto simp: error_chain_def client_error_with_source_def)

end
