(* ===== verification/Bench_Load.thy ===== *)
theory Bench_Load
  imports Bench_Server Client_Errors
begin

text \<open>
  The load generator (\<^verbatim>\<open>src/examples/client-load.rs\<close>): its command line, the batches of concurrent
  requests with their gauge, the totals and the report.  The claims hold for every order in which
  the requests of a batch make progress and for every response.
\<close>

section \<open>Command line\<close>

record 'u load_options =
  lo_uri :: 'u
  lo_requests :: nat
  lo_concurrency :: nat
  lo_http2 :: bool
  lo_debug_events :: bool

definition load_usage :: string where
  "load_usage =
     ''usage: cargo run --release --example client-load -- URI [--requests N] [--concurrency N] [--http2] [--debug-events]''
     @ [CHR 0x0A, CHR 0x0A]
     @ ''URI should end in /0, /1k, or /64k when body-size validation is desired.'' @ [CHR 0x0A]
     @ ''HTTPS uses the system web PKI; the committed localhost fixture is intended'' @ [CHR 0x0A]
     @ ''for the server-side curl/nghttp checks, not for this default client policy.'' @ [CHR 0x0A, CHR 0x0A]
     @ ''--debug-events retains endpoint lifecycle observations and is intended for'' @ [CHR 0x0A]
     @ ''diagnostic runs, not throughput or memory measurements.''"

definition positive :: "string \<Rightarrow> string \<Rightarrow> (string, nat) result" where
  "positive value flag =
     (case from_str_radix 10 usize_max value of
        None \<Rightarrow> Inl (flag @ '' expects a positive integer, got '' @ debug_text value)
      | Some n \<Rightarrow> if n = 0 then Inl (flag @ '' expects a positive integer'') else Inr n)"

fun parse_options_loop :: "'u load_options \<Rightarrow> string list \<Rightarrow> 'u load_options cli" where
  "parse_options_loop opts [] = CliOptions opts"
| "parse_options_loop opts (arg # args) =
     (if arg = ''--requests'' then
        (case args of
           [] \<Rightarrow> CliError ''--requests needs N''
         | v # rest \<Rightarrow>
             (case positive v ''--requests'' of
                Inl e \<Rightarrow> CliError e
              | Inr n \<Rightarrow> parse_options_loop (opts\<lparr>lo_requests := n\<rparr>) rest))
      else if arg = ''--concurrency'' then
        (case args of
           [] \<Rightarrow> CliError ''--concurrency needs N''
         | v # rest \<Rightarrow>
             (case positive v ''--concurrency'' of
                Inl e \<Rightarrow> CliError e
              | Inr n \<Rightarrow> parse_options_loop (opts\<lparr>lo_concurrency := n\<rparr>) rest))
      else if arg = ''--http2'' then parse_options_loop (opts\<lparr>lo_http2 := True\<rparr>) args
      else if arg = ''--debug-events'' then parse_options_loop (opts\<lparr>lo_debug_events := True\<rparr>) args
      else if arg = ''--help'' \<or> arg = ''-h'' then CliHelp
      else CliError (unknown_option arg load_usage))"

text \<open>\<open>uri_parse\<close> is the HTTP library's parser of URIs; its error is the text it prints.\<close>

definition parse_options :: "(string \<Rightarrow> (string, 'u) result) \<Rightarrow> string list \<Rightarrow> 'u load_options cli" where
  "parse_options uri_parse args =
     (case args of
        [] \<Rightarrow> CliError load_usage
      | first # rest \<Rightarrow>
          if first = ''--help'' \<or> first = ''-h'' then CliHelp
          else
            (case uri_parse first of
               Inl e \<Rightarrow> CliError (''invalid URI: '' @ e)
             | Inr uri \<Rightarrow>
                 parse_options_loop
                   \<lparr>lo_uri = uri, lo_requests = 1000, lo_concurrency = 16, lo_http2 = False,
                    lo_debug_events = False\<rparr> rest))"

definition load_builder ::
  "'u load_options \<Rightarrow> 'n \<Rightarrow> 'h1 option \<Rightarrow> 'h2 option \<Rightarrow> ('n, 'h1, 'h2) client_builder" where
  "load_builder opts connector h1 h2 =
     (let b = builder_new connector h1 h2;
          b1 = (if lo_http2 opts then bd_http2_only True b else b)
      in if lo_debug_events opts then bd_debug_event_log b1 else b1)"

section \<open>Event counts\<close>

record event_counts =
  ec_tcp_connections :: nat
  ec_tls_handshakes :: nat
  ec_h1_connections :: nat
  ec_h2_sessions :: nat

fun count_event :: "'k debug_event \<Rightarrow> event_counts \<Rightarrow> event_counts" where
  "count_event (ConnectionEstablished _ protocol) c =
     (let c1 = c\<lparr>ec_tcp_connections := ec_tcp_connections c + 1\<rparr>
      in case protocol of
           ConnHttp1 \<Rightarrow> c1\<lparr>ec_h1_connections := ec_h1_connections c + 1\<rparr>
         | ConnHttp2 \<Rightarrow> c1\<lparr>ec_h2_sessions := ec_h2_sessions c + 1\<rparr>)"
| "count_event (AlpnSelected _ _) c = c\<lparr>ec_tls_handshakes := ec_tls_handshakes c + 1\<rparr>"
| "count_event _ c = c"

definition count_events :: "'k debug_event list \<Rightarrow> event_counts" where
  "count_events events =
     fold count_event events
       \<lparr>ec_tcp_connections = 0, ec_tls_handshakes = 0, ec_h1_connections = 0, ec_h2_sessions = 0\<rparr>"

section \<open>Requests in flight\<close>

record concurrency =
  cc_in_flight :: nat
  cc_peak :: nat

definition concurrency_enter :: "concurrency \<Rightarrow> concurrency" where
  "concurrency_enter g =
     (let current = cc_in_flight g + 1 in \<lparr>cc_in_flight = current, cc_peak = max (cc_peak g) current\<rparr>)"

definition in_flight_drop :: "concurrency \<Rightarrow> concurrency" where
  "in_flight_drop g = g\<lparr>cc_in_flight := cc_in_flight g - 1\<rparr>"

definition expected_body_len :: "string \<Rightarrow> nat option" where
  "expected_body_len path =
     (if path = ''/0'' then Some 0
      else if path = ''/1k'' then Some 1024
      else if path = ''/64k'' then Some (64 * 1024)
      else None)"

text \<open>
  One request, between its awaits: not yet polled, awaiting the response, awaiting a frame of the
  body with the length read so far, or finished.
  An error is given by the text the request reports; lengths and counters are natural numbers.
\<close>

type_synonym load_result = "(string, http_version \<times> bool) result"

datatype 'b load_task = Unpolled | AwaitResponse | AwaitFrame http_version nat 'b | Fetched load_result

text \<open>What one frame means to \<^verbatim>\<open>body_len\<close>; \<open>N\<close> awaits the next frame, \<open>n\<close> bytes have been read.\<close>

definition body_len_step ::
  "('b \<Rightarrow> (string, 't frame) result option \<times> 'b) \<Rightarrow> nat \<Rightarrow> 'b \<Rightarrow> (string, nat) result + nat \<times> 'b" where
  "body_len_step N n b =
     (case N b of
        (None, b') \<Rightarrow> Inl (Inr n)
      | (Some (Inl e), b') \<Rightarrow> Inl (Inl e)
      | (Some (Inr (DataFrame d)), b') \<Rightarrow> Inr (n + length d, b')
      | (Some (Inr (TrailersFrame t)), b') \<Rightarrow> Inr (n, b'))"

fun one_request_step ::
  "('b \<Rightarrow> (string, 't frame) result option \<times> 'b) \<Rightarrow> nat option \<Rightarrow> (string, http_version \<times> 'b) result
     \<Rightarrow> 'b load_task \<Rightarrow> concurrency \<Rightarrow> 'b load_task \<times> concurrency" where
  "one_request_step N expected R Unpolled g = (AwaitResponse, concurrency_enter g)"
| "one_request_step N expected R AwaitResponse g =
     (case R of
        Inl e \<Rightarrow> (Fetched (Inl e), in_flight_drop g)
      | Inr (version, body) \<Rightarrow> (AwaitFrame version 0 body, g))"
| "one_request_step N expected R (AwaitFrame version n b) g =
     (case body_len_step N n b of
        Inl (Inl e) \<Rightarrow> (Fetched (Inl e), in_flight_drop g)
      | Inl (Inr len) \<Rightarrow>
          (Fetched (Inr (version, case expected of None \<Rightarrow> True | Some l \<Rightarrow> l = len)), in_flight_drop g)
      | Inr (n', b') \<Rightarrow> (AwaitFrame version n' b', g))"
| "one_request_step N expected R (Fetched r) g = (Fetched r, g)"

fun is_fetched :: "'b load_task \<Rightarrow> bool" where
  "is_fetched (Fetched _) = True"
| "is_fetched _ = False"

fun in_progress :: "'b load_task \<Rightarrow> bool" where
  "in_progress AwaitResponse = True"
| "in_progress (AwaitFrame _ _ _) = True"
| "in_progress _ = False"

fun fetched_result :: "'b load_task \<Rightarrow> load_result" where
  "fetched_result (Fetched r) = r"
| "fetched_result _ = Inl []"

section \<open>The run\<close>

record load_totals =
  lt_completed :: nat
  lt_errors :: nat
  lt_body_mismatches :: nat
  lt_http11 :: nat
  lt_http2 :: nat
  lt_first_error :: "string option"

fun tally :: "load_result \<Rightarrow> load_totals \<Rightarrow> load_totals" where
  "tally (Inr (version, body_ok)) t =
     (let t1 = (case version of
                  HTTP_11 \<Rightarrow> t\<lparr>lt_http11 := lt_http11 t + 1\<rparr>
                | HTTP_2 \<Rightarrow> t\<lparr>lt_http2 := lt_http2 t + 1\<rparr>
                | _ \<Rightarrow> t)
      in if body_ok then t1 else t1\<lparr>lt_body_mismatches := lt_body_mismatches t + 1\<rparr>)"
| "tally (Inl e) t =
     t\<lparr>lt_errors := lt_errors t + 1,
       lt_first_error := (if lt_errors t = 0 then Some e else lt_first_error t)\<rparr>"

record 'b load_world =
  ld_gauge :: concurrency
  ld_tasks :: "'b load_task list"
  ld_totals :: load_totals
  ld_finished :: bool

text \<open>The head of the loop: it ends, or builds the next batch.\<close>

definition next_batch :: "'u load_options \<Rightarrow> 'b load_world \<Rightarrow> 'b load_world" where
  "next_batch opts w =
     (if lt_completed (ld_totals w) < lo_requests opts
      then w\<lparr>ld_tasks := replicate (min (lo_requests opts - lt_completed (ld_totals w)) (lo_concurrency opts)) Unpolled\<rparr>
      else w\<lparr>ld_tasks := [], ld_finished := True\<rparr>)"

definition load_start :: "'u load_options \<Rightarrow> 'b load_world" where
  "load_start opts =
     next_batch opts
       \<lparr>ld_gauge = \<lparr>cc_in_flight = 0, cc_peak = 0\<rparr>, ld_tasks = [],
        ld_totals = \<lparr>lt_completed = 0, lt_errors = 0, lt_body_mismatches = 0, lt_http11 = 0, lt_http2 = 0,
                     lt_first_error = None\<rparr>,
        ld_finished = False\<rparr>"

text \<open>The rest of the loop's body: when all requests of the batch are done, their results are counted.\<close>

definition finish_batch :: "'u load_options \<Rightarrow> 'b load_world \<Rightarrow> 'b load_world" where
  "finish_batch opts w =
     (let t = fold tally (map fetched_result (ld_tasks w)) (ld_totals w)
      in next_batch opts (w\<lparr>ld_totals := t\<lparr>lt_completed := lt_completed t + length (ld_tasks w)\<rparr>\<rparr>))"

definition load_ok :: "'u load_options \<Rightarrow> load_totals \<Rightarrow> nat" where
  "load_ok opts t = lo_requests opts - lt_errors t - lt_body_mismatches t"

definition load_outcome :: "load_totals \<Rightarrow> (string, unit) result" where
  "load_outcome t =
     (if lt_errors t \<noteq> 0 \<or> lt_body_mismatches t \<noteq> 0 then Inl ''load run did not complete cleanly'' else Inr ())"

text \<open>The report; the texts of the two lines computed from the clock are given.\<close>

definition load_report ::
  "('u \<Rightarrow> string) \<Rightarrow> string \<Rightarrow> string \<Rightarrow> 'u load_options \<Rightarrow> 'b load_world \<Rightarrow> 'k debug_event list option \<Rightarrow> string list" where
  "load_report uri_text elapsed rate opts w events =
     (let num = show_radix 10; t = ld_totals w in
      [''uri='' @ uri_text (lo_uri opts),
       ''protocol='' @ (if lo_http2 opts then ''h2'' else ''auto''),
       ''requests='' @ num (lo_requests opts),
       ''concurrency='' @ num (lo_concurrency opts),
       ''logical_concurrency='' @ num (lo_concurrency opts),
       ''peak_concurrency='' @ num (cc_peak (ld_gauge w)),
       ''elapsed_seconds='' @ elapsed,
       ''requests_per_second='' @ rate,
       ''ok='' @ num (load_ok opts t),
       ''errors='' @ num (lt_errors t),
       ''body_mismatches='' @ num (lt_body_mismatches t),
       ''http1_responses='' @ num (lt_http11 t),
       ''http2_responses='' @ num (lt_http2 t)]
      @ (case events of
           Some evs \<Rightarrow>
             (let c = count_events evs in
              [''debug_events=enabled'',
               ''tcp_connections='' @ num (ec_tcp_connections c),
               ''tls_handshakes='' @ num (ec_tls_handshakes c),
               ''h1_connections='' @ num (ec_h1_connections c),
               ''h2_sessions='' @ num (ec_h2_sessions c)])
         | None \<Rightarrow> [''debug_events=disabled'']))"

text \<open>
  All runs: the requests of the batch proceed in any order and get responses in \<open>Rs\<close>; \<open>rs\<close> are the
  results counted so far.
\<close>

inductive load_reachable ::
  "('b \<Rightarrow> (string, 't frame) result option \<times> 'b) \<Rightarrow> nat option \<Rightarrow> (string, http_version \<times> 'b) result set
     \<Rightarrow> 'u load_options \<Rightarrow> load_result list \<Rightarrow> 'b load_world \<Rightarrow> bool"
  for N expected Rs opts where
  load_init: "load_reachable N expected Rs opts [] (load_start opts)"
| load_task: "load_reachable N expected Rs opts rs w \<Longrightarrow> R \<in> Rs \<Longrightarrow> i < length (ld_tasks w) \<Longrightarrow>
    one_request_step N expected R (ld_tasks w ! i) (ld_gauge w) = (t', g') \<Longrightarrow>
    load_reachable N expected Rs opts rs (w\<lparr>ld_tasks := (ld_tasks w)[i := t'], ld_gauge := g'\<rparr>)"
| load_batch: "load_reachable N expected Rs opts rs w \<Longrightarrow> \<not> ld_finished w \<Longrightarrow> list_all is_fetched (ld_tasks w) \<Longrightarrow>
    load_reachable N expected Rs opts (rs @ map fetched_result (ld_tasks w)) (finish_batch opts w)"

section \<open>The command line is understood\<close>

lemma positive_Inr: "positive v flag = Inr n \<Longrightarrow> 0 < n \<and> n \<le> usize_max"
  by (auto simp: positive_def split: option.splits if_splits dest: from_str_radix_bound)

definition options_ok :: "'u load_options \<Rightarrow> bool" where
  "options_ok opts \<longleftrightarrow> 0 < lo_requests opts \<and> 0 < lo_concurrency opts"

lemma parse_options_loop_ok:
  "parse_options_loop opts args = CliOptions opts' \<Longrightarrow> options_ok opts \<Longrightarrow> options_ok opts'"
proof (induction opts args rule: parse_options_loop.induct)
  case (2 opts arg args)
  from "2.prems"(1) consider
      v rest n where "args = v # rest" "arg = ''--requests''" "positive v ''--requests'' = Inr n"
        "parse_options_loop (opts\<lparr>lo_requests := n\<rparr>) rest = CliOptions opts'"
    | v rest n where "args = v # rest" "arg = ''--concurrency''" "positive v ''--concurrency'' = Inr n"
        "parse_options_loop (opts\<lparr>lo_concurrency := n\<rparr>) rest = CliOptions opts'"
    | "arg = ''--http2''" "parse_options_loop (opts\<lparr>lo_http2 := True\<rparr>) args = CliOptions opts'"
    | "arg = ''--debug-events''" "parse_options_loop (opts\<lparr>lo_debug_events := True\<rparr>) args = CliOptions opts'"
    by (simp split: if_split_asm list.split_asm sum.split_asm)
  then show ?case
  proof cases
    case 1
    then show ?thesis using "2.IH"(1) positive_Inr[OF 1(3)] "2.prems"(2) by (simp add: options_ok_def)
  next
    case 2
    then show ?thesis using "2.IH"(2) positive_Inr[OF 2(3)] "2.prems"(2) by (simp add: options_ok_def)
  next
    case 3
    then show ?thesis using "2.IH"(3) "2.prems"(2) by (simp add: options_ok_def)
  next
    case 4
    then show ?thesis using "2.IH"(4) "2.prems"(2) by (simp add: options_ok_def)
  qed
qed simp

lemma parse_options_ok: "parse_options uri_parse args = CliOptions opts \<Longrightarrow> options_ok opts"
  by (auto simp: parse_options_def options_ok_def split: list.splits if_splits sum.splits
      dest!: parse_options_loop_ok)

text \<open>The arguments that ask for given options are understood as such.\<close>

definition load_args :: "('u \<Rightarrow> string) \<Rightarrow> 'u load_options \<Rightarrow> string list" where
  "load_args uri_text opts =
     [uri_text (lo_uri opts), ''--requests'', show_radix 10 (lo_requests opts),
      ''--concurrency'', show_radix 10 (lo_concurrency opts)]
     @ (if lo_http2 opts then [''--http2''] else [])
     @ (if lo_debug_events opts then [''--debug-events''] else [])"

lemma positive_show: "0 < n \<Longrightarrow> n \<le> usize_max \<Longrightarrow> positive (show_radix 10 n) flag = Inr n"
  by (simp add: positive_def from_str_radix_show_radix)

theorem load_options_roundtrip:
  assumes "uri_parse (uri_text (lo_uri opts)) = Inr (lo_uri opts)"
    and "uri_text (lo_uri opts) \<notin> {''--help'', ''-h''}"
    and "options_ok opts" "lo_requests opts \<le> usize_max" "lo_concurrency opts \<le> usize_max"
  shows "parse_options uri_parse (load_args uri_text opts) = CliOptions opts"
proof (cases opts)
  case (fields u r c h d)
  with assms show ?thesis
    by (simp add: parse_options_def load_args_def options_ok_def positive_show)
qed

section \<open>The run accounts for every request\<close>

fun bad_body :: "load_result \<Rightarrow> bool" where
  "bad_body (Inr (_, body_ok)) = (\<not> body_ok)"
| "bad_body (Inl _) = False"

fun of_version :: "http_version \<Rightarrow> load_result \<Rightarrow> bool" where
  "of_version v (Inr (version, _)) = (version = v)"
| "of_version v (Inl _) = False"

definition clean :: "load_result \<Rightarrow> bool" where
  "clean r \<longleftrightarrow> \<not> isl r \<and> \<not> bad_body r"

text \<open>The totals count the results \<open>rs\<close>.\<close>

definition totals_of :: "load_result list \<Rightarrow> load_totals \<Rightarrow> bool" where
  "totals_of rs t \<longleftrightarrow>
     lt_errors t = length (filter isl rs) \<and> lt_body_mismatches t = length (filter bad_body rs)
     \<and> lt_http11 t = length (filter (of_version HTTP_11) rs) \<and> lt_http2 t = length (filter (of_version HTTP_2) rs)
     \<and> lt_first_error t = (case filter isl rs of [] \<Rightarrow> None | r # _ \<Rightarrow> Some (projl r))"

lemma tally_totals: "totals_of rs t \<Longrightarrow> totals_of (rs @ [r]) (tally r t)"
  by (induction r t rule: tally.induct)
    (auto simp: totals_of_def Let_def split: http_version.splits list.splits)

lemma tally_completed: "lt_completed (fold tally rs t) = lt_completed t"
proof -
  have "lt_completed (tally r t) = lt_completed t" for r t
    by (induction r t rule: tally.induct) (auto simp: Let_def split: http_version.split)
  then show ?thesis by (induction rs arbitrary: t) auto
qed

lemma fold_tally_totals: "totals_of rs t \<Longrightarrow> totals_of (rs @ rs') (fold tally rs' t)"
proof (induction rs' arbitrary: rs t)
  case (Cons r rs')
  from Cons.IH[OF tally_totals[OF Cons.prems]] show ?case by simp
qed simp

lemma totals_partition:
  "length rs = length (filter isl rs) + length (filter bad_body rs) + length (filter clean rs)"
  by (induction rs) (auto simp: clean_def elim: bad_body.elims)

lemma length_filter_update:
  "i < length xs \<Longrightarrow> length (filter P (xs[i := x])) + (if P (xs ! i) then 1 else 0)
     = length (filter P xs) + (if P x then 1 else 0)"
proof (induction xs arbitrary: i)
  case (Cons y ys)
  then show ?case using Cons.IH[of "i - 1"] by (cases i) auto
qed simp

definition gauge_inv :: "'u load_options \<Rightarrow> 'b load_world \<Rightarrow> bool" where
  "gauge_inv opts w \<longleftrightarrow>
     cc_in_flight (ld_gauge w) = length (filter in_progress (ld_tasks w))
     \<and> cc_in_flight (ld_gauge w) \<le> cc_peak (ld_gauge w) \<and> cc_peak (ld_gauge w) \<le> lo_concurrency opts"

definition batch_inv :: "'u load_options \<Rightarrow> load_result list \<Rightarrow> 'b load_world \<Rightarrow> bool" where
  "batch_inv opts rs w \<longleftrightarrow>
     totals_of rs (ld_totals w) \<and> lt_completed (ld_totals w) = length rs
     \<and> (if ld_finished w then ld_tasks w = [] \<and> length rs = lo_requests opts
        else ld_tasks w \<noteq> [] \<and> length (ld_tasks w) \<le> lo_concurrency opts
          \<and> length rs + length (ld_tasks w) \<le> lo_requests opts)"

lemma gauge_step:
  assumes "gauge_inv opts w" and "length (ld_tasks w) \<le> lo_concurrency opts" and i: "i < length (ld_tasks w)"
    and step: "one_request_step N expected R (ld_tasks w ! i) (ld_gauge w) = (t', g')"
  shows "gauge_inv opts (w\<lparr>ld_tasks := (ld_tasks w)[i := t'], ld_gauge := g'\<rparr>)"
proof -
  let ?t = "ld_tasks w ! i" and ?n = "length (filter in_progress (ld_tasks w))"
  note upd = length_filter_update[OF i, of in_progress t']
  have pos: "in_progress ?t \<Longrightarrow> 0 < ?n"
    using nth_mem[OF i] by (auto simp: filter_empty_conv)
  have room: "?n < length (ld_tasks w)" if "\<not> in_progress ?t"
    using length_filter_less[of ?t "ld_tasks w" in_progress] nth_mem[OF i] that by simp
  show ?thesis
  proof (cases ?t)
    case Unpolled
    then show ?thesis using step upd room assms(1,2) by (auto simp: gauge_inv_def concurrency_enter_def)
  next
    case AwaitResponse
    then show ?thesis using step upd pos assms(1)
      by (auto simp: gauge_inv_def in_flight_drop_def split: sum.splits)
  next
    case (AwaitFrame v n b)
    then show ?thesis using step upd pos assms(1)
      by (auto simp: gauge_inv_def in_flight_drop_def split: sum.splits)
  next
    case (Fetched r)
    then show ?thesis using step upd assms(1) by (auto simp: gauge_inv_def)
  qed
qed

lemma next_batch_inv:
  assumes "options_ok opts" "totals_of rs (ld_totals w)" "lt_completed (ld_totals w) = length rs"
    "length rs \<le> lo_requests opts" "\<not> ld_finished w"
  shows "batch_inv opts rs (next_batch opts w)"
  using assms by (auto simp: batch_inv_def next_batch_def options_ok_def)

lemma next_batch_gauge:
  assumes "cc_in_flight (ld_gauge w) = 0" "cc_peak (ld_gauge w) \<le> lo_concurrency opts"
  shows "gauge_inv opts (next_batch opts w)"
  using assms by (auto simp: gauge_inv_def next_batch_def)

lemma fetched_idle: "list_all is_fetched ts \<Longrightarrow> filter in_progress ts = []"
  by (induction ts) (auto elim: is_fetched.elims)

lemma load_inv:
  assumes "options_ok opts"
  shows "load_reachable N expected Rs opts rs w \<Longrightarrow> gauge_inv opts w \<and> batch_inv opts rs w"
proof (induction rule: load_reachable.induct)
  case load_init
  then show ?case
    using assms unfolding load_start_def
    by (intro conjI next_batch_gauge next_batch_inv) (simp_all add: totals_of_def)
next
  case (load_task rs w R i t' g')
  then have "length (ld_tasks w) \<le> lo_concurrency opts" by (auto simp: batch_inv_def split: if_splits)
  with load_task show ?case
    using gauge_step[of opts w i N expected R t' g'] by (auto simp: batch_inv_def split: if_splits)
next
  case (load_batch rs w)
  let ?t = "fold tally (map fetched_result (ld_tasks w)) (ld_totals w)"
  let ?w = "w\<lparr>ld_totals := ?t\<lparr>lt_completed := lt_completed ?t + length (ld_tasks w)\<rparr>\<rparr>"
  have inv: "totals_of rs (ld_totals w)" "lt_completed (ld_totals w) = length rs"
    "length rs + length (ld_tasks w) \<le> lo_requests opts"
    using load_batch.IH load_batch.hyps(2) by (simp_all add: batch_inv_def)
  have "totals_of (rs @ map fetched_result (ld_tasks w)) ?t" by (rule fold_tally_totals[OF inv(1)])
  then have "batch_inv opts (rs @ map fetched_result (ld_tasks w)) (next_batch opts ?w)"
    using inv load_batch.hyps(2) by (intro next_batch_inv[OF assms]) (simp_all add: totals_of_def tally_completed)
  moreover have "gauge_inv opts (next_batch opts ?w)"
    using load_batch.IH fetched_idle[OF load_batch.hyps(3)] by (intro next_batch_gauge) (simp_all add: gauge_inv_def)
  ultimately show ?case by (simp add: finish_batch_def Let_def)
qed

text \<open>
  C40. The load generator accounts for every request.  For every accepted command line, every
  behaviour of the server and every order in which concurrent requests proceed: the gauge is the
  number of requests in progress and its peak never exceeds the requested concurrency; a run that
  has not ended has a batch to await, which does not exceed the requests still to be made; and
  when it ends exactly the requested number of results has been counted, the three
  totals of the report are the clean, the failed and the mismatched ones, and the run is
  reported as clean just if every request was.
\<close>

theorem load_run_accounts:
  assumes "parse_options uri_parse args = CliOptions opts" and "load_reachable N expected Rs opts rs w"
  shows "cc_in_flight (ld_gauge w) = length (filter in_progress (ld_tasks w))
    \<and> cc_peak (ld_gauge w) \<le> lo_concurrency opts
    \<and> (\<not> ld_finished w \<longrightarrow> ld_tasks w \<noteq> [] \<and> length rs + length (ld_tasks w) \<le> lo_requests opts)
    \<and> (ld_finished w \<longrightarrow> length rs = lo_requests opts \<and> cc_in_flight (ld_gauge w) = 0
        \<and> load_ok opts (ld_totals w) = length (filter clean rs)
        \<and> lt_errors (ld_totals w) = length (filter isl rs)
        \<and> lt_body_mismatches (ld_totals w) = length (filter bad_body rs)
        \<and> (load_outcome (ld_totals w) = Inr () \<longleftrightarrow> list_all clean rs))"
proof -
  have inv: "gauge_inv opts w" "batch_inv opts rs w"
    using load_inv[OF parse_options_ok[OF assms(1)] assms(2)] by auto
  have clean_iff: "list_all clean rs \<longleftrightarrow> filter isl rs = [] \<and> filter bad_body rs = []"
    by (auto simp: list_all_iff filter_empty_conv clean_def)
  show ?thesis
    using inv totals_partition[of rs] clean_iff
    by (auto simp: gauge_inv_def batch_inv_def totals_of_def load_ok_def load_outcome_def split: if_splits)
qed

text \<open>A run under a given schedule: an action lets one request proceed or counts the batch.\<close>

datatype 'b load_action = Proceed nat "(string, http_version \<times> 'b) result" | CountBatch

fun load_exec ::
  "('b \<Rightarrow> (string, 't frame) result option \<times> 'b) \<Rightarrow> nat option \<Rightarrow> 'u load_options \<Rightarrow> 'b load_action list
     \<Rightarrow> load_result list \<times> 'b load_world \<Rightarrow> (load_result list \<times> 'b load_world) option" where
  "load_exec N expected opts [] s = Some s"
| "load_exec N expected opts (Proceed i R # acts) (rs, w) =
     (if i < length (ld_tasks w) then
        (let (t', g') = one_request_step N expected R (ld_tasks w ! i) (ld_gauge w)
         in load_exec N expected opts acts (rs, w\<lparr>ld_tasks := (ld_tasks w)[i := t'], ld_gauge := g'\<rparr>))
      else None)"
| "load_exec N expected opts (CountBatch # acts) (rs, w) =
     (if \<not> ld_finished w \<and> list_all is_fetched (ld_tasks w)
      then load_exec N expected opts acts (rs @ map fetched_result (ld_tasks w), finish_batch opts w)
      else None)"

lemma load_exec_reachable:
  assumes "load_exec N expected opts acts s = Some s'" and "load_reachable N expected UNIV opts (fst s) (snd s)"
  shows "load_reachable N expected UNIV opts (fst s') (snd s')"
  using assms
proof (induction N expected opts acts s rule: load_exec.induct)
  case (2 N expected opts i R acts rs w)
  obtain t' g' where step: "one_request_step N expected R (ld_tasks w ! i) (ld_gauge w) = (t', g')" by fastforce
  have i: "i < length (ld_tasks w)" using "2.prems"(1) by (simp split: if_splits)
  have "load_reachable N expected UNIV opts rs (w\<lparr>ld_tasks := (ld_tasks w)[i := t'], ld_gauge := g'\<rparr>)"
    using "2.prems"(2) by (auto intro: load_reachable.load_task[OF _ _ i step])
  then show ?case using "2.IH"[OF i step[symmetric] refl] "2.prems"(1) i step by simp
next
  case (3 N expected opts acts rs w)
  then show ?case by (auto split: if_splits intro: load_reachable.load_batch)
qed simp

definition one_frame_next :: "one_frame_body \<Rightarrow> (string, unit frame) result option \<times> one_frame_body" where
  "one_frame_next b =
     (case one_frame_poll_frame b of (Ready f, b') \<Rightarrow> (f, b') | (Pending, b') \<Rightarrow> (None, b'))"

definition demo_schedule :: "one_frame_body load_action list" where
  "demo_schedule =
     [Proceed 0 (Inl []), Proceed 1 (Inl []), Proceed 1 (Inl ''refused''), Proceed 0 (Inr (HTTP_11, Some ''abc'')),
      Proceed 0 (Inl []), Proceed 0 (Inl []), CountBatch,
      Proceed 0 (Inl []), Proceed 0 (Inr (HTTP_2, None)), Proceed 0 (Inl []), CountBatch]"

theorem load_run_accounts_witness:
  "\<exists>opts rs w. parse_options Inr [''u'', ''--requests'', ''3'', ''--concurrency'', ''2''] = CliOptions opts
     \<and> load_exec one_frame_next (Some 3) opts demo_schedule ([], load_start opts) = Some (rs, w)
     \<and> ld_finished w \<and> length rs = 3 \<and> load_outcome (ld_totals w) \<noteq> Inr () \<and> load_ok opts (ld_totals w) = 1"
proof -
  let ?opts = "\<lparr>lo_uri = ''u'', lo_requests = 3, lo_concurrency = 2, lo_http2 = False, lo_debug_events = False\<rparr>"
  let ?run = "load_exec one_frame_next (Some 3) ?opts demo_schedule ([], load_start ?opts)"
  have parse: "parse_options Inr [''u'', ''--requests'', ''3'', ''--concurrency'', ''2''] = CliOptions ?opts"
    by code_simp
  have "map_option (\<lambda>(rs, w). (rs, ld_finished w)) ?run =
      Some ([Inr (HTTP_11, True), Inl ''refused'', Inr (HTTP_2, False)], True)"
    by code_simp
  then obtain w where run: "?run = Some ([Inr (HTTP_11, True), Inl ''refused'', Inr (HTTP_2, False)], w)"
    and fin: "ld_finished w" by auto
  have "load_reachable one_frame_next (Some 3) UNIV ?opts [Inr (HTTP_11, True), Inl ''refused'', Inr (HTTP_2, False)] w"
    using load_exec_reachable[OF run] by (simp add: load_reachable.load_init)
  from load_run_accounts[OF parse this] fin run parse show ?thesis by (auto simp: clean_def)
qed

section \<open>The load generator against the benchmark service\<close>

text \<open>
  A request whose response has the body of the benchmark service, at any moment: nothing read yet,
  everything read, or finished with the expected length.
\<close>

fun served_task :: "bytes \<Rightarrow> one_frame_body load_task \<Rightarrow> bool" where
  "served_task payload (AwaitFrame _ n b) =
     (n = 0 \<and> b = one_frame_from_bytes payload \<or> n = length payload \<and> b = None)"
| "served_task payload (Fetched r) = clean r"
| "served_task payload _ = True"

lemma served_step:
  assumes "served_task payload t" and "R = Inr (version, one_frame_from_bytes payload)"
    and "expected = None \<or> expected = Some (length payload)"
  shows "served_task payload (fst (one_request_step one_frame_next expected R t g))"
  using assms
  by (cases t) (auto simp: body_len_step_def one_frame_next_def one_frame_poll_frame_def one_frame_from_bytes_def clean_def
      split: if_splits)

lemma expected_payload:
  "expected_body_len path = None \<or> expected_body_len path = Some (length (snd (benchmark_payload path)))"
  by (simp add: expected_body_len_def benchmark_payload_def BODY_1K_def BODY_64K_def)

definition benchmark_responses :: "'h header_ops \<Rightarrow> ('u \<Rightarrow> string) \<Rightarrow> ('u, 'h, 'b) request \<Rightarrow> (string, http_version \<times> one_frame_body) result set" where
  "benchmark_responses H uri_path rq = {Inr (version, rs_body (benchmark_call H uri_path rq)) | version. True}"

lemma benchmark_body: "rs_body (benchmark_call H uri_path rq) = one_frame_from_bytes (snd (benchmark_payload (uri_path (rq_uri rq))))"
  by (simp add: benchmark_call_def split: prod.split)

lemma served_run:
  assumes "load_reachable one_frame_next expected Rs opts rs w"
    and "Rs = benchmark_responses H uri_path rq" "expected = expected_body_len (uri_path (rq_uri rq))"
  shows "list_all clean rs \<and> list_all (served_task (snd (benchmark_payload (uri_path (rq_uri rq))))) (ld_tasks w)"
  using assms
proof (induction rule: load_reachable.induct)
  case load_init
  then show ?case by (simp add: load_start_def next_batch_def list_all_iff)
next
  case (load_task rs w R i t' g')
  let ?p = "snd (benchmark_payload (uri_path (rq_uri rq)))"
  obtain version where "R = Inr (version, one_frame_from_bytes ?p)"
    using load_task.hyps(2) load_task.prems by (auto simp: benchmark_responses_def benchmark_body)
  moreover have "served_task ?p (ld_tasks w ! i)"
    using load_task.IH load_task.prems load_task.hyps(3) by (simp add: list_all_length)
  ultimately have "served_task ?p t'"
    using served_step[of ?p _ R version expected "ld_gauge w"] load_task.hyps(4) load_task.prems expected_payload
    by (metis fst_conv)
  then show ?case
    using load_task.IH load_task.prems set_update_subset_insert[of "ld_tasks w" i t'] by (auto simp: list_all_iff)
next
  case (load_batch rs w)
  let ?p = "snd (benchmark_payload (uri_path (rq_uri rq)))"
  have "clean (fetched_result t)" if "t \<in> set (ld_tasks w)" for t
  proof (cases t)
    case (Fetched r)
    then show ?thesis using load_batch.IH load_batch.prems that by (auto simp: list_all_iff)
  qed (use load_batch.hyps(3) that in \<open>auto simp: list_all_iff\<close>)
  then show ?case
    using load_batch.IH load_batch.prems by (auto simp: finish_batch_def next_batch_def Let_def list_all_iff)
qed

text \<open>
  Runs of \<open>n\<close> steps, in which only requests that are not finished proceed: what an executor polls.
\<close>

inductive load_run ::
  "('b \<Rightarrow> (string, 't frame) result option \<times> 'b) \<Rightarrow> nat option \<Rightarrow> (string, http_version \<times> 'b) result set
     \<Rightarrow> 'u load_options \<Rightarrow> nat \<Rightarrow> load_result list \<Rightarrow> 'b load_world \<Rightarrow> bool"
  for N expected Rs opts where
  run_init: "load_run N expected Rs opts 0 [] (load_start opts)"
| run_task: "load_run N expected Rs opts n rs w \<Longrightarrow> R \<in> Rs \<Longrightarrow> i < length (ld_tasks w) \<Longrightarrow>
    \<not> is_fetched (ld_tasks w ! i) \<Longrightarrow>
    one_request_step N expected R (ld_tasks w ! i) (ld_gauge w) = (t', g') \<Longrightarrow>
    load_run N expected Rs opts (Suc n) rs (w\<lparr>ld_tasks := (ld_tasks w)[i := t'], ld_gauge := g'\<rparr>)"
| run_batch: "load_run N expected Rs opts n rs w \<Longrightarrow> \<not> ld_finished w \<Longrightarrow> list_all is_fetched (ld_tasks w) \<Longrightarrow>
    load_run N expected Rs opts (Suc n) (rs @ map fetched_result (ld_tasks w)) (finish_batch opts w)"

lemma load_run_reachable: "load_run N expected Rs opts n rs w \<Longrightarrow> load_reachable N expected Rs opts rs w"
  by (induction rule: load_run.induct) (auto intro: load_reachable.intros)

text \<open>The steps a request against the benchmark service has ahead of it, and a run.\<close>

fun task_rank :: "one_frame_body load_task \<Rightarrow> nat" where
  "task_rank Unpolled = 4"
| "task_rank AwaitResponse = 3"
| "task_rank (AwaitFrame _ _ b) = (if b = None then 1 else 2)"
| "task_rank (Fetched _) = 0"

definition load_rank :: "'u load_options \<Rightarrow> one_frame_body load_world \<Rightarrow> nat" where
  "load_rank opts w =
     (if ld_finished w then 0
      else 1 + sum_list (map task_rank (ld_tasks w))
        + 5 * (lo_requests opts - lt_completed (ld_totals w) - length (ld_tasks w)))"

lemma task_rank_step:
  "\<not> is_fetched t \<Longrightarrow> R = Inr (version, b) \<Longrightarrow>
     task_rank (fst (one_request_step one_frame_next expected R t g)) < task_rank t"
  by (cases t) (auto simp: body_len_step_def one_frame_next_def one_frame_poll_frame_def)

lemma sum_list_update_less:
  "i < length xs \<Longrightarrow> f x < (f (xs ! i) :: nat) \<Longrightarrow> sum_list (map f (xs[i := x])) < sum_list (map f xs)"
  by (induction xs arbitrary: i) (auto simp: nth_Cons split: nat.splits)

lemma load_rank_task:
  assumes "\<not> ld_finished w" "i < length (ld_tasks w)" "task_rank t' < task_rank (ld_tasks w ! i)"
  shows "load_rank opts (w\<lparr>ld_tasks := (ld_tasks w)[i := t'], ld_gauge := g'\<rparr>) < load_rank opts w"
  using sum_list_update_less[OF assms(2), of task_rank t'] assms by (simp add: load_rank_def)

lemma load_rank_next:
  "options_ok opts \<Longrightarrow> \<not> ld_finished w \<Longrightarrow>
     load_rank opts (next_batch opts w) \<le> 5 * (lo_requests opts - lt_completed (ld_totals w))"
  by (auto simp: load_rank_def next_batch_def options_ok_def sum_list_replicate)

lemma load_rank_batch:
  assumes "options_ok opts" "\<not> ld_finished w"
  shows "load_rank opts (finish_batch opts w) < load_rank opts w"
proof -
  let ?t = "fold tally (map fetched_result (ld_tasks w)) (ld_totals w)"
  let ?w = "w\<lparr>ld_totals := ?t\<lparr>lt_completed := lt_completed ?t + length (ld_tasks w)\<rparr>\<rparr>"
  have "load_rank opts (next_batch opts ?w)
      \<le> 5 * (lo_requests opts - lt_completed (ld_totals w) - length (ld_tasks w))"
    using load_rank_next[OF assms(1), of ?w] assms(2) by (simp add: tally_completed)
  then show ?thesis using assms(2) by (simp add: finish_batch_def Let_def load_rank_def)
qed

lemma load_run_rank:
  assumes "load_run one_frame_next expected Rs opts n rs w"
    and "Rs = benchmark_responses H uri_path rq" "options_ok opts"
  shows "n + load_rank opts w \<le> 5 * lo_requests opts"
  using assms
proof (induction rule: load_run.induct)
  case run_init
  then show ?case
    using load_rank_next[OF run_init(2), of "\<lparr>ld_gauge = \<lparr>cc_in_flight = 0, cc_peak = 0\<rparr>, ld_tasks = [],
        ld_totals = \<lparr>lt_completed = 0, lt_errors = 0, lt_body_mismatches = 0, lt_http11 = 0, lt_http2 = 0,
                     lt_first_error = None\<rparr>, ld_finished = False\<rparr>"]
    by (simp add: load_start_def)
next
  case (run_task n rs w R i t' g')
  obtain version b where "R = Inr (version, b)"
    using run_task.hyps(2) run_task.prems by (auto simp: benchmark_responses_def)
  then have "task_rank t' < task_rank (ld_tasks w ! i)"
    using task_rank_step[OF run_task.hyps(4)] run_task.hyps(5) by (metis fst_conv)
  moreover have "\<not> ld_finished w"
    using load_inv[OF run_task.prems(2) load_run_reachable[OF run_task.hyps(1)]] run_task.hyps(3)
    by (auto simp: batch_inv_def split: if_splits)
  ultimately show ?case
    using load_rank_task[of w i t' opts g'] run_task.hyps(3) run_task.IH run_task.prems by fastforce
next
  case (run_batch n rs w)
  then show ?case using load_rank_batch[of opts w] by fastforce
qed

lemma load_run_continues:
  assumes "load_run N expected Rs opts n rs w" "\<not> ld_finished w" "R \<in> Rs"
  shows "\<exists>rs' w'. load_run N expected Rs opts (Suc n) rs' w'"
proof (cases "list_all is_fetched (ld_tasks w)")
  case True
  then show ?thesis using load_run.run_batch[OF assms(1,2)] by blast
next
  case False
  then obtain i where i: "i < length (ld_tasks w)" "\<not> is_fetched (ld_tasks w ! i)" by (auto simp: list_all_length)
  obtain t' g' where "one_request_step N expected R (ld_tasks w ! i) (ld_gauge w) = (t', g')" by fastforce
  from load_run.run_task[OF assms(1,3) i this] show ?thesis by blast
qed

text \<open>
  The load generator and the benchmark service work together.  Against the benchmark service,
  for any path, any protocol versions of the responses and any order in which concurrent requests
  proceed, a run never takes more than five steps for each request, can always proceed until it has
  ended, and when it has ended it is clean: the service sends the lengths the generator expects.
\<close>

theorem benchmark_run_total:
  assumes "parse_options uri_parse args = CliOptions opts"
    and "load_run one_frame_next (expected_body_len (uri_path (rq_uri rq))) (benchmark_responses H uri_path rq) opts n rs w"
  shows "n \<le> 5 * lo_requests opts
    \<and> (\<not> ld_finished w \<longrightarrow> (\<exists>rs' w'. load_run one_frame_next (expected_body_len (uri_path (rq_uri rq)))
          (benchmark_responses H uri_path rq) opts (Suc n) rs' w'))
    \<and> (ld_finished w \<longrightarrow> load_outcome (ld_totals w) = Inr () \<and> load_ok opts (ld_totals w) = lo_requests opts)"
proof -
  note ok = parse_options_ok[OF assms(1)] and reach = load_run_reachable[OF assms(2)]
  have inv: "batch_inv opts rs w" using load_inv[OF ok reach] by auto
  have "list_all clean rs" using served_run[OF reach refl refl] by blast
  then have "filter isl rs = [] \<and> filter bad_body rs = []"
    by (auto simp: list_all_iff filter_empty_conv clean_def)
  with inv have "ld_finished w \<longrightarrow> load_outcome (ld_totals w) = Inr () \<and> load_ok opts (ld_totals w) = lo_requests opts"
    by (simp add: batch_inv_def totals_of_def load_outcome_def load_ok_def)
  moreover have "n \<le> 5 * lo_requests opts" using load_run_rank[OF assms(2) refl ok] by simp
  moreover have "Inr (HTTP_11, rs_body (benchmark_call H uri_path rq)) \<in> benchmark_responses H uri_path rq"
    by (auto simp: benchmark_responses_def)
  ultimately show ?thesis using load_run_continues[OF assms(2)] by blast
qed

theorem benchmark_run_total_witness:
  "\<exists>rs' w'. load_run one_frame_next (expected_body_len ''/1k'')
     (benchmark_responses alist_headers (\<lambda>u. u) \<lparr>rq_method = ''GET'', rq_uri = ''/1k'', rq_version = HTTP_11, rq_headers = [], rq_body = ()\<rparr>)
     \<lparr>lo_uri = ''/1k'', lo_requests = 1, lo_concurrency = 16, lo_http2 = False, lo_debug_events = False\<rparr> 1 rs' w'"
proof -
  let ?opts = "\<lparr>lo_uri = ''/1k'', lo_requests = 1, lo_concurrency = 16, lo_http2 = False, lo_debug_events = False\<rparr>"
  have parse: "parse_options Inr [''/1k'', ''--requests'', ''1''] = CliOptions ?opts" by code_simp
  have fin: "\<not> ld_finished (load_start ?opts :: one_frame_body load_world)" by code_simp
  show ?thesis
    using benchmark_run_total[OF parse, where uri_path = "\<lambda>u. u" and H = alist_headers
        and rq = "\<lparr>rq_method = ''GET'', rq_uri = ''/1k'', rq_version = HTTP_11, rq_headers = [], rq_body = ()\<rparr>",
        OF load_run.run_init] fin
    by simp
qed

section \<open>Event counts\<close>

text \<open>
  Every connection counted is one of either protocol, and the client's own record of an
  establishment counts a handshake exactly for \<open>https\<close>.
\<close>

lemma count_events_connections:
  "ec_tcp_connections (count_events evs) = ec_h1_connections (count_events evs) + ec_h2_sessions (count_events evs)"
proof -
  have "ec_tcp_connections c = ec_h1_connections c + ec_h2_sessions c \<Longrightarrow>
      (let c' = fold count_event evs c in ec_tcp_connections c' = ec_h1_connections c' + ec_h2_sessions c')" for c
  proof (induction evs arbitrary: c)
    case (Cons ev evs)
    have "ec_tcp_connections (count_event ev c) = ec_h1_connections (count_event ev c) + ec_h2_sessions (count_event ev c)"
      using Cons.prems by (cases "(ev, c)" rule: count_event.cases) (auto simp: Let_def split: connection_protocol.split)
    from Cons.IH[OF this] show ?case by simp
  qed (simp add: Let_def)
  then show ?thesis by (simp add: count_events_def Let_def)
qed

theorem established_counts:
  "count_events (concat (map (\<lambda>(key, protocol). established_events key protocol) conns)) =
     \<lparr>ec_tcp_connections = length conns,
      ec_tls_handshakes = length (filter (\<lambda>(key, _). origin_scheme key = ''https'') conns),
      ec_h1_connections = length (filter (\<lambda>(_, protocol). protocol = ConnHttp1) conns),
      ec_h2_sessions = length (filter (\<lambda>(_, protocol). protocol = ConnHttp2) conns)\<rparr>"
proof -
  have "fold count_event (concat (map (\<lambda>(key, protocol). established_events key protocol) conns)) c =
     \<lparr>ec_tcp_connections = ec_tcp_connections c + length conns,
      ec_tls_handshakes = ec_tls_handshakes c + length (filter (\<lambda>(key, _). origin_scheme key = ''https'') conns),
      ec_h1_connections = ec_h1_connections c + length (filter (\<lambda>(_, protocol). protocol = ConnHttp1) conns),
      ec_h2_sessions = ec_h2_sessions c + length (filter (\<lambda>(_, protocol). protocol = ConnHttp2) conns)\<rparr>" for c
    by (induction conns arbitrary: c) (auto simp: established_events_def Let_def split: connection_protocol.splits)
  then show ?thesis by (simp add: count_events_def)
qed

end
