(* ===== verification/Spec2Isabelle.thy ===== *)
theory Spec2Isabelle
  imports Sync_Request Sync_Head Client_Tasks Server_Lifecycle Core_Runtime Web_Router Web_Query Web_Sse Web_Socket Bench_Load
begin

text \<open>
  A verification library of h12tiny, a small HTTP/1 and HTTP/2 stack in Rust.  Under
  \<^verbatim>\<open>src/crates\<close> the program consists of a blocking client (\<^verbatim>\<open>h12tiny-client-sync\<close>), a futures-based
  client with a connection pool (\<^verbatim>\<open>h12tiny-client\<close>), the request normalisation both share
  (\<^verbatim>\<open>h12tiny-client-normalize\<close>), a server (\<^verbatim>\<open>h12tiny-server\<close>), runtime adapters (\<^verbatim>\<open>h12tiny-core\<close>),
  body utilities (\<^verbatim>\<open>h12tiny-util\<close>) and an application layer (\<^verbatim>\<open>h12tiny-web\<close>); \<^verbatim>\<open>src/examples\<close> has a load
  generator and two benchmark servers.

  \<^bold>\<open>Conventions.\<close>  A byte is a \<open>char\<close>, a byte sequence and a string are lists of them; sizes are natural
  numbers with the saturation of the source written out, protocol integers are words.  A fallible
  operation returns a sum (the error on the left) and the state it leaves; a panic is None; a loop
  that may not end is a \<open>partial_function\<close> whose None means just that, and the claims that such a
  loop returns are proved as equations with Some.  Polling is the type \<open>poll\<close>; time is a natural
  number passed to the polls.  A structure is a record with the source's fields, an enumeration a
  datatype, a method a definition of the same name (with a prefix where two structures share a
  method name).  Third-party code (\<^verbatim>\<open>http\<close>, \<^verbatim>\<open>hyper\<close>, \<^verbatim>\<open>rustls\<close>, \<^verbatim>\<open>matchit\<close>, the JSON library, sockets and the
  resolver) is a record of operations, and what the program relies on is a named predicate on that
  record (\<open>header_laws\<close>, \<open>uri_laws\<close>, \<open>alpn_laws\<close>, \<open>match_laws\<close> and so on), instantiated by a
  concrete record in the witnesses.

  \<^bold>\<open>Foundations.\<close>  \<open>H12_Prelude\<close> has the types and the parts of the standard library on slices, strings,
  UTF-8 and numerals; \<open>Http_Api\<close> the HTTP library's messages, headers and URIs.

  \<^bold>\<open>Blocking client\<close> (\<^verbatim>\<open>h12tiny-client-sync/src/lib.rs\<close>).  \<open>Byte_Source\<close> states the contract of a blocking
  stream as the locale \<open>byte_source\<close> and interprets it on TCP sockets, whose reads come in segments or
  fail and whose writes may be partial or fail; \<open>Sync_Connection\<close> does so for the client's \<^verbatim>\<open>Connection\<close>
  over TCP and TLS, and has the locale \<open>byte_sink\<close> of writers.  \<open>Sync_Wire\<close> has the parsers of heads, chunk sizes and framing
  and the error type; \<open>Sync_Body\<close> the response body with its buffer; \<open>Sync_Client\<close> name resolution,
  connecting, writing requests and reading heads.  \<open>Sync_Chunked\<close> shows that the body reader
  returns exactly the payload of every well-formed chunked message, for every segmentation, and
  that a truncated body is never reported as complete; \<open>Sync_Head\<close> that rendered heads are parsed
  back and that an accepted framing is the only one the message allows; \<open>Sync_Request\<close> what a request
  looks like on the wire, whole or cut off by a failing write, that a connection is dialled where its origin says, that reading a head
  ends, that interim responses are skipped without losing a byte, and a whole exchange.

  \<^bold>\<open>Normalisation and TLS settings.\<close>  \<open>Client_Normalize\<close> (\<^verbatim>\<open>h12tiny-client-normalize/src/lib.rs\<close>): origins,
  request targets and the Host header, without panics.  \<open>Tls_Config\<close>: both clients' configuration
  builders, the blocking one being the other restricted to HTTP/1.1.

  \<^bold>\<open>Futures-based client\<close> (\<^verbatim>\<open>h12tiny-client/src\<close>).  \<open>Client_Pool\<close> (\<^verbatim>\<open>pool.rs\<close>) has one definition per method of
  the pool, drops included.  \<open>Client_Pool_Inv\<close> makes it a state machine over all interleavings of
  its clients, for any item that satisfies the locale \<open>poolable\<close>; \<open>Client_Pool_Safe\<close> proves the invariants
  of every step; \<open>Client_Pool_Props\<close> interprets the locale on the client's own connections and states
  the limits, hand-over and wake-up properties.  \<open>Client_Connect\<close> (\<^verbatim>\<open>connect.rs\<close>) is resolution, the race of
  addresses, TCP and TLS establishment; \<open>Client_Request\<close> (\<^verbatim>\<open>lib.rs\<close>) the builder, the connection tasks, sending
  and retry; \<open>Client_Errors\<close> the texts and causes of the client's errors; \<open>Client_Tasks\<close> proves that the client's tasks, polled and dropped in any order, only make
  steps of the pool's state machine, so that its invariants hold of the running client.

  \<^bold>\<open>Server\<close> (\<^verbatim>\<open>h12tiny-server/src\<close>) \<^bold>\<open>and adapters\<close> (\<^verbatim>\<open>h12tiny-core/src\<close>).  \<open>Async_Io\<close> (\<^verbatim>\<open>io.rs\<close>) has the locale
  \<open>async_source\<close> of poll-based streams and the two I/O adapters, inverse to each other and safe on
  their buffers; \<open>Core_Runtime\<close> (\<^verbatim>\<open>runtime.rs\<close>) executors and timers, with the locale \<open>deadline_timer\<close>.
  \<open>Server_Auto\<close> (\<^verbatim>\<open>conn/auto.rs\<close>) is the detection of HTTP/2, which replays every byte it read, and the
  selection by ALPN; \<open>Server_Lifecycle\<close> (\<^verbatim>\<open>lifecycle.rs\<close>) the accept loops, whose connections are bounded and
  all finished when the server returns, also when its future is dropped on the way.

  \<^bold>\<open>Bodies and the application layer.\<close>  \<open>Util_Body\<close> (\<^verbatim>\<open>h12tiny-util/src/lib.rs\<close>): reader streams, the idle
  timeout and bounded collection, each exact.  For \<^verbatim>\<open>h12tiny-web/src/lib.rs\<close>: \<open>Web_Extract\<close> (limited bodies,
  responses, extractors, handlers), \<open>Web_Router\<close> (routes, nesting, exact deadlines, CORS, dispatch, and the services made of a router), \<open>Web_Query\<close>
  (query decoding, inverse to form encoding), \<open>Web_Sse\<close> (server-sent events, read back by a client
  that follows the format, and keep-alive streams) and \<open>Web_Socket\<close> (the WebSocket handshake and the
  hand-over to the framed connection).  The
  theorem of this theory follows a limited upload through dispatch, limit and extraction.

  \<^bold>\<open>Examples\<close> (\<^verbatim>\<open>src/examples\<close>).  \<open>Bench_Server\<close> (\<^verbatim>\<open>support/benchmark.rs\<close>, \<^verbatim>\<open>interop-server.rs\<close>,
  \<^verbatim>\<open>h2-reference-server.rs\<close>): command lines, the payload service and the accept loops.  \<open>Bench_Load\<close>
  (\<^verbatim>\<open>client-load.rs\<close>): the load generator as a state machine over all orders of its concurrent
  requests; it keeps within its concurrency, counts every request once, and measures the payload
  sizes of the benchmark service correctly.

  \<^bold>\<open>Bounds and fuel.\<close>  No definition uses fuel.  The limits in the statements are the source's own
  (head and line sizes, chunk sizes of 64 bits, the configured limits); \<open>limit < usize_max\<close> excludes the
  one limit that the source's saturating counter cannot exceed.  The race of \<open>n\<close> addresses is
  decided after at most \<open>2 n - 1\<close> events.

  \<^bold>\<open>Behaviours the development shows to be unintended.\<close>  \<open>timeout_retry_desynchronises\<close>,
  \<open>bare_lf_accepted\<close>, \<open>signed_lengths_accepted\<close>, \<open>idle_eviction_leaks_slot\<close>,
  \<open>closed_connection_strands_waiter\<close>, \<open>cancelled_waiter_leaks_slot\<close>,
  \<open>cancelled_request_fails_another\<close>, the last part of \<open>tls_selection\<close>, and \<open>sse_fields_not_isolated\<close> are
  concrete runs or general statements of them.

  \<^bold>\<open>Not modelled.\<close>  The facade \<^verbatim>\<open>src/src/lib.rs\<close>, \<^verbatim>\<open>h12tiny-server/src/lib.rs\<close> and \<^verbatim>\<open>upgrade.rs\<close> only re-export.
  The \<^verbatim>\<open>main\<close> functions of the examples bind sockets, read certificate files, spawn tasks and print;
  what they compute is modelled, the input and output is not.  Derived debug formatting and trait
  plumbing (boxing, pinning, type erasure, projections) have no behaviour beyond the values
  modelled.  The HTTP/1 and HTTP/2 engines, TLS, the WebSocket frame codec and the runtimes are
  third-party code.  The connection options that builders pass on unchanged are the HTTP library's.
\<close>

section \<open>A limited upload route, from dispatch to response\<close>

text \<open>A handler whose extractors and body are awaited in one go: its future holds the response, if there is one.\<close>

definition await_response :: "('h, 'b) web_response option \<Rightarrow> ('h, 'b) web_response poll \<times> ('h, 'b) web_response option" where
  "await_response f = (case f of Some r \<Rightarrow> Ready r | None \<Rightarrow> Pending, f)"

lemma select_endpoint_body_limit:
  assumes "mm_at M (rt_matcher r) path \<noteq> None" "select_endpoint M r m path = Some (Chosen ep ps)"
  shows "select_endpoint M (router_body_limit limit r) m path = Some (Chosen (ep\<lparr>ep_body_limit := Some limit\<rparr>) ps)"
  using assms
  by (auto simp: select_endpoint_def router_body_limit_def mr_body_limit_def split: option.splits if_splits)

lemma call_boxed_limited:
  assumes "mm_at M (rt_matcher r) (uri_path (rq_uri rq)) \<noteq> None"
    and "select_endpoint M r (rq_method rq) (uri_path (rq_uri rq)) = Some (Chosen ep ps)"
    and "rt_cors r = None" "ep_timeout ep = None"
  shows "call_boxed H uri_path M (router_body_limit limit r) rq =
    Some (HfHandler (ep_handler ep (rq\<lparr>rq_body := limited_new (rq_body rq) limit\<rparr>) (rt_state r)
      \<lparr>mt_params = ps, mt_body_limit = Some limit\<rparr>))"
  using select_endpoint_body_limit[OF assms(1,2), of limit] assms(3,4)
  by (simp add: call_boxed_def router_body_limit_def endpoint_call_def Let_def)

text \<open>
  C30. A body limit set on a router holds from dispatch to response.  Let a request select a route
  whose handler takes the body as bytes.  Under the limit the handler is called with exactly the
  bytes the transport delivers; as soon as a frame crosses the limit the first poll of the
  dispatched future answers 413, whatever the handler is and however long the body would go on.
\<close>

theorem limited_route_end_to_end:
  assumes "mm_at M (rt_matcher r) (uri_path (rq_uri rq)) \<noteq> None"
    and "select_endpoint M r (rq_method rq) (uri_path (rq_uri rq)) = Some (Chosen ep ps)"
    and "rt_cors r = None" "ep_timeout ep = None"
    and "ep_handler ep = handler_call H [extract_bytes E N] handler"
    and "rq_body rq = Transport b" "begins N b items b'" "list_all (\<lambda>i. \<not> isl i) items"
    and "length (body_data items) \<le> limit" "limit < usize_max"
  shows "\<exists>fut. call_boxed H uri_path M (router_body_limit limit r) rq = Some fut
    \<and> (fst (N b') = None \<longrightarrow>
         fst (poll_future H await_response now fut) = fst (await_response (handler [body_data items])))
    \<and> (fst (N b') = Some (Inr (DataFrame d)) \<and> limit < length (body_data items) + length d \<longrightarrow>
         fst (poll_future H await_response now fut) = Ready (response_with_body H 413
           (limit_display \<lparr>be_limit = limit, be_received = min (length (body_data items) + length d) usize_max\<rparr>)))"
proof -
  let ?rq = "rq\<lparr>rq_body := limited_new (Transport b) limit\<rparr>"
  let ?meta = "\<lparr>mt_params = ps, mt_body_limit = Some limit\<rparr>"
  let ?f = "handler_call H [extract_bytes E N] handler ?rq (rt_state r) ?meta"
  have fut: "call_boxed H uri_path M (router_body_limit limit r) rq = Some (HfHandler ?f)"
    using call_boxed_limited[where uri_path = uri_path, OF assms(1-4), of H limit] assms(5,6) by simp
  have body: "rq_body ?rq = limited_new (Transport b) limit" "mt_body_limit ?meta = Some limit" by simp_all
  note limited = limited_extraction[OF assms(7-10) body]
  have "?f = handler [body_data items]" if "fst (N b') = None"
    using limited(1)[OF that, of E "rt_state r"] by (simp add: handler_call_def)
  moreover have "?f = Some (response_with_body H 413
      (limit_display \<lparr>be_limit = limit, be_received = min (length (body_data items) + length d) usize_max\<rparr>))"
    if "fst (N b') = Some (Inr (DataFrame d)) \<and> limit < length (body_data items) + length d"
    using limited(2)[of d] that by blast
  ultimately show ?thesis unfolding fut by (auto simp: await_response_def)
qed

definition upload_routes ::
  "((string, (header_name \<times> header_value) list, (string, unit frame) result list, unit) web_request, unit,
    ((header_name \<times> header_value) list, (string, unit frame) result list) web_response option, (string \<times> nat) list) router" where
  "upload_routes =
     the (router_route literal_match ''/up''
       (method_router_of ''POST'' (handler_call alist_headers [extract_bytes plain_errors list_next]
          (\<lambda>args. Some (bytes_response alist_headers (concat args)))))
       (router_new literal_match))"

definition upload_request ::
  "(string, unit frame) result list \<Rightarrow> (string, (header_name \<times> header_value) list, (string, unit frame) result list, unit) web_request" where
  "upload_request items =
     \<lparr>rq_method = ''POST'', rq_uri = ''/up'', rq_version = HTTP_11, rq_headers = [], rq_body = Transport items, wr_extensions = ()\<rparr>"

theorem limited_route_end_to_end_witness:
  "\<exists>fut. call_boxed alist_headers (\<lambda>p. p) literal_match (router_body_limit 4 upload_routes)
       (upload_request [Inr (DataFrame ''abc''), Inr (DataFrame ''de'')]) = Some fut
     \<and> fst (poll_future alist_headers await_response 0 fut) = Ready (response_with_body alist_headers 413
         (limit_display \<lparr>be_limit = 4, be_received = min (3 + 2) usize_max\<rparr>))"
proof -
  let ?rq = "upload_request [Inr (DataFrame ''abc''), Inr (DataFrame ''de'')]"
  let ?handler = "\<lambda>args. Some (bytes_response alist_headers (concat args) :: (_, (string, unit frame) result list) web_response)"
  let ?ep = "\<lparr>ep_handler = handler_call alist_headers [extract_bytes plain_errors list_next] ?handler,
      ep_body_limit = None, ep_timeout = None\<rparr>"
  have routes: "upload_routes = \<lparr>rt_routes = [(''/up'', [''POST'' \<mapsto> ?ep])], rt_matcher = [(''/up'', 0)],
      rt_fallback = None, rt_state = None, rt_cors = None\<rparr>"
    by (simp add: upload_routes_def router_route_def router_new_def build_matcher_def literal_match_def
        method_router_of_def Let_def)
  have at: "mm_at literal_match (rt_matcher upload_routes) (rq_uri ?rq) \<noteq> None"
    by (simp add: routes upload_request_def literal_match_def)
  have sel: "select_endpoint literal_match upload_routes (rq_method ?rq) (rq_uri ?rq) = Some (Chosen ?ep [])"
    by (simp add: routes upload_request_def select_endpoint_def literal_match_def)
  have body: "rq_body ?rq = Transport [Inr (DataFrame ''abc''), Inr (DataFrame ''de'')]"
    "begins list_next [Inr (DataFrame ''abc''), Inr (DataFrame ''de'') :: (string, unit frame) result]
       [Inr (DataFrame ''abc'')] [Inr (DataFrame ''de'')]"
    by (simp_all add: upload_request_def)
  have "list_all (\<lambda>i. \<not> isl i) [Inr (DataFrame ''abc'') :: (string, unit frame) result]"
    "length (body_data [Inr (DataFrame ''abc'') :: (string, unit frame) result]) \<le> 4" "4 < usize_max"
    by (simp_all add: usize_max_def)
  from limited_route_end_to_end[where uri_path = "\<lambda>p. p", OF at sel _ _ _ body this, of alist_headers plain_errors ?handler 0 "''de''"]
  show ?thesis by (auto simp: routes numeral_3_eq_3)
qed

end
